(* ===== verification/Iemnet_Prelude.thy ===== *)
theory Iemnet_Prelude
  imports Complex_Main "HOL-Library.Word" "HOL-Library.AList"
begin

unbundle bit_operations_syntax

text \<open>
  Shared vocabulary of the development: the outcome type of a C operation (a value, or the
  memory error that the operation runs into), C arrays and heap blocks with checked access, the
  conversions between C integers and Pd's floating-point numbers, byte order, decimal printing,
  and the list lemmas the components share.
\<close>

named_theorems res_simps \<open>sequencing of operations that may hit a memory error\<close>
named_theorems float_simps \<open>conversions between C integers and t_float\<close>

section \<open>Outcomes\<close>

text \<open>
  How the C code can fail to go on: undefined behaviour of a memory access, or a wait for something
  that cannot happen any more (\<open>Blocked\<close>). Every definition that dereferences a pointer, indexes an
  array or waits returns \<open>fault + 'a\<close>: \<open>Inl\<close> names the fault and ends the operation.
\<close>

datatype fault = NullDeref | UseAfterFree | OutOfBounds nat | Blocked

type_synonym 'a res = "fault + 'a"

definition res_bind :: "'e + 'a \<Rightarrow> ('a \<Rightarrow> 'e + 'b) \<Rightarrow> 'e + 'b" where
  "res_bind m f = (case m of Inl e \<Rightarrow> Inl e | Inr x \<Rightarrow> f x)"

lemma res_bind_simps [simp, res_simps]:
  "res_bind (Inl e) f = Inl e"
  "res_bind (Inr x) f = f x"
  by (simp_all add: res_bind_def)

lemma res_bind_Inr_iff [res_simps]:
  "res_bind m f = Inr y \<longleftrightarrow> (\<exists>x. m = Inr x \<and> f x = Inr y)"
  by (cases m) auto

lemma res_bind_cong [fundef_cong]:
  "m = m' \<Longrightarrow> (\<And>x. m' = Inr x \<Longrightarrow> f x = g x) \<Longrightarrow> res_bind m f = res_bind m' g"
  by (cases m') auto

lemma res_bind_assoc: "res_bind (res_bind m f) g = res_bind m (\<lambda>x. res_bind (f x) g)"
  by (cases m) auto

lemma res_bind_eqI: "m = Inr x \<Longrightarrow> f x = r \<Longrightarrow> res_bind m f = r"
  by simp

text \<open>A \<^verbatim>\<open>for\<close> loop whose range is fixed before it starts: the body runs once per index.\<close>

fun res_fold :: "('i \<Rightarrow> 's \<Rightarrow> 'e + 's) \<Rightarrow> 'i list \<Rightarrow> 's \<Rightarrow> 'e + 's" where
  "res_fold f [] s = Inr s"
| "res_fold f (i # is) s = res_bind (f i s) (res_fold f is)"

lemma res_fold_append: "res_fold f (is @ js) s = res_bind (res_fold f is s) (res_fold f js)"
  by (induction "is" arbitrary: s) (auto simp: res_bind_assoc intro: res_bind_cong)

lemma res_fold_cong: "(\<And>i s. i \<in> set is \<Longrightarrow> f i s = g i s) \<Longrightarrow> res_fold f is s = res_fold g is s"
  by (induction "is" arbitrary: s) (auto intro: res_bind_cong)

text \<open>Loop rule: an invariant indexed by what is still to be processed.\<close>

lemma res_fold_invariant:
  assumes "P is s"
    and "\<And>i is s. P (i # is) s \<Longrightarrow> \<exists>s'. f i s = Inr s' \<and> P is s'"
  shows "\<exists>s'. res_fold f is s = Inr s' \<and> P [] s'"
  using assms(1)
proof (induction "is" arbitrary: s)
  case Nil
  then show ?case by simp
next
  case (Cons i "is")
  from assms(2) [OF Cons.prems] obtain s' where "f i s = Inr s'" "P is s'" by blast
  with Cons.IH show ?case by auto
qed

text \<open>
  A search loop: the first index whose test succeeds, \<open>-1\<close> when there is none.
\<close>

fun index_loop :: "(nat \<Rightarrow> 'e + bool) \<Rightarrow> nat list \<Rightarrow> 'e + int" where
  "index_loop t [] = Inr (-1)"
| "index_loop t (i # is) = res_bind (t i) (\<lambda>b. if b then Inr (int i) else index_loop t is)"

lemma index_loop_found:
  assumes "\<And>i. i \<in> set is \<Longrightarrow> t i = Inr (P i)"
  shows "index_loop t is = Inr (case find P is of None \<Rightarrow> -1 | Some i \<Rightarrow> int i)"
  using assms by (induction "is") auto

section \<open>Arrays and heap blocks\<close>

definition arr_get :: "'a list \<Rightarrow> nat \<Rightarrow> 'a res" where
  "arr_get xs i = (if i < length xs then Inr (xs ! i) else Inl (OutOfBounds i))"

definition arr_set :: "'a list \<Rightarrow> nat \<Rightarrow> 'a \<Rightarrow> 'a list res" where
  "arr_set xs i v = (if i < length xs then Inr (xs[i := v]) else Inl (OutOfBounds i))"

lemma arr_get_in [simp]: "i < length xs \<Longrightarrow> arr_get xs i = Inr (xs ! i)"
  by (simp add: arr_get_def)

lemma arr_get_out [simp]: "\<not> i < length xs \<Longrightarrow> arr_get xs i = Inl (OutOfBounds i)"
  by (simp add: arr_get_def)

lemma arr_set_in [simp]: "i < length xs \<Longrightarrow> arr_set xs i v = Inr (xs[i := v])"
  by (simp add: arr_set_def)

lemma arr_set_out [simp]: "\<not> i < length xs \<Longrightarrow> arr_set xs i v = Inl (OutOfBounds i)"
  by (simp add: arr_set_def)

text \<open>Initialising or copying an array with a \<^verbatim>\<open>for\<close> loop, index by index.\<close>

lemma res_fold_arr_set:
  "n \<le> length xs \<Longrightarrow>
   res_fold (\<lambda>i ys. arr_set ys i (g i)) [0..<n] xs = Inr (map g [0..<n] @ drop n xs)"
proof (induction n)
  case 0
  then show ?case by simp
next
  case (Suc n)
  then have "drop n xs \<noteq> []" by simp
  then have "drop n xs = xs ! n # drop (Suc n) xs"
    using Suc.prems by (simp add: Cons_nth_drop_Suc)
  with Suc show ?case
    by (simp add: res_fold_append list_update_append)
qed

text \<open>
  A heap of blocks of one type: a pointer is \<open>None\<close> (NULL) or \<open>Some a\<close>. Freed addresses
  disappear from the heap and may be handed out again, as malloc may do; address 0 never is.
\<close>

type_synonym ptr = "nat option"
type_synonym 'a heap = "(nat \<times> 'a) list"

definition heap_get :: "'a heap \<Rightarrow> ptr \<Rightarrow> 'a res" where
  "heap_get h p = (case p of None \<Rightarrow> Inl NullDeref
     | Some a \<Rightarrow> (case map_of h a of None \<Rightarrow> Inl UseAfterFree | Some v \<Rightarrow> Inr v))"

definition heap_put :: "'a heap \<Rightarrow> nat \<Rightarrow> 'a \<Rightarrow> 'a heap" where
  "heap_put h a v = AList.update a v h"

definition heap_free :: "'a heap \<Rightarrow> nat \<Rightarrow> 'a heap" where
  "heap_free h a = AList.delete a h"

definition heap_fresh :: "'a heap \<Rightarrow> nat" where
  "heap_fresh h = Suc (fold max (map fst h) 0)"

definition heap_dom :: "'a heap \<Rightarrow> nat set" where
  "heap_dom h = fst ` set h"

lemma heap_get_None [simp]: "heap_get h None = Inl NullDeref"
  by (simp add: heap_get_def)

lemma heap_get_Some_iff: "heap_get h (Some a) = Inr v \<longleftrightarrow> map_of h a = Some v"
  by (simp add: heap_get_def split: option.splits)

lemma heap_get_mapped [simp]: "map_of h a = Some v \<Longrightarrow> heap_get h (Some a) = Inr v"
  by (simp add: heap_get_Some_iff)

lemma heap_get_freed [simp]: "map_of h a = None \<Longrightarrow> heap_get h (Some a) = Inl UseAfterFree"
  by (simp add: heap_get_def)

lemma map_of_heap_put [simp]: "map_of (heap_put h a v) = (map_of h)(a \<mapsto> v)"
  by (simp add: heap_put_def update_conv')

lemma map_of_heap_free [simp]: "map_of (heap_free h a) = (map_of h)(a := None)"
  by (simp add: heap_free_def delete_conv')

lemma heap_dom_map_of: "heap_dom h = dom (map_of h)"
  by (simp add: heap_dom_def dom_map_of_conv_image_fst)

lemma heap_dom_put [simp]: "heap_dom (heap_put h a v) = insert a (heap_dom h)"
  by (simp add: heap_dom_map_of)

lemma heap_dom_free [simp]: "heap_dom (heap_free h a) = heap_dom h - {a}"
  by (auto simp: heap_dom_map_of)

lemma heap_dom_Nil [simp]: "heap_dom [] = {}"
  by (simp add: heap_dom_def)

lemma fold_max_ge: "(m::nat) \<le> fold max xs m \<and> (\<forall>x\<in>set xs. x \<le> fold max xs m)"
proof (induction xs arbitrary: m)
  case Nil
  then show ?case by simp
next
  case (Cons x xs)
  from Cons.IH [of "max x m"] show ?case by auto
qed

lemma heap_fresh_notin: "heap_fresh h \<notin> heap_dom h"
proof
  assume "heap_fresh h \<in> heap_dom h"
  then have "heap_fresh h \<in> set (map fst h)" by (simp add: heap_dom_def)
  then have "heap_fresh h \<le> fold max (map fst h) 0" using fold_max_ge by blast
  then show False by (simp add: heap_fresh_def)
qed

lemma map_of_heap_fresh [simp]: "map_of h (heap_fresh h) = None"
  using heap_fresh_notin [of h] by (auto simp: heap_dom_map_of domIff)

lemma length_heap_free_less:
  assumes "map_of h a = Some v"
  shows "length (heap_free h a) < length h"
proof -
  from assms have "(a, v) \<in> set h" by (rule map_of_SomeD)
  then have "length (filter (\<lambda>x. a \<noteq> fst x) h) < length h"
    by (rule length_filter_less) simp
  then show ?thesis by (simp add: heap_free_def AList.delete_eq case_prod_unfold)
qed

section \<open>Machine numbers\<close>

text \<open>
  Pd's \<open>t_float\<close> is a single-precision float. Its finite values are rationals; a C integer
  converted to it is rounded to 24 significant bits (round to nearest, ties to even). Up to
  \<open>2 ^ 24\<close> the conversion is exact.
\<close>

type_synonym t_float = rat

fun excess_bits :: "nat \<Rightarrow> nat" where
  "excess_bits m = (if m < 16777216 then 0 else Suc (excess_bits (m div 2)))"

declare excess_bits.simps [simp del]

definition round24 :: "nat \<Rightarrow> nat" where
  "round24 m = (let e = excess_bits m; q = m div 2 ^ e; r = m mod 2 ^ e; half = 2 ^ e div 2 in
     if e = 0 then m
     else if r < half \<or> (r = half \<and> even q) then q * 2 ^ e else (q + 1) * 2 ^ e)"

definition t_float_of_int :: "int \<Rightarrow> t_float" where
  "t_float_of_int n = of_int (sgn n * int (round24 (nat \<bar>n\<bar>)))"

lemma round24_exact: "m \<le> 16777216 \<Longrightarrow> round24 m = m"
proof (cases "m < 16777216")
  case True
  then show ?thesis by (simp add: round24_def excess_bits.simps [of m])
next
  assume "m \<le> 16777216"
  moreover case False
  ultimately have "m = 16777216" by simp
  then show ?thesis
    by (simp add: round24_def excess_bits.simps [of 16777216] excess_bits.simps [of 8388608])
qed

lemma t_float_of_int_exact [float_simps]: "\<bar>n\<bar> \<le> 16777216 \<Longrightarrow> t_float_of_int n = of_int n"
  by (simp add: t_float_of_int_def round24_exact sgn_mult_abs)

lemma t_float_of_int_0 [simp]: "t_float_of_int 0 = 0"
  by (simp add: t_float_of_int_exact)

lemma t_float_of_byte [float_simps, simp]: "t_float_of_int (uint (b :: 8 word)) = of_int (uint b)"
proof -
  have "uint b < 256" using uint_lt2p [of b] by simp
  then show ?thesis by (intro t_float_of_int_exact) simp
qed

lemma t_float_of_short [float_simps, simp]: "t_float_of_int (uint (p :: 16 word)) = of_int (uint p)"
proof -
  have "uint p < 65536" using uint_lt2p [of p] by simp
  then show ?thesis by (intro t_float_of_int_exact) simp
qed

text \<open>
  The other direction truncates towards zero. Where the truncated value does not fit the integer
  type C leaves the result undefined; the model takes what gcc's code does on x86-64: \<open>INT_MIN\<close>
  for \<^verbatim>\<open>int\<close>, reduction of the 64-bit conversion for \<^verbatim>\<open>unsigned int\<close>, and reduction of the
  \<^verbatim>\<open>int\<close> conversion for the shorter unsigned types.
\<close>

definition trunc_float :: "t_float \<Rightarrow> int" where
  "trunc_float f = (if f < 0 then \<lceil>f\<rceil> else \<lfloor>f\<rfloor>)"

definition c_int :: "t_float \<Rightarrow> int" where
  "c_int f = (let t = trunc_float f in
     if - 2147483648 \<le> t \<and> t \<le> 2147483647 then t else - 2147483648)"

definition c_uint :: "t_float \<Rightarrow> nat" where
  "c_uint f = nat (trunc_float f mod 4294967296)"

definition c_ushort :: "t_float \<Rightarrow> 16 word" where
  "c_ushort f = word_of_int (c_int f)"

definition c_uchar :: "t_float \<Rightarrow> 8 word" where
  "c_uchar f = word_of_int (c_int f)"

lemma trunc_float_of_int [simp]: "trunc_float (of_int n) = n"
  by (simp add: trunc_float_def)

lemma trunc_float_numeral [simp]:
  "trunc_float 0 = 0" "trunc_float 1 = 1" "trunc_float (numeral k) = numeral k"
  "trunc_float (- 1) = - 1" "trunc_float (- numeral k) = - numeral k"
  by (simp_all add: trunc_float_def ceiling_def)

lemma c_int_of_int [float_simps]:
  "- 2147483648 \<le> n \<Longrightarrow> n \<le> 2147483647 \<Longrightarrow> c_int (of_int n) = n"
  by (simp add: c_int_def)

lemma c_int_range: "- 2147483648 \<le> c_int f \<and> c_int f \<le> 2147483647"
  by (simp add: c_int_def Let_def)

lemma c_int_of_t_float_of_int [float_simps]:
  "\<bar>n\<bar> \<le> 16777216 \<Longrightarrow> c_int (t_float_of_int n) = n"
  by (simp add: t_float_of_int_exact c_int_of_int)

lemma c_uint_less: "c_uint f < 4294967296"
  by (simp add: c_uint_def nat_less_iff)

text \<open>A \<^verbatim>\<open>long\<close> stored in an \<^verbatim>\<open>int\<close>, and the negation of an \<^verbatim>\<open>int\<close>: reduced to 32 bits.\<close>

definition c_int_of_long :: "int \<Rightarrow> int" where
  "c_int_of_long n = sint (word_of_int n :: 32 word)"

definition c_neg :: "int \<Rightarrow> int" where
  "c_neg n = c_int_of_long (- n)"

lemma c_int_of_long_id [simp]:
  "- 2147483648 \<le> n \<Longrightarrow> n \<le> 2147483647 \<Longrightarrow> c_int_of_long n = n"
  by (simp add: c_int_of_long_def signed_of_int signed_take_bit_int_eq_self)

lemma c_neg_id [simp]: "\<bar>n\<bar> \<le> 2147483647 \<Longrightarrow> c_neg n = - n"
  by (simp add: c_neg_def)

text \<open>Decrement of an \<^verbatim>\<open>unsigned int\<close>, with its wrap-around.\<close>

definition uint_dec :: "nat \<Rightarrow> nat" where
  "uint_dec n = (if n = 0 then 4294967295 else n - 1)"

lemma uint_dec_pos [simp]: "0 < n \<Longrightarrow> uint_dec n = n - 1"
  by (simp add: uint_dec_def)

text \<open>Network byte order: an address or port as its bytes, most significant first.\<close>

datatype in_addr = In_addr "8 word" "8 word" "8 word" "8 word"
datatype in_port = In_port "8 word" "8 word"

fun ntohl :: "in_addr \<Rightarrow> 32 word" where
  "ntohl (In_addr a b c d) =
     push_bit 24 (ucast a) OR push_bit 16 (ucast b) OR push_bit 8 (ucast c) OR ucast d"

fun ntohs :: "in_port \<Rightarrow> 16 word" where
  "ntohs (In_port a b) = push_bit 8 (ucast a) OR ucast b"

definition htonl :: "32 word \<Rightarrow> in_addr" where
  "htonl w = In_addr (ucast (drop_bit 24 w)) (ucast (drop_bit 16 w)) (ucast (drop_bit 8 w)) (ucast w)"

definition htons :: "16 word \<Rightarrow> in_port" where
  "htons w = In_port (ucast (drop_bit 8 w)) (ucast w)"

lemma quad_masks:
  "(0xFF000000 :: 32 word) = push_bit 24 (mask 8)" "(0x0FF0000 :: 32 word) = push_bit 16 (mask 8)"
  "(0x0FF00 :: 32 word) = push_bit 8 (mask 8)" "(0x0FF :: 32 word) = mask 8"
  by (simp_all add: mask_eq_exp_minus_1 push_bit_eq_mult)

lemma ntohl_quads [simp]:
  fixes a b c d :: "8 word"
  defines "w \<equiv> ntohl (In_addr a b c d)"
  shows "drop_bit 24 (w AND 0xFF000000) = ucast a" "drop_bit 16 (w AND 0x0FF0000) = ucast b"
    "drop_bit 8 (w AND 0x0FF00) = ucast c" "w AND 0x0FF = ucast d"
  unfolding quad_masks w_def
  by (rule bit_word_eqI, auto simp: bit_simps dest: bit_imp_le_length)+

lemma htonl_ntohl [simp]: "htonl (ntohl a) = a"
  by (cases a) (simp add: htonl_def, intro conjI; rule bit_word_eqI;
    auto simp: bit_simps dest: bit_imp_le_length)

lemma ntohl_htonl [simp]: "ntohl (htonl w) = w"
  unfolding htonl_def ntohl.simps
proof (rule bit_word_eqI)
  fix n :: nat
  assume "n < LENGTH(32)"
  then consider "n < 8" | "8 \<le> n" "n < 16" | "16 \<le> n" "n < 24" | "24 \<le> n" "n < 32" by force
  then show "bit (push_bit 24 (ucast (ucast (drop_bit 24 w) :: 8 word)) OR
      push_bit 16 (ucast (ucast (drop_bit 16 w) :: 8 word)) OR
      push_bit 8 (ucast (ucast (drop_bit 8 w) :: 8 word)) OR ucast (ucast w :: 8 word) :: 32 word) n = bit w n"
    by cases (auto simp: bit_simps)
qed

lemma htons_ntohs [simp]: "htons (ntohs p) = p"
  by (cases p) (simp add: htons_def, intro conjI; rule bit_word_eqI;
    auto simp: bit_simps dest: bit_imp_le_length)

lemma ntohs_htons [simp]: "ntohs (htons w) = w"
  unfolding htons_def ntohs.simps
  by (rule bit_word_eqI) (auto simp: bit_simps not_le not_less dest: bit_imp_le_length)

text \<open>Decimal digits, as \<^verbatim>\<open>%d\<close> prints a non-negative number.\<close>

fun show_nat :: "nat \<Rightarrow> string" where
  "show_nat n = (if n < 10 then [char_of (48 + n)] else show_nat (n div 10) @ [char_of (48 + n mod 10)])"

declare show_nat.simps [simp del]

section \<open>Lists\<close>

lemma sum_list_append_single: "sum_list (map f (xs @ [x])) = sum_list (map f xs) + (f x :: 'a :: comm_monoid_add)"
  by (simp add: add.commute)

lemma nth_remove:
  "i < length xs \<Longrightarrow> k < length xs - 1 \<Longrightarrow>
   (take i xs @ drop (Suc i) xs) ! k = (if k < i then xs ! k else xs ! Suc k)"
  by (auto simp: nth_append min_def)

lemma distinct_remove:
  assumes "distinct xs" "i < length xs"
  shows "distinct (take i xs @ drop (Suc i) xs)" "xs ! i \<notin> set (take i xs @ drop (Suc i) xs)"
    "set xs = insert (xs ! i) (set (take i xs @ drop (Suc i) xs))"
proof -
  have xs: "xs = take i xs @ xs ! i # drop (Suc i) xs" using assms(2) by (rule id_take_nth_drop)
  have "distinct (take i xs @ xs ! i # drop (Suc i) xs)" using assms(1) xs by metis
  then show "distinct (take i xs @ drop (Suc i) xs)" "xs ! i \<notin> set (take i xs @ drop (Suc i) xs)"
    by auto
  show "set xs = insert (xs ! i) (set (take i xs @ drop (Suc i) xs))"
    by (subst (1) xs) simp
qed

end
