(* ===== verification/Pd_World.thy ===== *)
theory Pd_World
  imports Iemnet_Prelude
begin

text \<open>
  The surroundings of the library: Pd's atoms and outlets, the operating system, the allocator.
  None of this is code of the repository. Calls into Pd and into the operating system are recorded
  in the order in which the code makes them; what the operating system answers is an argument of
  the model, a list of answers that is consumed call by call, and so is the outcome of every
  allocation. The theorems hold for all of them.

  Symbols are represented by their names: Pd interns symbols, so pointer comparison of symbols is
  comparison of names.
\<close>

section \<open>Atoms and outlets\<close>

text \<open>
  \<open>A_PUNNED\<close> is an atom whose value word was overwritten through the float member of the union
  while its type tag said something else.
\<close>

datatype t_atom = A_FLOAT t_float | A_SYMBOL string | A_POINTER nat | A_PUNNED

fun set_w_float :: "t_float \<Rightarrow> t_atom \<Rightarrow> t_atom" where
  "set_w_float f (A_FLOAT _) = A_FLOAT f"
| "set_w_float f _ = A_PUNNED"

fun is_float :: "t_atom \<Rightarrow> bool" where
  "is_float (A_FLOAT _) = True"
| "is_float _ = False"

lemma is_float_iff: "is_float a \<longleftrightarrow> (\<exists>f. a = A_FLOAT f)"
  by (cases a) auto

abbreviation SETFLOAT :: "int \<Rightarrow> t_atom" where
  "SETFLOAT n \<equiv> A_FLOAT (t_float_of_int n)"

datatype t_outlet = Msgout | Connectout | Sockout | Addrout | Statusout | Ob_outlet

datatype t_iemnet_loglevel =
  IEMNET_FATAL | IEMNET_ERROR | IEMNET_NORMAL | IEMNET_VERBOSE | IEMNET_DEBUG

datatype logarg = L_int int | L_str string

section \<open>Socket addresses\<close>

record sockaddr_in =
  sin_family :: int
  sin_addr :: in_addr
  sin_port :: in_port

datatype sockaddr_storage =
    SA_INET in_addr in_port
  | SA_INET6 "8 word list" in_port
  | SA_UNIX string
  | SA_OTHER int

abbreviation (input) AF_INET :: int where "AF_INET \<equiv> 2"
abbreviation (input) SOCK_STREAM :: int where "SOCK_STREAM \<equiv> 1"
abbreviation (input) SOCK_DGRAM :: int where "SOCK_DGRAM \<equiv> 2"

definition no_sockaddr_in :: sockaddr_in where
  "no_sockaddr_in = \<lparr>sin_family = 0, sin_addr = In_addr 0 0 0 0, sin_port = In_port 0 0\<rparr>"

section \<open>The world\<close>

text \<open>The argument types in the declaration of a method.\<close>

datatype t_atomtype = AT_FLOAT | AT_DEFFLOAT | AT_SYMBOL | AT_GIMME

text \<open>
  One entry per call that leaves the library, in program order. A class is declared with its name, its
  constructor and destructor and the types of the creation arguments, a method with the class, the function, the
  selector and the types of its arguments.
\<close>

datatype event =
    Outlet_anything t_outlet string "t_atom list"
  | Outlet_list t_outlet string "t_atom list"
  | Outlet_float t_outlet t_float
  | Iemnet_log t_iemnet_loglevel string "logarg list"
  | Pd_error string "logarg list"
  | Post string
  | Sys_sockerror string
  | Perror string
  | Sys_addpollfn int
  | Sys_rmpollfn int
  | Sys_closesocket int
  | Sys_lock
  | Sys_unlock
  | Syscall string "int list" int
  | Sys_send int int "8 word list" "sockaddr_in option" int
  | Postf string "logarg list"
  | Logpost int string "logarg list"
  | Startpost string "logarg list"
  | Endpost
  | Class_new string string string "t_atomtype list"
  | Class_addmethod string string string "t_atomtype list"
  | Class_addlist string string
  | Class_addbang string string

text \<open>
  What one call into the operating system gives back: the return value, \<^verbatim>\<open>errno\<close>, the peer
  address and bytes it stored (accept, recvfrom), the local address it stored (getsockname),
  the resolved host (gethostbyname; \<open>None\<close> is a NULL result), whether select reported an
  exceptional condition, and the option value getsockopt stored.
\<close>

record sysret =
  a_ret :: int
  a_errno :: int
  a_from :: sockaddr_in
  a_name :: sockaddr_storage
  a_data :: "8 word list"
  a_host :: "in_addr option"
  a_errfd :: bool
  a_val :: int

definition sys_ret :: "int \<Rightarrow> sysret" where
  "sys_ret r = \<lparr>a_ret = r, a_errno = 0, a_from = no_sockaddr_in, a_name = SA_OTHER 0,
     a_data = [], a_host = None, a_errfd = False, a_val = 0\<rparr>"

lemma sys_ret_sel [simp]: "a_ret (sys_ret r) = r" "a_host (sys_ret r) = None" "a_errno (sys_ret r) = 0"
  by (simp_all add: sys_ret_def)

text \<open>
  \<open>w_sys\<close> holds the answers to the calls to come (when it runs out, calls fail), \<open>w_malloc\<close> the
  outcomes of the allocations to come (when it runs out, they succeed). \<open>w_live\<close> counts the
  blocks obtained by malloc and calloc and not freed yet.
\<close>

record world =
  w_io :: "event list"
  w_sys :: "sysret list"
  w_malloc :: "bool list"
  w_live :: int
  w_errno :: int

definition world0 :: world where
  "world0 = \<lparr>w_io = [], w_sys = [], w_malloc = [], w_live = 0, w_errno = 0\<rparr>"

definition emit :: "event \<Rightarrow> 'w world_scheme \<Rightarrow> 'w world_scheme" where
  "emit e w = w\<lparr>w_io := w_io w @ [e]\<rparr>"

definition sys_answer :: "'w world_scheme \<Rightarrow> sysret \<times> 'w world_scheme" where
  "sys_answer w = (case w_sys w of
     [] \<Rightarrow> (sys_ret (-1), w\<lparr>w_errno := 0\<rparr>)
   | r # rs \<Rightarrow> (r, w\<lparr>w_sys := rs, w_errno := a_errno r\<rparr>))"

definition sys_call :: "string \<Rightarrow> int list \<Rightarrow> 'w world_scheme \<Rightarrow> sysret \<times> 'w world_scheme" where
  "sys_call f args w = (let (r, w) = sys_answer w in (r, emit (Syscall f args (a_ret r)) w))"

text \<open>\<^verbatim>\<open>send\<close> (no destination) and \<^verbatim>\<open>sendto\<close>.\<close>

definition sys_send ::
    "int \<Rightarrow> int \<Rightarrow> 8 word list \<Rightarrow> sockaddr_in option \<Rightarrow> 'w world_scheme \<Rightarrow> sysret \<times> 'w world_scheme" where
  "sys_send fd flags bs dest w =
     (let (r, w) = sys_answer w in (r, emit (Sys_send fd flags bs dest (a_ret r)) w))"

definition malloc :: "'w world_scheme \<Rightarrow> bool \<times> 'w world_scheme" where
  "malloc w = (case w_malloc w of
     [] \<Rightarrow> (True, w\<lparr>w_live := w_live w + 1\<rparr>)
   | b # bs \<Rightarrow> (b, w\<lparr>w_malloc := bs, w_live := (if b then w_live w + 1 else w_live w)\<rparr>))"

definition free :: "'w world_scheme \<Rightarrow> 'w world_scheme" where
  "free w = w\<lparr>w_live := w_live w - 1\<rparr>"

text \<open>No allocation to come fails.\<close>

definition mem_ok :: "'w world_scheme \<Rightarrow> bool" where
  "mem_ok w \<longleftrightarrow> list_all id (w_malloc w)"

named_theorems world_simps \<open>how the primitive calls change the world\<close>

lemma emit_sel [simp, world_simps]:
  "w_io (emit e w) = w_io w @ [e]" "w_sys (emit e w) = w_sys w"
  "w_malloc (emit e w) = w_malloc w" "w_live (emit e w) = w_live w"
  "world.more (emit e w) = world.more w"
  by (simp_all add: emit_def)

lemma free_sel [simp, world_simps]:
  "w_io (free w) = w_io w" "w_sys (free w) = w_sys w"
  "w_malloc (free w) = w_malloc w" "w_live (free w) = w_live w - 1"
  "world.more (free w) = world.more w"
  by (simp_all add: free_def)

lemma malloc_snd [simp, world_simps]:
  "w_io (snd (malloc w)) = w_io w" "w_sys (snd (malloc w)) = w_sys w"
  "world.more (snd (malloc w)) = world.more w"
  "w_live (snd (malloc w)) = w_live w + (if fst (malloc w) then 1 else 0)"
  by (simp_all add: malloc_def split: list.splits)

lemma sys_call_snd [simp, world_simps]:
  "w_io (snd (sys_call f args w)) = w_io w @ [Syscall f args (a_ret (fst (sys_call f args w)))]"
  "w_malloc (snd (sys_call f args w)) = w_malloc w" "w_live (snd (sys_call f args w)) = w_live w"
  "world.more (snd (sys_call f args w)) = world.more w"
  by (simp_all add: sys_call_def sys_answer_def split: list.splits)

lemma mem_ok_emit [simp]: "mem_ok (emit e w) = mem_ok w"
  by (simp add: mem_ok_def)

lemma mem_ok_free [simp]: "mem_ok (free w) = mem_ok w"
  by (simp add: mem_ok_def)

lemma mem_ok_sys_call [simp]: "mem_ok (snd (sys_call f args w)) = mem_ok w"
  by (simp add: mem_ok_def)

lemma mem_ok_malloc: "mem_ok w \<Longrightarrow> fst (malloc w) \<and> mem_ok (snd (malloc w))"
  by (auto simp: mem_ok_def malloc_def split: list.splits)

lemma world0_sel [simp]: "w_io world0 = []" "w_live world0 = 0" "w_sys world0 = []"
  by (simp_all add: world0_def)

lemma mem_ok_world0 [simp]: "mem_ok world0"
  by (simp add: mem_ok_def world0_def)

text \<open>
  The Pd functions whose results the code computes with. \<open>atom_getint\<close> reads a number from an
  atom; the library relies on it returning the value of an integral float.
\<close>

type_synonym getint = "t_atom \<Rightarrow> int"

definition getint_integral :: "getint \<Rightarrow> bool" where
  "getint_integral gi \<longleftrightarrow> (\<forall>n. \<bar>n\<bar> \<le> 16777216 \<longrightarrow> gi (A_FLOAT (of_int n)) = n)"

definition sample_getint :: getint where
  "sample_getint a = (case a of A_FLOAT f \<Rightarrow> trunc_float f | _ \<Rightarrow> 0)"

lemma getint_integral_sample: "getint_integral sample_getint"
  by (simp add: getint_integral_def sample_getint_def)

lemma getint_byte:
  assumes "getint_integral gi"
  shows "gi (A_FLOAT (unsigned (b :: 8 word))) = uint b"
proof -
  have "uint b < 256" using uint_lt2p [of b] by simp
  then have "\<bar>uint b\<bar> \<le> 16777216" by simp
  with assms have "gi (A_FLOAT (of_int (uint b))) = uint b"
    unfolding getint_integral_def by blast
  then show ?thesis by simp
qed

end
