(* ===== verification/Iemnet_Data.thy ===== *)
theory Iemnet_Data
  imports Pd_World
begin

text \<open>
  The data structures of \<^verbatim>\<open>iemnet_data.c\<close> other than the queue: resizable lists of float atoms
  and chunks of bytes, with every allocation and every failure path of their constructors.
\<close>

section \<open>Float lists\<close>

record t_iemnet_floatlist =
  fl_argv :: "t_atom list option"
  fl_argc :: nat
  fl_size :: nat

definition iemnet__floatlist_init :: "t_iemnet_floatlist option \<Rightarrow> t_iemnet_floatlist option res" where
  "iemnet__floatlist_init cl = (case cl of None \<Rightarrow> Inr None
     | Some cl \<Rightarrow> (case fl_argv cl of
         None \<Rightarrow> (if fl_size cl = 0 then Inr (Some cl) else Inl NullDeref)
       | Some argv \<Rightarrow> res_bind (res_fold (\<lambda>i a. arr_set a i (A_FLOAT 0)) [0..<fl_size cl] argv)
           (\<lambda>argv. Inr (Some (cl\<lparr>fl_argv := Some argv\<rparr>)))))"

definition iemnet__floatlist_destroy ::
    "t_iemnet_floatlist option \<Rightarrow> 'w world_scheme \<Rightarrow> 'w world_scheme" where
  "iemnet__floatlist_destroy cl w = (case cl of None \<Rightarrow> w
     | Some cl \<Rightarrow> free (if fl_argv cl \<noteq> None then free w else w))"

text \<open>A fresh block of atoms holds arbitrary words until it is initialised.\<close>

definition iemnet__floatlist_create ::
    "nat \<Rightarrow> 'w world_scheme \<Rightarrow> (t_iemnet_floatlist option \<times> 'w world_scheme) res" where
  "iemnet__floatlist_create sz w = (let (ok, w) = malloc w in
     if \<not> ok then Inr (None, w)
     else let (ok, w) = malloc w in
       if \<not> ok
       then Inr (None, iemnet__floatlist_destroy (Some \<lparr>fl_argv = None, fl_argc = 0, fl_size = 0\<rparr>) w)
       else res_bind (iemnet__floatlist_init
              (Some \<lparr>fl_argv = Some (replicate sz A_PUNNED), fl_argc = sz, fl_size = sz\<rparr>))
            (\<lambda>cl. Inr (cl, w)))"

definition iemnet__floatlist_resize ::
    "t_iemnet_floatlist option \<Rightarrow> nat \<Rightarrow> 'w world_scheme \<Rightarrow>
     (t_iemnet_floatlist option \<times> 'w world_scheme) res" where
  "iemnet__floatlist_resize cl sz w = (case cl of
     None \<Rightarrow> iemnet__floatlist_create sz w
   | Some cl \<Rightarrow>
       if sz \<le> fl_size cl then Inr (Some (cl\<lparr>fl_argc := sz\<rparr>), w)
       else let (ok, w) = malloc w in
         if \<not> ok then Inr (None, w)
         else let w = (if fl_argv cl = None then w else free w) in
           res_bind (iemnet__floatlist_init
               (Some (cl\<lparr>fl_argv := Some (replicate sz A_PUNNED), fl_argc := sz, fl_size := sz\<rparr>)))
             (\<lambda>cl. Inr (cl, w)))"

section \<open>Chunks\<close>

record t_iemnet_chunk =
  c_data :: "8 word list option"
  c_size :: nat
  c_addr :: "32 word"
  c_port :: "16 word"
  c_family :: int

definition iemnet__chunk_destroy ::
    "t_iemnet_chunk option \<Rightarrow> 'w world_scheme \<Rightarrow> 'w world_scheme" where
  "iemnet__chunk_destroy c w = (case c of None \<Rightarrow> w
     | Some c \<Rightarrow> free (if c_data c \<noteq> None then free w else w))"

text \<open>
  \<^verbatim>\<open>iemnet__chunk_print\<close>: the size and the bytes on one line. Without a chunk the line is not ended. The address
  that the first item shows is not represented.
\<close>

definition print_byte :: "8 word list option \<Rightarrow> nat \<Rightarrow> 'w world_scheme \<Rightarrow> 'w world_scheme res" where
  "print_byte data i w = (case data of None \<Rightarrow> Inl NullDeref
     | Some bs \<Rightarrow> res_bind (arr_get bs i) (\<lambda>b. Inr (emit (Startpost '' %d'' [L_int (uint b)]) w)))"

definition iemnet__chunk_print :: "t_iemnet_chunk option \<Rightarrow> 'w world_scheme \<Rightarrow> 'w world_scheme res" where
  "iemnet__chunk_print c w =
     (let w = emit (Startpost ''chunk[%p:%d]'' [L_int (case c of None \<Rightarrow> 0 | Some c \<Rightarrow> int (c_size c))]) w in
      case c of None \<Rightarrow> Inr w
      | Some c \<Rightarrow> res_bind (res_fold (print_byte (c_data c)) [0..<c_size c] w) (\<lambda>w. Inr (emit Endpost w)))"

definition iemnet__chunk_create_empty ::
    "int \<Rightarrow> 'w world_scheme \<Rightarrow> t_iemnet_chunk option \<times> 'w world_scheme" where
  "iemnet__chunk_create_empty sz w =
     (if sz < 1 then (None, w)
      else let (ok, w) = malloc w in
        if ok then
          let (ok, w) = malloc w in
          if \<not> ok then
            (None, iemnet__chunk_destroy
               (Some \<lparr>c_data = None, c_size = 0, c_addr = 0, c_port = 0, c_family = 0\<rparr>) w)
          else
            (Some \<lparr>c_data = Some (replicate (nat sz) 0), c_size = nat sz,
                   c_addr = 0, c_port = 0, c_family = AF_INET\<rparr>, w)
        else (None, w))"

text \<open>\<^verbatim>\<open>memcpy\<close> of \<open>n > 0\<close> bytes out of a buffer.\<close>

definition memcpy_from :: "8 word list option \<Rightarrow> nat \<Rightarrow> 8 word list res" where
  "memcpy_from src n = (case src of None \<Rightarrow> Inl NullDeref
     | Some bs \<Rightarrow> if n \<le> length bs then Inr (take n bs) else Inl (OutOfBounds (length bs)))"

definition iemnet__chunk_create_data ::
    "int \<Rightarrow> 8 word list option \<Rightarrow> 'w world_scheme \<Rightarrow> (t_iemnet_chunk option \<times> 'w world_scheme) res" where
  "iemnet__chunk_create_data sz data w =
     (let (result, w) = iemnet__chunk_create_empty sz w in
      case result of None \<Rightarrow> Inr (None, w)
      | Some r \<Rightarrow> res_bind (memcpy_from data (c_size r)) (\<lambda>bs. Inr (Some (r\<lparr>c_data := Some bs\<rparr>), w)))"

definition iemnet__chunk_create_dataaddr ::
    "int \<Rightarrow> 8 word list option \<Rightarrow> sockaddr_in option \<Rightarrow> 'w world_scheme \<Rightarrow>
     (t_iemnet_chunk option \<times> 'w world_scheme) res" where
  "iemnet__chunk_create_dataaddr sz data addr w =
     res_bind (iemnet__chunk_create_data sz data w) (\<lambda>(result, w).
       Inr (case (result, addr) of
              (Some r, Some a) \<Rightarrow> Some (r\<lparr>c_addr := ntohl (sin_addr a), c_port := ntohs (sin_port a),
                                          c_family := sin_family a\<rparr>)
            | _ \<Rightarrow> result, w))"

text \<open>The loop body of \<^verbatim>\<open>iemnet__chunk_create_list\<close>: truncate the number to a byte and store it.\<close>

definition chunk_store_atom :: "getint \<Rightarrow> t_atom list \<Rightarrow> nat \<Rightarrow> 8 word list \<Rightarrow> 8 word list res" where
  "chunk_store_atom gi argv i data = res_bind (arr_get argv i)
     (\<lambda>a. arr_set data i (word_of_int (gi a)))"

definition iemnet__chunk_create_list ::
    "getint \<Rightarrow> int \<Rightarrow> t_atom list \<Rightarrow> 'w world_scheme \<Rightarrow>
     (t_iemnet_chunk option \<times> 'w world_scheme) res" where
  "iemnet__chunk_create_list gi argc argv w =
     (let (result, w) = iemnet__chunk_create_empty argc w in
      case result of None \<Rightarrow> Inr (None, w)
      | Some r \<Rightarrow> (case c_data r of None \<Rightarrow> Inl NullDeref
         | Some data \<Rightarrow> res_bind (res_fold (chunk_store_atom gi argv) [0..<nat argc] data)
             (\<lambda>data. Inr (Some (r\<lparr>c_data := Some data\<rparr>), w))))"

text \<open>The size of the source, a \<^verbatim>\<open>size_t\<close>, is passed as an \<^verbatim>\<open>int\<close>; the family is not copied.\<close>

definition iemnet__chunk_create_chunk ::
    "t_iemnet_chunk option \<Rightarrow> 'w world_scheme \<Rightarrow> (t_iemnet_chunk option \<times> 'w world_scheme) res" where
  "iemnet__chunk_create_chunk c w = (case c of None \<Rightarrow> Inr (None, w)
     | Some c \<Rightarrow> res_bind (iemnet__chunk_create_data (sint (of_nat (c_size c) :: 32 word)) (c_data c) w)
         (\<lambda>(result, w). Inr (map_option (\<lambda>r. r\<lparr>c_addr := c_addr c, c_port := c_port c\<rparr>) result, w)))"

definition list_store_byte ::
    "8 word list \<Rightarrow> nat \<Rightarrow> t_atom list \<Rightarrow> t_atom list res" where
  "list_store_byte data i argv = res_bind (arr_get data i) (\<lambda>b. res_bind (arr_get argv i)
     (\<lambda>a. arr_set argv i (set_w_float (t_float_of_int (uint b)) a)))"

definition iemnet__chunk2list ::
    "t_iemnet_chunk option \<Rightarrow> t_iemnet_floatlist option \<Rightarrow> 'w world_scheme \<Rightarrow>
     (t_iemnet_floatlist option \<times> 'w world_scheme) res" where
  "iemnet__chunk2list c dest w = (case c of None \<Rightarrow> Inr (None, w)
     | Some c \<Rightarrow> res_bind (iemnet__floatlist_resize dest (c_size c mod 2 ^ 32) w) (\<lambda>(dest, w).
         case dest of None \<Rightarrow> Inr (None, w)
         | Some d \<Rightarrow> (case (c_data c, fl_argv d) of
             (Some data, Some argv) \<Rightarrow>
               res_bind (res_fold (list_store_byte data) [0..<c_size c] argv)
                 (\<lambda>argv. Inr (Some (d\<lparr>fl_argv := Some argv\<rparr>), w))
           | _ \<Rightarrow> if c_size c = 0 then Inr (Some d, w) else Inl NullDeref)))"

section \<open>Well-formedness\<close>

text \<open>What every chunk handed out by the constructors satisfies.\<close>

definition wf_chunk :: "t_iemnet_chunk \<Rightarrow> bool" where
  "wf_chunk c \<longleftrightarrow> (case c_data c of None \<Rightarrow> False | Some bs \<Rightarrow> length bs = c_size c)
     \<and> 0 < c_size c \<and> c_size c < 2147483648"

definition chunk_bytes :: "t_iemnet_chunk \<Rightarrow> 8 word list" where
  "chunk_bytes c = (case c_data c of None \<Rightarrow> [] | Some bs \<Rightarrow> bs)"

definition wf_floatlist :: "t_iemnet_floatlist \<Rightarrow> bool" where
  "wf_floatlist cl \<longleftrightarrow> (case fl_argv cl of None \<Rightarrow> False
     | Some argv \<Rightarrow> length argv = fl_size cl \<and> list_all is_float argv) \<and> fl_argc cl \<le> fl_size cl"

text \<open>The atoms a client of the list sees: the first \<open>argc\<close>.\<close>

definition floatlist_atoms :: "t_iemnet_floatlist \<Rightarrow> t_atom list" where
  "floatlist_atoms cl = (case fl_argv cl of None \<Rightarrow> [] | Some argv \<Rightarrow> take (fl_argc cl) argv)"

text \<open>
  A purely internal step: only the allocator's state changes, by \<open>d\<close> live blocks on balance.
\<close>

definition mem_step :: "'w world_scheme \<Rightarrow> int \<Rightarrow> 'w world_scheme \<Rightarrow> bool" where
  "mem_step w d w' \<longleftrightarrow> w_io w' = w_io w \<and> w_sys w' = w_sys w \<and> world.more w' = world.more w
     \<and> w_live w' = w_live w + d \<and> (mem_ok w \<longrightarrow> mem_ok w')"

lemma mem_step_refl [simp]: "mem_step w 0 w"
  by (simp add: mem_step_def)

lemma mem_step_trans: "mem_step w d w' \<Longrightarrow> mem_step w' e w'' \<Longrightarrow> d + e = f \<Longrightarrow> mem_step w f w''"
  by (auto simp: mem_step_def)

lemma mem_step_malloc: "mem_step w (if fst (malloc w) then 1 else 0) (snd (malloc w))"
  using mem_ok_malloc [of w] by (auto simp: mem_step_def)

lemma mem_step_free: "mem_step w (- 1) (free w)"
  by (simp add: mem_step_def)

section \<open>Chunk constructors\<close>

lemma chunk_create_empty_result:
  assumes "iemnet__chunk_create_empty n w = (r, w')"
  shows "mem_step w (if r = None then 0 else 2) w' \<and>
    (r = None \<or> r = Some \<lparr>c_data = Some (replicate (nat n) 0), c_size = nat n,
                          c_addr = 0, c_port = 0, c_family = AF_INET\<rparr> \<and> 1 \<le> n) \<and>
    (mem_ok w \<longrightarrow> (r = None) = (n < 1))"
proof -
  obtain o1 w1 where m1: "malloc w = (o1, w1)" by fastforce
  obtain o2 w2 where m2: "malloc w1 = (o2, w2)" by fastforce
  note s1 = mem_step_malloc [of w, unfolded m1] and s2 = mem_step_malloc [of w1, unfolded m2]
  note k1 = mem_ok_malloc [of w, unfolded m1] and k2 = mem_ok_malloc [of w1, unfolded m2]
  show ?thesis
    using assms s1 s2 k1 k2
    by (auto simp: iemnet__chunk_create_empty_def iemnet__chunk_destroy_def m1 m2 mem_step_def
        split: if_splits)
qed

text \<open>No chunk without a size, and none when one of its two blocks cannot be allocated.\<close>

lemma chunk_create_empty_none:
  assumes "n < 1 \<or> \<not> list_all id (take 2 (w_malloc w))"
  shows "fst (iemnet__chunk_create_empty n w) = None"
proof -
  obtain o1 w1 where m1: "malloc w = (o1, w1)" by fastforce
  obtain o2 w2 where m2: "malloc w1 = (o2, w2)" by fastforce
  have "\<not> o1 \<or> \<not> o2" if "\<not> n < 1"
    using assms that m1 m2 by (auto simp: malloc_def numeral_2_eq_2 split: list.splits)
  then show ?thesis by (auto simp: iemnet__chunk_create_empty_def m1 m2)
qed

lemma chunk_create_data_result:
  assumes "iemnet__chunk_create_data n data w = Inr (r, w')"
  shows "mem_step w (if r = None then 0 else 2) w' \<and>
    (r = None \<or> (\<exists>bs. data = Some bs \<and> nat n \<le> length bs \<and> 1 \<le> n \<and>
       r = Some \<lparr>c_data = Some (take (nat n) bs), c_size = nat n,
                 c_addr = 0, c_port = 0, c_family = AF_INET\<rparr>)) \<and>
    (mem_ok w \<longrightarrow> (r = None) = (n < 1))"
proof -
  obtain r0 w0 where e: "iemnet__chunk_create_empty n w = (r0, w0)" by fastforce
  show ?thesis
    using assms chunk_create_empty_result [OF e]
    by (cases r0; cases data)
      (auto simp: iemnet__chunk_create_data_def e memcpy_from_def res_simps split: if_splits)
qed

text \<open>
  The constructor never reads or writes out of bounds when the buffer has the announced length.
\<close>

lemma chunk_create_data_safe:
  assumes "n < 1 \<or> (\<exists>bs. data = Some bs \<and> nat n \<le> length bs)"
  shows "\<exists>r w'. iemnet__chunk_create_data n data w = Inr (r, w')"
proof -
  obtain r0 w0 where e: "iemnet__chunk_create_empty n w = (r0, w0)" by fastforce
  show ?thesis
    using assms chunk_create_empty_result [OF e]
    by (auto simp: iemnet__chunk_create_data_def e memcpy_from_def)
qed

lemma res_fold_chunk_store:
  "n \<le> length argv \<Longrightarrow> n \<le> length data \<Longrightarrow>
   res_fold (chunk_store_atom gi argv) [0..<n] data =
     Inr (map (\<lambda>a. word_of_int (gi a)) (take n argv) @ drop n data)"
proof (induction n)
  case 0
  then show ?case by simp
next
  case (Suc n)
  then have "drop n data = data ! n # drop (Suc n) data"
    by (simp add: Cons_nth_drop_Suc)
  with Suc show ?case
    by (simp add: res_fold_append chunk_store_atom_def list_update_append take_Suc_conv_app_nth)
qed

lemma chunk_create_list_eq:
  assumes "iemnet__chunk_create_empty (int (length argv)) w = (r, w')"
  shows "iemnet__chunk_create_list gi (int (length argv)) argv w =
    Inr (map_option (\<lambda>c. c\<lparr>c_data := Some (map (\<lambda>a. word_of_int (gi a)) argv)\<rparr>) r, w')"
  using chunk_create_empty_result [OF assms]
  by (auto simp: iemnet__chunk_create_list_def assms res_fold_chunk_store)

text \<open>
  The chunk that a list of atoms is turned into: one byte per atom, reduced modulo 256; no chunk
  for the empty list.
\<close>

definition list_chunk :: "getint \<Rightarrow> t_atom list \<Rightarrow> t_iemnet_chunk" where
  "list_chunk gi argv = \<lparr>c_data = Some (map (\<lambda>a. word_of_int (gi a)) argv), c_size = length argv,
     c_addr = 0, c_port = 0, c_family = AF_INET\<rparr>"

lemma chunk_create_list_result:
  "\<exists>r w'. iemnet__chunk_create_list gi (int (length argv)) argv w = Inr (r, w') \<and>
     mem_step w (if r = None then 0 else 2) w' \<and>
     (r = None \<or> argv \<noteq> [] \<and> r = Some (list_chunk gi argv)) \<and>
     (mem_ok w \<longrightarrow> (r = None) = (argv = []))"
proof -
  obtain r0 w0 where e: "iemnet__chunk_create_empty (int (length argv)) w = (r0, w0)" by fastforce
  show ?thesis
    using chunk_create_empty_result [OF e]
    by (auto simp: chunk_create_list_eq [OF e] list_chunk_def less_eq_Suc_le)
qed

lemma wf_chunk_family [simp]: "wf_chunk (c\<lparr>c_family := f\<rparr>) = wf_chunk c"
  by (simp add: wf_chunk_def split: option.splits)

lemma wf_list_chunk: "argv \<noteq> [] \<Longrightarrow> length argv < 2147483648 \<Longrightarrow> wf_chunk (list_chunk gi argv)"
  by (simp add: wf_chunk_def list_chunk_def)

lemma sint_of_nat_32 [simp]: "n < 2147483648 \<Longrightarrow> sint (of_nat n :: 32 word) = int n"
  by (simp add: signed_of_nat signed_take_bit_int_eq_self)

text \<open>Copying a well-formed chunk: same bytes, address and port; the family is reset.\<close>

lemma chunk_create_chunk_result:
  assumes "wf_chunk c"
  shows "\<exists>r w'. iemnet__chunk_create_chunk (Some c) w = Inr (r, w') \<and>
    mem_step w (if r = None then 0 else 2) w' \<and>
    (r = None \<or> r = Some (c\<lparr>c_family := AF_INET\<rparr>)) \<and> (mem_ok w \<longrightarrow> r \<noteq> None)"
proof -
  from assms obtain bs where c: "c_data c = Some bs" "length bs = c_size c"
    and sz: "0 < c_size c" "c_size c < 2147483648"
    by (auto simp: wf_chunk_def split: option.splits)
  from c sz obtain r w' where e: "iemnet__chunk_create_data (int (c_size c)) (c_data c) w = Inr (r, w')"
    using chunk_create_data_safe [of "int (c_size c)" "c_data c" w] by auto
  then have "iemnet__chunk_create_chunk (Some c) w =
      Inr (map_option (\<lambda>r. r\<lparr>c_addr := c_addr c, c_port := c_port c\<rparr>) r, w')"
    using sz by (simp add: iemnet__chunk_create_chunk_def)
  moreover from chunk_create_data_result [OF e] c sz
  have "map_option (\<lambda>r. r\<lparr>c_addr := c_addr c, c_port := c_port c\<rparr>) r \<in> {None, Some (c\<lparr>c_family := AF_INET\<rparr>)}"
    by (cases c) auto
  moreover from chunk_create_data_result [OF e] sz
  have "mem_step w (if r = None then 0 else 2) w'" "mem_ok w \<longrightarrow> r \<noteq> None"
    by auto
  ultimately show ?thesis by (cases r) auto
qed

lemma chunk_destroy_mem_step:
  "wf_chunk c \<Longrightarrow> mem_step w (- 2) (iemnet__chunk_destroy (Some c) w)"
  by (auto simp: iemnet__chunk_destroy_def wf_chunk_def mem_step_def split: option.splits)

lemma chunk_destroy_None [simp]: "iemnet__chunk_destroy None w = w"
  by (simp add: iemnet__chunk_destroy_def)

text \<open>Printing shows every byte of a well-formed chunk, in order, and nothing else happens.\<close>

lemma chunk_print_bytes:
  assumes "wf_chunk c"
  shows "iemnet__chunk_print (Some c) w = Inr (w\<lparr>w_io := w_io w @ Startpost ''chunk[%p:%d]'' [L_int (int (c_size c))] #
    map (\<lambda>b. Startpost '' %d'' [L_int (uint b)]) (chunk_bytes c) @ [Endpost]\<rparr>)"
proof -
  from assms obtain bs where bs: "c_data c = Some bs" "length bs = c_size c"
    by (auto simp: wf_chunk_def split: option.splits)
  have "res_fold (print_byte (Some bs)) [0..<n] v =
      Inr (v\<lparr>w_io := w_io v @ map (\<lambda>b. Startpost '' %d'' [L_int (uint b)]) (take n bs)\<rparr>)"
    if "n \<le> length bs" for n and v :: "'a world_scheme"
    using that by (induction n) (simp_all add: res_fold_append print_byte_def emit_def take_Suc_conv_app_nth)
  from this [of "length bs"] bs show ?thesis
    by (simp add: iemnet__chunk_print_def chunk_bytes_def emit_def)
qed

section \<open>Float lists hold floats only\<close>

lemma floatlist_init_fresh:
  assumes "fl_argv cl = Some av" and "length av = fl_size cl"
  shows "iemnet__floatlist_init (Some cl) =
    Inr (Some (cl\<lparr>fl_argv := Some (replicate (fl_size cl) (A_FLOAT 0))\<rparr>))"
  using assms res_fold_arr_set [of "fl_size cl" av "\<lambda>_. A_FLOAT 0"]
  by (simp add: iemnet__floatlist_init_def map_replicate_const)

lemma floatlist_create_result:
  "\<exists>r w'. iemnet__floatlist_create n w = Inr (r, w') \<and> mem_step w (if r = None then 0 else 2) w' \<and>
     (\<forall>cl. r = Some cl \<longrightarrow> wf_floatlist cl \<and> fl_argc cl = n \<and> n \<le> fl_size cl) \<and>
     (mem_ok w \<longrightarrow> r \<noteq> None)"
proof -
  obtain o1 w1 where m1: "malloc w = (o1, w1)" by fastforce
  obtain o2 w2 where m2: "malloc w1 = (o2, w2)" by fastforce
  note s1 = mem_step_malloc [of w, unfolded m1] and s2 = mem_step_malloc [of w1, unfolded m2]
  note k1 = mem_ok_malloc [of w, unfolded m1] and k2 = mem_ok_malloc [of w1, unfolded m2]
  show ?thesis
    using s1 s2 k1 k2
    by (auto simp: iemnet__floatlist_create_def iemnet__floatlist_destroy_def floatlist_init_fresh
        m1 m2 mem_step_def wf_floatlist_def list_all_length)
qed

lemma floatlist_resize_result:
  assumes "\<And>cl. dest = Some cl \<Longrightarrow> wf_floatlist cl"
  shows "\<exists>r w'. iemnet__floatlist_resize dest n w = Inr (r, w') \<and>
     mem_step w (if dest = None \<and> r \<noteq> None then 2 else 0) w' \<and>
     (\<forall>cl. r = Some cl \<longrightarrow> wf_floatlist cl \<and> fl_argc cl = n \<and> n \<le> fl_size cl) \<and>
     (mem_ok w \<longrightarrow> r \<noteq> None)"
proof (cases dest)
  case None
  obtain r w' where c: "iemnet__floatlist_create n w = Inr (r, w')"
      "mem_step w (if r = None then 0 else 2) w'" "mem_ok w \<longrightarrow> r \<noteq> None"
      "\<forall>cl. r = Some cl \<longrightarrow> wf_floatlist cl \<and> fl_argc cl = n \<and> n \<le> fl_size cl"
    using floatlist_create_result [of n w] by blast
  have "iemnet__floatlist_resize dest n w = Inr (r, w')"
    by (simp add: iemnet__floatlist_resize_def None c)
  then show ?thesis using c None by (cases r) auto
next
  case (Some cl)
  obtain o1 w1 where m1: "malloc w = (o1, w1)" by fastforce
  note s1 = mem_step_malloc [of w, unfolded m1] and k1 = mem_ok_malloc [of w, unfolded m1]
  from Some assms have wf: "wf_floatlist cl" by simp
  define cl' where "cl' = cl\<lparr>fl_argv := Some (replicate n (A_FLOAT 0)), fl_argc := n, fl_size := n\<rparr>"
  have wf': "wf_floatlist cl'" by (simp add: cl'_def wf_floatlist_def list_all_length)
  have "iemnet__floatlist_resize dest n w =
    Inr (if n \<le> fl_size cl then (Some (cl\<lparr>fl_argc := n\<rparr>), w)
         else if o1 then (Some cl', free w1) else (None, w1))"
    using wf by (auto simp: Some iemnet__floatlist_resize_def m1 floatlist_init_fresh cl'_def wf_floatlist_def)
  moreover have "wf_floatlist (cl\<lparr>fl_argc := n\<rparr>)" if "n \<le> fl_size cl"
    using wf that by (simp add: wf_floatlist_def split: option.splits)
  moreover have "fl_argc cl' = n" "fl_size cl' = n" by (simp_all add: cl'_def)
  moreover have "mem_step w 0 (free w1)" if o1
    using s1 that by (auto intro: mem_step_trans [OF _ mem_step_free])
  ultimately show ?thesis using Some wf' s1 k1 by (cases o1) auto
qed

lemma res_fold_list_store:
  "n \<le> length data \<Longrightarrow> n \<le> length argv \<Longrightarrow> list_all is_float argv \<Longrightarrow>
   res_fold (list_store_byte data) [0..<n] argv =
     Inr (map (\<lambda>b. A_FLOAT (unsigned b)) (take n data) @ drop n argv)"
proof (induction n)
  case 0
  then show ?case by simp
next
  case (Suc n)
  from Suc.prems have "is_float (argv ! n)" by (simp add: list_all_length)
  then obtain f where f: "argv ! n = A_FLOAT f" by (auto simp: is_float_iff)
  from Suc.prems have "drop n argv = argv ! n # drop (Suc n) argv"
    by (simp add: Cons_nth_drop_Suc)
  with Suc f show ?case
    by (simp add: res_fold_append list_store_byte_def list_update_append take_Suc_conv_app_nth nth_append)
qed

lemma chunk2list_result:
  assumes c: "wf_chunk c" and d: "\<And>cl. dest = Some cl \<Longrightarrow> wf_floatlist cl"
  shows "\<exists>r w'. iemnet__chunk2list (Some c) dest w = Inr (r, w') \<and>
    mem_step w (if dest = None \<and> r \<noteq> None then 2 else 0) w' \<and>
    (\<forall>cl. r = Some cl \<longrightarrow> wf_floatlist cl \<and>
       floatlist_atoms cl = map (\<lambda>b. A_FLOAT (unsigned b)) (chunk_bytes c)) \<and>
    (mem_ok w \<longrightarrow> r \<noteq> None)"
proof -
  from c obtain bs where bs: "c_data c = Some bs" "length bs = c_size c" and sz: "c_size c < 2147483648"
    by (auto simp: wf_chunk_def split: option.splits)
  obtain r w' where
    r: "iemnet__floatlist_resize dest (c_size c) w = Inr (r, w')"
      "mem_step w (if dest = None \<and> r \<noteq> None then 2 else 0) w'"
      "\<And>cl. r = Some cl \<Longrightarrow> wf_floatlist cl \<and> fl_argc cl = c_size c \<and> c_size c \<le> fl_size cl"
      "mem_ok w \<Longrightarrow> r \<noteq> None"
    using floatlist_resize_result [of dest "c_size c" w] d by blast
  show ?thesis
  proof (cases r)
    case None
    with r sz show ?thesis by (auto simp: iemnet__chunk2list_def)
  next
    case (Some cl)
    with r(3) obtain av where av: "fl_argv cl = Some av" "length av = fl_size cl" "list_all is_float av"
      and argc: "fl_argc cl = c_size c" "c_size c \<le> fl_size cl"
      by (auto simp: wf_floatlist_def split: option.splits)
    from av bs argc
    have "res_fold (list_store_byte bs) [0..<c_size c] av =
        Inr (map (\<lambda>b. A_FLOAT (unsigned b)) bs @ drop (c_size c) av)"
      by (subst res_fold_list_store) auto
    moreover have "list_all is_float (drop (c_size c) av)"
      using av(3) by (auto simp: list_all_iff dest: in_set_dropD)
    ultimately show ?thesis
      using r sz bs av argc Some
      by (auto simp: iemnet__chunk2list_def wf_floatlist_def floatlist_atoms_def chunk_bytes_def
          list_all_iff)
  qed
qed

section \<open>Properties\<close>

text \<open>Bytes as Pd sees them.\<close>

definition byte_atoms :: "8 word list \<Rightarrow> t_atom list" where
  "byte_atoms bs = map (\<lambda>b. A_FLOAT (unsigned b)) bs"

lemma byte_atoms_getint:
  "getint_integral gi \<Longrightarrow> map (\<lambda>a. word_of_int (gi a)) (byte_atoms bs) = bs"
  by (simp add: byte_atoms_def comp_def getint_byte)

text \<open>
  C13. Bytes survive the way into a chunk and back: a non-empty list of byte-valued atoms becomes a
  chunk holding these bytes, and unpacking the chunk into any float list (a new one, or one in use)
  shows the same atoms again.
\<close>

theorem chunk_list_roundtrip:
  assumes "getint_integral gi" "bs \<noteq> []" "length bs < 2147483648" "mem_ok w"
    and "\<forall>cl. dest = Some cl \<longrightarrow> wf_floatlist cl"
  shows "\<exists>c w1 l w2. iemnet__chunk_create_list gi (int (length bs)) (byte_atoms bs) w = Inr (Some c, w1) \<and>
    chunk_bytes c = bs \<and> iemnet__chunk2list (Some c) dest w1 = Inr (Some l, w2) \<and>
    wf_floatlist l \<and> floatlist_atoms l = byte_atoms bs"
proof -
  let ?as = "byte_atoms bs"
  have as: "?as \<noteq> []" "length ?as = length bs" using assms(2) by (simp_all add: byte_atoms_def)
  obtain w1 where c: "iemnet__chunk_create_list gi (int (length bs)) ?as w = Inr (Some (list_chunk gi ?as), w1)"
    "mem_ok w1"
    using chunk_create_list_result [of gi ?as w] assms(4) as by (auto simp: mem_step_def)
  have "chunk_bytes (list_chunk gi ?as) = bs"
    by (simp add: chunk_bytes_def list_chunk_def byte_atoms_getint [OF assms(1)])
  moreover have "wf_chunk (list_chunk gi ?as)" using as assms(3) by (simp add: wf_list_chunk)
  ultimately show ?thesis
    using c chunk2list_result [of "list_chunk gi ?as" dest w1] assms(5) by (auto simp: byte_atoms_def)
qed

theorem chunk_list_roundtrip_witness:
  "\<exists>c w1 l w2. iemnet__chunk_create_list sample_getint 3 (byte_atoms [0, 127, 255]) world0 = Inr (Some c, w1) \<and>
    chunk_bytes c = [0, 127, 255] \<and> iemnet__chunk2list (Some c) None w1 = Inr (Some l, w2) \<and>
    wf_floatlist l \<and> floatlist_atoms l = byte_atoms [0, 127, 255]"
  using chunk_list_roundtrip [of sample_getint "[0, 127, 255]" world0 None] getint_integral_sample by simp

text \<open>
  Packing a list, whatever the atoms are and whichever allocations fail: the function returns; it
  gives no chunk exactly when the list is empty or memory is short, and otherwise a chunk whose
  byte \<open>i\<close> is the number of atom \<open>i\<close> modulo 256. No block is leaked.
\<close>

lemma chunk_create_list_total:
  "\<exists>r w'. iemnet__chunk_create_list gi (int (length argv)) argv w = Inr (r, w') \<and>
     w_live w' = w_live w + (case r of None \<Rightarrow> 0 | Some _ \<Rightarrow> 2) \<and> w_io w' = w_io w \<and>
     (case r of None \<Rightarrow> argv = [] \<or> \<not> mem_ok w
      | Some c \<Rightarrow> argv \<noteq> [] \<and> c_size c = length argv \<and> chunk_bytes c = map (\<lambda>a. word_of_int (gi a)) argv
          \<and> c_addr c = 0 \<and> c_port c = 0)"
proof -
  obtain r w' where "iemnet__chunk_create_list gi (int (length argv)) argv w = Inr (r, w')"
    "mem_step w (if r = None then 0 else 2) w'" "r = None \<or> argv \<noteq> [] \<and> r = Some (list_chunk gi argv)"
    "mem_ok w \<longrightarrow> (r = None) = (argv = [])"
    using chunk_create_list_result [of gi argv w] by blast
  then show ?thesis by (cases r) (auto simp: mem_step_def list_chunk_def chunk_bytes_def)
qed

text \<open>
  Copying a chunk: whichever allocations fail, nothing is read or written out of bounds and no
  block is leaked; the copy has the bytes, address and port of the original, and destroying it gives
  back all the memory it took.
\<close>

lemma chunk_copy_destroy:
  assumes "wf_chunk c"
  shows "\<exists>r w'. iemnet__chunk_create_chunk (Some c) w = Inr (r, w') \<and>
    w_live (iemnet__chunk_destroy r w') = w_live w \<and> (mem_ok w \<longrightarrow> r \<noteq> None) \<and>
    (\<forall>d. r = Some d \<longrightarrow> wf_chunk d \<and> chunk_bytes d = chunk_bytes c \<and> c_addr d = c_addr c \<and> c_port d = c_port c)"
proof -
  have wf: "wf_chunk (c\<lparr>c_family := AF_INET\<rparr>)" using assms by simp
  obtain r w' where r: "iemnet__chunk_create_chunk (Some c) w = Inr (r, w')"
    "mem_step w (if r = None then 0 else 2) w'" "r = None \<or> r = Some (c\<lparr>c_family := AF_INET\<rparr>)" "mem_ok w \<longrightarrow> r \<noteq> None"
    using chunk_create_chunk_result [OF assms, of w] by blast
  moreover have "w_live (iemnet__chunk_destroy r w') = w_live w"
    using r(2,3) chunk_destroy_mem_step [OF wf, of w'] by (auto simp: mem_step_def iemnet__chunk_destroy_def)
  ultimately show ?thesis using wf by (auto simp: chunk_bytes_def)
qed

end
