(* ===== verification/Iemnet_Queue.thy ===== *)
theory Iemnet_Queue
  imports Iemnet_Data
begin

text \<open>
  The thread-safe FIFO of \<^verbatim>\<open>iemnet_data.c\<close>: a singly linked list of nodes on the heap with head
  and tail pointers. Each operation is split into the critical sections that the code guards with
  the queue's mutexes, so that the same definitions serve the sequential view of this theory and
  the interleavings of \<open>Sender_Threads\<close>. The contract of the queue is the locale \<open>fifo\<close>, which the
  pointer structure implements.
\<close>

section \<open>The structure\<close>

record t_node =
  n_next :: ptr
  n_data :: "t_iemnet_chunk option"

text \<open>
  \<open>q_nodes\<close> is the part of the heap that holds the queue's nodes. The byte count is a C \<^verbatim>\<open>int\<close>:
  \<^verbatim>\<open>size += data->size\<close> is computed in \<^verbatim>\<open>size_t\<close> and reduced to 32 bits.
\<close>

record t_iemnet_queue =
  q_head :: ptr
  q_tail :: ptr
  q_nodes :: "t_node heap"
  q_done :: bool
  q_size :: "32 word"
  q_used :: int

definition queue_use_increment :: "t_iemnet_queue \<Rightarrow> t_iemnet_queue" where
  "queue_use_increment q = q\<lparr>q_used := q_used q + 1\<rparr>"

definition queue_use_decrement :: "t_iemnet_queue \<Rightarrow> t_iemnet_queue" where
  "queue_use_decrement q = q\<lparr>q_used := q_used q - 1\<rparr>"

text \<open>The node is allocated and filled before the lock is taken.\<close>

definition queue_new_node :: "t_iemnet_chunk \<Rightarrow> t_iemnet_queue \<Rightarrow> nat \<times> t_iemnet_queue" where
  "queue_new_node data q = (let n = heap_fresh (q_nodes q) in
     (n, q\<lparr>q_nodes := heap_put (q_nodes q) n \<lparr>n_next = None, n_data = Some data\<rparr>\<rparr>))"

text \<open>Critical section of \<^verbatim>\<open>queue_push\<close>: append the node, account for its bytes.\<close>

definition queue_link :: "nat \<Rightarrow> t_iemnet_chunk \<Rightarrow> t_iemnet_queue \<Rightarrow> t_iemnet_queue res" where
  "queue_link n data q =
     res_bind (case q_tail q of
         None \<Rightarrow> Inr (q\<lparr>q_head := Some n\<rparr>)
       | Some t \<Rightarrow> res_bind (heap_get (q_nodes q) (Some t))
           (\<lambda>nd. Inr (q\<lparr>q_nodes := heap_put (q_nodes q) t (nd\<lparr>n_next := Some n\<rparr>)\<rparr>)))
       (\<lambda>q. Inr (q\<lparr>q_tail := Some n, q_size := q_size q + of_nat (c_size data)\<rparr>))"

definition queue_append :: "t_iemnet_chunk \<Rightarrow> t_iemnet_queue \<Rightarrow> t_iemnet_queue res" where
  "queue_append data q = (let (n, q) = queue_new_node data q in queue_link n data q)"

definition queue_push ::
    "t_iemnet_queue option \<Rightarrow> t_iemnet_chunk option \<Rightarrow> 'w world_scheme \<Rightarrow>
     (int \<times> t_iemnet_queue option \<times> 'w world_scheme) res" where
  "queue_push this data w = (case this of None \<Rightarrow> Inr (-1, None, w)
     | Some q \<Rightarrow> (case data of None \<Rightarrow> Inr (sint (q_size q), Some q, w)
         | Some d \<Rightarrow> (let (ok, w) = malloc w in
             if \<not> ok then Inl NullDeref
             else res_bind (queue_append d q) (\<lambda>q. Inr (sint (q_size q), Some q, w)))))"

text \<open>
  Critical section of the pops: unlink the head node, then read its data and free it.
\<close>

definition queue_unlink :: "t_iemnet_queue \<Rightarrow> (t_iemnet_chunk option \<times> t_iemnet_queue) res" where
  "queue_unlink q = res_bind (heap_get (q_nodes q) (q_head q)) (\<lambda>hd.
     let a = the (q_head q);
         q = q\<lparr>q_head := n_next hd\<rparr>;
         q = (if n_next hd = None then q\<lparr>q_tail := None\<rparr> else q);
         q = (case n_data hd of None \<Rightarrow> q | Some d \<Rightarrow> q\<lparr>q_size := q_size q - of_nat (c_size d)\<rparr>)
     in Inr (n_data hd, q\<lparr>q_nodes := heap_free (q_nodes q) a\<rparr>))"

text \<open>
  \<^verbatim>\<open>queue_pop_block\<close> on entering its loop, and after being woken: \<open>Waiting\<close> means that the caller
  blocks on the condition variable.
\<close>

datatype pop_state = Waiting | Popped "t_iemnet_chunk option"

definition queue_pop_block_enter :: "t_iemnet_queue \<Rightarrow> (pop_state \<times> t_iemnet_queue) res" where
  "queue_pop_block_enter q =
     (if q_head q = None then Inr (Waiting, q)
      else res_bind (queue_unlink q) (\<lambda>(c, q). Inr (Popped c, q)))"

definition queue_pop_block_woken :: "t_iemnet_queue \<Rightarrow> (pop_state \<times> t_iemnet_queue) res" where
  "queue_pop_block_woken q =
     (if q_done q then Inr (Popped None, q) else queue_pop_block_enter q)"

definition pop_noblock ::
    "t_iemnet_queue \<Rightarrow> 'w world_scheme \<Rightarrow> (t_iemnet_chunk option \<times> t_iemnet_queue \<times> 'w world_scheme) res" where
  "pop_noblock q w = (let q = queue_use_increment q in
     if q_head q = None then Inr (None, queue_use_decrement q, w)
     else res_bind (queue_unlink q) (\<lambda>(c, q). Inr (c, queue_use_decrement q, free w)))"

definition queue_pop_noblock ::
    "t_iemnet_queue option \<Rightarrow> 'w world_scheme \<Rightarrow>
     (t_iemnet_chunk option \<times> t_iemnet_queue option \<times> 'w world_scheme) res" where
  "queue_pop_noblock this w = (case this of None \<Rightarrow> Inr (None, None, w)
     | Some q \<Rightarrow> res_bind (pop_noblock q w) (\<lambda>(c, q, w). Inr (c, Some q, w)))"

definition queue_getsize :: "t_iemnet_queue option \<Rightarrow> int" where
  "queue_getsize this = (case this of None \<Rightarrow> -1 | Some q \<Rightarrow> sint (q_size q))"

text \<open>
  \<^verbatim>\<open>queue_finish\<close> marks the queue as done, wakes a waiting pop, and then waits for the use counter
  to drop to zero. In the sequential view nobody else can change the counter, so that the wait
  never ends if it is not zero.
\<close>

definition queue_finish_signal :: "t_iemnet_queue \<Rightarrow> t_iemnet_queue" where
  "queue_finish_signal q = q\<lparr>q_done := True\<rparr>"

definition queue_finish :: "t_iemnet_queue option \<Rightarrow> t_iemnet_queue option res" where
  "queue_finish this = (case this of None \<Rightarrow> Inr None
     | Some q \<Rightarrow> (let q = queue_finish_signal q in if q_used q \<noteq> 0 then Inl Blocked else Inr (Some q)))"

lemma queue_unlink_shrinks:
  assumes "queue_unlink q = Inr (c, q')"
  shows "length (q_nodes q') < length (q_nodes q)"
proof -
  from assms obtain a hd where a: "q_head q = Some a" "map_of (q_nodes q) a = Some hd"
    by (cases "q_head q") (auto simp: queue_unlink_def res_simps heap_get_def split: option.splits)
  with assms have "q_nodes q' = heap_free (q_nodes q) a"
    by (auto simp: queue_unlink_def Let_def split: if_splits option.splits)
  with a show ?thesis by (simp add: length_heap_free_less)
qed

lemma pop_noblock_shrinks:
  "pop_noblock q w = Inr (Some c, q', w') \<Longrightarrow> length (q_nodes q') < length (q_nodes q)"
  by (auto simp: pop_noblock_def res_simps queue_use_increment_def queue_use_decrement_def Let_def
      split: if_splits dest!: queue_unlink_shrinks)

text \<open>The loop of \<^verbatim>\<open>queue_destroy\<close>: pop and free chunks until a pop returns NULL.\<close>

function queue_drain ::
    "t_iemnet_queue \<Rightarrow> 'w world_scheme \<Rightarrow> (t_iemnet_queue \<times> 'w world_scheme) res" where
  "queue_drain q w = res_bind (pop_noblock q w) (\<lambda>(c, q', w').
     case c of None \<Rightarrow> Inr (q', w')
     | Some c \<Rightarrow> queue_drain q' (iemnet__chunk_destroy (Some c) w'))"
  by pat_completeness auto
termination
  by (relation "measure (\<lambda>(q, w). length (q_nodes q))") (auto dest: pop_noblock_shrinks)

declare queue_drain.simps [simp del]

definition queue_destroy :: "t_iemnet_queue option \<Rightarrow> 'w world_scheme \<Rightarrow> 'w world_scheme res" where
  "queue_destroy this w = (case this of None \<Rightarrow> Inr w
     | Some q \<Rightarrow> res_bind (queue_finish (Some q)) (\<lambda>q.
         case q of None \<Rightarrow> Inl NullDeref
         | Some q \<Rightarrow> res_bind (queue_drain q w) (\<lambda>(q, w). Inr (free w))))"

definition queue_empty :: t_iemnet_queue where
  "queue_empty = \<lparr>q_head = None, q_tail = None, q_nodes = [], q_done = False, q_size = 0, q_used = 0\<rparr>"

definition queue_create :: "'w world_scheme \<Rightarrow> t_iemnet_queue option \<times> 'w world_scheme" where
  "queue_create w = (let (ok, w) = malloc w in
     if \<not> ok then (None, w) else (Some queue_empty, w))"

section \<open>Contents and invariant\<close>

fun linked :: "(nat \<rightharpoonup> t_node) \<Rightarrow> ptr \<Rightarrow> nat list \<Rightarrow> bool" where
  "linked h p [] = (p = None)"
| "linked h p (a # as) = (p = Some a \<and> (case h a of None \<Rightarrow> False | Some n \<Rightarrow> linked h (n_next n) as))"

text \<open>Follow the links, at most \<open>k\<close> of them.\<close>

fun follow :: "nat \<Rightarrow> (nat \<rightharpoonup> t_node) \<Rightarrow> ptr \<Rightarrow> nat list" where
  "follow 0 h p = []"
| "follow (Suc k) h p = (case p of None \<Rightarrow> []
     | Some a \<Rightarrow> a # (case h a of None \<Rightarrow> [] | Some n \<Rightarrow> follow k h (n_next n)))"

definition node_chunk :: "(nat \<rightharpoonup> t_node) \<Rightarrow> nat \<Rightarrow> t_iemnet_chunk option" where
  "node_chunk h a = (case h a of None \<Rightarrow> None | Some n \<Rightarrow> n_data n)"

definition queue_addrs :: "t_iemnet_queue \<Rightarrow> nat list" where
  "queue_addrs q = follow (length (q_nodes q)) (map_of (q_nodes q)) (q_head q)"

definition queue_content :: "t_iemnet_queue \<Rightarrow> t_iemnet_chunk list" where
  "queue_content q = map (\<lambda>a. the (node_chunk (map_of (q_nodes q)) a)) (queue_addrs q)"

definition chunks_size :: "t_iemnet_chunk list \<Rightarrow> nat" where
  "chunks_size cs = sum_list (map c_size cs)"

text \<open>The nodes \<open>as\<close>, in this order, are the queue; there are no others, and none lacks a chunk.\<close>

definition queue_ok :: "t_iemnet_queue \<Rightarrow> nat list \<Rightarrow> bool" where
  "queue_ok q as \<longleftrightarrow> linked (map_of (q_nodes q)) (q_head q) as \<and> distinct as
     \<and> q_tail q = (if as = [] then None else Some (last as))
     \<and> heap_dom (q_nodes q) = set as
     \<and> (\<forall>a\<in>set as. node_chunk (map_of (q_nodes q)) a \<noteq> None)
     \<and> q_size q = of_nat (chunks_size (map (\<lambda>a. the (node_chunk (map_of (q_nodes q)) a)) as))"

definition queue_inv :: "t_iemnet_queue \<Rightarrow> bool" where
  "queue_inv q \<longleftrightarrow> queue_ok q (queue_addrs q)"

lemma chunks_size_simps [simp]:
  "chunks_size [] = 0" "chunks_size (c # cs) = c_size c + chunks_size cs"
  "chunks_size (cs @ ds) = chunks_size cs + chunks_size ds"
  by (simp_all add: chunks_size_def)

lemma follow_linked: "linked h p as \<Longrightarrow> length as \<le> k \<Longrightarrow> follow k h p = as"
proof (induction as arbitrary: k p)
  case Nil
  then show ?case by (cases k) auto
next
  case (Cons a as)
  then show ?case by (cases k) (auto split: option.splits)
qed

lemma queue_ok_addrs: "queue_ok q as \<Longrightarrow> queue_addrs q = as"
proof -
  assume ok: "queue_ok q as"
  then have "set as \<subseteq> fst ` set (q_nodes q)" "distinct as"
    by (auto simp: queue_ok_def heap_dom_def)
  then have "length as \<le> length (q_nodes q)"
    by (metis List.finite_set card_image_le card_length card_mono distinct_card finite_imageI le_trans)
  with ok show ?thesis by (simp add: queue_addrs_def queue_ok_def follow_linked)
qed

lemma queue_invI: "queue_ok q as \<Longrightarrow> queue_inv q"
  by (simp add: queue_inv_def queue_ok_addrs)

lemma queue_invE:
  assumes "queue_inv q"
  obtains as where "queue_ok q as" and "queue_addrs q = as"
  using assms by (simp add: queue_inv_def)

lemma queue_size_inv: "queue_inv q \<Longrightarrow> q_size q = of_nat (chunks_size (queue_content q))"
  by (simp add: queue_inv_def queue_ok_def queue_content_def)

lemma linked_upd_fresh: "b \<notin> set as \<Longrightarrow> linked (h(b := v)) p as = linked h p as"
  by (induction as arbitrary: p) (auto split: option.splits)

lemma linked_snoc:
  assumes "linked h p as" "as \<noteq> []" "distinct as" "b \<notin> set as" "h b = Some nb" "n_next nb = None"
    and "h (last as) = Some n"
  shows "linked (h(last as \<mapsto> n\<lparr>n_next := Some b\<rparr>)) p (as @ [b])"
  using assms
proof (induction as arbitrary: p)
  case Nil
  then show ?case by simp
next
  case (Cons a as)
  then show ?case by (cases "as = []") (auto simp: linked_upd_fresh split: option.splits)
qed

lemma linked_in_dom: "linked h p as \<Longrightarrow> a \<in> set as \<Longrightarrow> \<exists>n. h a = Some n"
  by (induction as arbitrary: p) (auto split: option.splits)

lemma queue_empty_ok: "queue_ok queue_empty []"
  by (simp add: queue_ok_def queue_empty_def)

lemma queue_empty_inv [simp]: "queue_inv queue_empty" "queue_content queue_empty = []"
  using queue_empty_ok by (auto intro: queue_invI simp: queue_content_def queue_ok_addrs)


lemma queue_append_empty:
  assumes ok: "queue_ok q []"
  shows "\<exists>q'. queue_append c q = Inr q' \<and> queue_ok q' [heap_fresh (q_nodes q)] \<and>
    queue_content q' = queue_content q @ [c] \<and> q_done q' = q_done q \<and> q_used q' = q_used q"
proof -
  define b where "b = heap_fresh (q_nodes q)"
  define q' where "q' = q\<lparr>q_nodes := heap_put (q_nodes q) b \<lparr>n_next = None, n_data = Some c\<rparr>,
    q_head := Some b, q_tail := Some b, q_size := q_size q + of_nat (c_size c)\<rparr>"
  from ok have "queue_append c q = Inr q'"
    by (simp add: queue_append_def queue_new_node_def queue_link_def queue_ok_def q'_def b_def Let_def)
  moreover from ok have "queue_ok q' [b]"
    by (simp add: queue_ok_def q'_def node_chunk_def)
  moreover from this have "queue_content q' = [c]"
    by (simp add: queue_content_def queue_ok_addrs) (simp add: node_chunk_def q'_def)
  moreover from ok have "queue_content q = []" by (simp add: queue_content_def queue_ok_addrs)
  ultimately show ?thesis by (simp add: q'_def b_def)
qed

lemma queue_append_ok:
  assumes ok: "queue_ok q as"
  shows "\<exists>q'. queue_append c q = Inr q' \<and> queue_ok q' (as @ [heap_fresh (q_nodes q)]) \<and>
    queue_content q' = queue_content q @ [c] \<and> q_done q' = q_done q \<and> q_used q' = q_used q"
proof (cases "as = []")
  case True
  then show ?thesis using queue_append_empty ok by simp
next
  case False
  define b h where "b = heap_fresh (q_nodes q)" and "h = map_of (q_nodes q)"
  from ok have b: "b \<notin> set as"
    unfolding b_def queue_ok_def using heap_fresh_notin [of "q_nodes q"] by simp
  have old: "a \<in> set as \<Longrightarrow> a \<noteq> b" for a using b by blast
  from ok False have t: "q_tail q = Some (last as)" "last as \<in> set as" "linked h (q_head q) as"
    by (simp_all add: queue_ok_def h_def)
  then obtain n where n: "h (last as) = Some n" using linked_in_dom by blast
  define q' where "q' = q\<lparr>q_nodes := heap_put (heap_put (q_nodes q) b \<lparr>n_next = None, n_data = Some c\<rparr>)
      (last as) (n\<lparr>n_next := Some b\<rparr>),
    q_tail := Some b, q_size := q_size q + of_nat (c_size c)\<rparr>"
  let ?h = "h(b \<mapsto> \<lparr>n_next = None, n_data = Some c\<rparr>)"
  have h': "map_of (q_nodes q') = ?h(last as \<mapsto> n\<lparr>n_next := Some b\<rparr>)"
    by (simp add: q'_def h_def)
  have nl: "?h (last as) = Some n" using n t old by simp
  have "queue_append c q = Inr q'"
    using t nl by (simp add: queue_append_def queue_new_node_def queue_link_def q'_def b_def h_def Let_def)
  moreover have lk: "linked (map_of (q_nodes q')) (q_head q') (as @ [b])"
    unfolding h' using ok False b nl
    by (simp add: q'_def queue_ok_def linked_upd_fresh h_def
        linked_snoc [where nb = "\<lparr>n_next = None, n_data = Some c\<rparr>"])
  moreover have nc: "node_chunk (map_of (q_nodes q')) a = node_chunk h a" if "a \<in> set as" for a
    unfolding h' node_chunk_def using old [OF that] n by simp
  moreover have ncb: "node_chunk (map_of (q_nodes q')) b = Some c"
    unfolding h' node_chunk_def using old [OF t(2)] by simp
  moreover have "queue_ok q' (as @ [b])"
    using ok False b lk nc ncb t(2)
    by (auto simp: queue_ok_def q'_def h_def [symmetric] cong: map_cong)
  moreover from this ok have "queue_content q' = queue_content q @ [c]"
    using nc ncb by (simp add: queue_content_def queue_ok_addrs h_def cong: map_cong)
  ultimately show ?thesis by (simp add: q'_def b_def)
qed

lemma queue_unlink_ok:
  assumes ok: "queue_ok q (a # as)"
  shows "\<exists>q'. queue_unlink q = Inr (Some (hd (queue_content q)), q') \<and> queue_ok q' as \<and>
    queue_content q' = tl (queue_content q) \<and> q_done q' = q_done q \<and> q_used q' = q_used q"
proof -
  define h where "h = map_of (q_nodes q)"
  from ok obtain n c where hd: "q_head q = Some a" and n: "h a = Some n" "n_data n = Some c"
    and lk: "linked h (n_next n) as"
    by (auto simp: queue_ok_def h_def node_chunk_def split: option.splits)
  from ok have d: "a \<notin> set as" "distinct as" by (auto simp: queue_ok_def)
  have nx: "n_next n = None \<longleftrightarrow> as = []" using lk by (cases as) auto
  define q' where "q' = q\<lparr>q_head := n_next n, q_tail := (if as = [] then None else q_tail q),
    q_size := q_size q - of_nat (c_size c), q_nodes := heap_free (q_nodes q) a\<rparr>"
  have un: "queue_unlink q = Inr (Some c, q')"
    using hd n nx by (simp add: queue_unlink_def q'_def h_def Let_def)
  have nc: "node_chunk (map_of (q_nodes q')) x = node_chunk h x" if "x \<in> set as" for x
    using that d by (auto simp: node_chunk_def q'_def h_def)
  have ok': "queue_ok q' as"
    using ok lk d n nc
    by (auto simp: queue_ok_def q'_def h_def [symmetric] linked_upd_fresh node_chunk_def cong: map_cong)
  have "queue_content q = c # queue_content q'"
    using ok ok' nc n by (simp add: queue_content_def queue_ok_addrs h_def node_chunk_def cong: map_cong)
  with un ok' show ?thesis by (simp add: q'_def)
qed

lemma queue_inv_append:
  assumes "queue_inv q"
  obtains q' where "queue_append c q = Inr q'" "queue_inv q'" "queue_content q' = queue_content q @ [c]"
    "q_done q' = q_done q" "q_used q' = q_used q"
  using assms queue_append_ok by (metis queue_invE queue_invI)

lemma queue_inv_head: "queue_inv q \<Longrightarrow> q_head q = None \<longleftrightarrow> queue_content q = []"
  by (cases "queue_addrs q") (auto simp: queue_inv_def queue_ok_def queue_content_def)

lemma queue_inv_unlink:
  assumes "queue_inv q" "queue_content q = c # cs"
  obtains q' where "queue_unlink q = Inr (Some c, q')" "queue_inv q'" "queue_content q' = cs"
    "q_done q' = q_done q" "q_used q' = q_used q"
proof -
  from assms obtain a as where "queue_ok q (a # as)"
    by (cases "queue_addrs q") (auto simp: queue_inv_def queue_content_def)
  from queue_unlink_ok [OF this] assms that show thesis by (auto intro: queue_invI)
qed

lemma queue_inv_upd [simp]:
  "queue_inv (q\<lparr>q_used := u\<rparr>) = queue_inv q" "queue_inv (q\<lparr>q_done := d\<rparr>) = queue_inv q"
  "queue_content (q\<lparr>q_used := u\<rparr>) = queue_content q" "queue_content (q\<lparr>q_done := d\<rparr>) = queue_content q"
  by (simp_all add: queue_inv_def queue_ok_def queue_content_def queue_addrs_def)

section \<open>The contract of a FIFO\<close>

datatype 'a fop = Enq 'a | Deq

text \<open>The specification: a list, its head popped first; the outputs are the popped elements.\<close>

fun list_run :: "'a fop list \<Rightarrow> 'a list \<Rightarrow> 'a option list \<times> 'a list" where
  "list_run [] xs = ([], xs)"
| "list_run (Enq x # ops) xs = list_run ops (xs @ [x])"
| "list_run (Deq # ops) [] = (let (out, ys) = list_run ops [] in (None # out, ys))"
| "list_run (Deq # ops) (x # xs) = (let (out, ys) = list_run ops xs in (Some x # out, ys))"

fun fifo_run :: "('a \<Rightarrow> 'q \<Rightarrow> 'e + 'q) \<Rightarrow> ('q \<Rightarrow> 'e + ('a option \<times> 'q)) \<Rightarrow> 'a fop list \<Rightarrow> 'q \<Rightarrow>
    'e + ('a option list \<times> 'q)" where
  "fifo_run enq deq [] q = Inr ([], q)"
| "fifo_run enq deq (Enq x # ops) q = res_bind (enq x q) (fifo_run enq deq ops)"
| "fifo_run enq deq (Deq # ops) q = res_bind (deq q) (\<lambda>(r, q).
     res_bind (fifo_run enq deq ops q) (\<lambda>(out, q). Inr (r # out, q)))"

fun enqueued :: "'a fop list \<Rightarrow> 'a list" where
  "enqueued [] = []"
| "enqueued (Enq x # ops) = x # enqueued ops"
| "enqueued (Deq # ops) = enqueued ops"

lemma list_run_order:
  "list_run ops xs = (out, ys) \<Longrightarrow> xs @ enqueued ops = List.map_filter id out @ ys"
  by (induction ops xs arbitrary: out ys rule: list_run.induct)
    (auto simp: Let_def map_filter_simps split: prod.splits)

locale fifo =
  fixes invar :: "'q \<Rightarrow> bool"
    and content :: "'q \<Rightarrow> 'a list"
    and enq :: "'a \<Rightarrow> 'q \<Rightarrow> 'e + 'q"
    and deq :: "'q \<Rightarrow> 'e + ('a option \<times> 'q)"
  assumes enq_appends: "invar q \<Longrightarrow> \<exists>q'. enq x q = Inr q' \<and> invar q' \<and> content q' = content q @ [x]"
    and deq_empty: "invar q \<Longrightarrow> content q = [] \<Longrightarrow> \<exists>q'. deq q = Inr (None, q') \<and> invar q' \<and> content q' = []"
    and deq_head: "invar q \<Longrightarrow> content q = x # xs \<Longrightarrow>
      \<exists>q'. deq q = Inr (Some x, q') \<and> invar q' \<and> content q' = xs"
begin

lemma run_refines:
  "invar q \<Longrightarrow> \<exists>q'. fifo_run enq deq ops q = Inr (fst (list_run ops (content q)), q')
     \<and> invar q' \<and> content q' = snd (list_run ops (content q))"
proof (induction ops arbitrary: q)
  case Nil
  then show ?case by simp
next
  case (Cons op ops)
  show ?case
  proof (cases op)
    case (Enq x)
    from enq_appends [OF Cons.prems] obtain q1 where
      "enq x q = Inr q1" "invar q1" "content q1 = content q @ [x]" by blast
    with Cons.IH [of q1] Enq show ?thesis by auto
  next
    case Deq
    show ?thesis
    proof (cases "content q")
      case Nil
      from deq_empty [OF Cons.prems Nil] obtain q1 where
        "deq q = Inr (None, q1)" "invar q1" "content q1 = []" by blast
      with Cons.IH [of q1] Deq Nil show ?thesis by (auto simp: Let_def split: prod.splits)
    next
      case (Cons x xs)
      from deq_head [OF Cons.prems Cons] obtain q1 where
        "deq q = Inr (Some x, q1)" "invar q1" "content q1 = xs" by blast
      with Cons.IH [of q1] Deq Cons show ?thesis by (auto simp: Let_def split: prod.splits)
    qed
  qed
qed

lemma run_order:
  assumes "invar q"
  shows "\<exists>out q'. fifo_run enq deq ops q = Inr (out, q') \<and>
    content q @ enqueued ops = List.map_filter id out @ content q'"
proof -
  obtain out ys where "list_run ops (content q) = (out, ys)" by fastforce
  with run_refines [OF assms, of ops] list_run_order [OF this] show ?thesis by auto
qed

end

section \<open>The pointer structure implements the contract\<close>

text \<open>The interface that clients call, with the allocator's state carried along.\<close>

definition push_op :: "t_iemnet_chunk \<Rightarrow> t_iemnet_queue \<times> 'w world_scheme \<Rightarrow> (t_iemnet_queue \<times> 'w world_scheme) res" where
  "push_op c s = res_bind (queue_push (Some (fst s)) (Some c) (snd s))
     (\<lambda>(n, q, w). case q of None \<Rightarrow> Inl NullDeref | Some q \<Rightarrow> Inr (q, w))"

definition pop_op :: "t_iemnet_queue \<times> 'w world_scheme \<Rightarrow> (t_iemnet_chunk option \<times> t_iemnet_queue \<times> 'w world_scheme) res" where
  "pop_op s = pop_noblock (fst s) (snd s)"

lemma queue_push_ok:
  assumes "queue_inv q" "mem_ok w"
  obtains q' w' where "queue_push (Some q) (Some c) w = Inr (sint (q_size q'), Some q', w')"
    "queue_inv q'" "queue_content q' = queue_content q @ [c]" "mem_step w 1 w'"
    "q_done q' = q_done q" "q_used q' = q_used q"
proof -
  obtain ok w' where m: "malloc w = (ok, w')" by fastforce
  from mem_ok_malloc [OF assms(2)] mem_step_malloc [of w] m have "ok" "mem_step w 1 w'" by auto
  moreover obtain q' where "queue_append c q = Inr q'" "queue_inv q'"
    "queue_content q' = queue_content q @ [c]" "q_done q' = q_done q" "q_used q' = q_used q"
    using queue_inv_append [OF assms(1)] by blast
  ultimately show thesis using that by (simp add: queue_push_def m)
qed

lemma pop_noblock_ok:
  assumes "queue_inv q"
  shows "queue_content q = [] \<Longrightarrow> pop_noblock q w = Inr (None, q, w)"
    and "queue_content q = c # cs \<Longrightarrow> \<exists>q'. pop_noblock q w = Inr (Some c, q', free w) \<and>
      queue_inv q' \<and> queue_content q' = cs \<and> q_used q' = q_used q \<and> q_done q' = q_done q"
proof -
  show "queue_content q = [] \<Longrightarrow> pop_noblock q w = Inr (None, q, w)"
    using queue_inv_head [OF assms]
    by (simp add: pop_noblock_def queue_use_increment_def queue_use_decrement_def Let_def)
next
  assume c: "queue_content q = c # cs"
  let ?q = "queue_use_increment q"
  have "queue_inv ?q" "queue_content ?q = c # cs"
    using assms c by (simp_all add: queue_use_increment_def)
  then obtain q' where "queue_unlink ?q = Inr (Some c, q')" "queue_inv q'" "queue_content q' = cs"
    "q_done q' = q_done ?q" "q_used q' = q_used ?q"
    by (rule queue_inv_unlink)
  moreover have "q_head q \<noteq> None" using queue_inv_head [OF assms] c by simp
  ultimately show "\<exists>q'. pop_noblock q w = Inr (Some c, q', free w) \<and>
      queue_inv q' \<and> queue_content q' = cs \<and> q_used q' = q_used q \<and> q_done q' = q_done q"
    by (simp add: pop_noblock_def queue_use_increment_def queue_use_decrement_def Let_def)
qed

interpretation iq: fifo "\<lambda>s. queue_inv (fst s) \<and> mem_ok (snd s)" "\<lambda>s. queue_content (fst s)" push_op pop_op
proof (unfold_locales, goal_cases)
  case (1 q x)
  then obtain q' w' where "queue_push (Some (fst q)) (Some x) (snd q) = Inr (sint (q_size q'), Some q', w')"
    "queue_inv q'" "queue_content q' = queue_content (fst q) @ [x]" "mem_step (snd q) 1 w'"
    using queue_push_ok by blast
  with 1 show ?case by (simp add: push_op_def mem_step_def)
next
  case (2 q)
  then show ?case using pop_noblock_ok(1) [of "fst q" "snd q"] by (simp add: pop_op_def)
next
  case (3 q x xs)
  then show ?case using pop_noblock_ok(2) [of "fst q" x xs "snd q"] by (auto simp: pop_op_def)
qed

lemma queue_drain_ok:
  "queue_inv q \<Longrightarrow> list_all wf_chunk (queue_content q) \<Longrightarrow>
   \<exists>q' w'. queue_drain q w = Inr (q', w') \<and> queue_content q' = [] \<and>
     mem_step w (- 3 * int (length (queue_content q))) w'"
proof (induction "queue_content q" arbitrary: q w)
  case Nil
  then show ?case using pop_noblock_ok(1) [of q w] by (simp add: queue_drain.simps [of q])
next
  case (Cons c cs)
  from pop_noblock_ok(2) [OF Cons.prems(1) Cons.hyps(2) [symmetric], of w] obtain q' where
    p: "pop_noblock q w = Inr (Some c, q', free w)" "queue_inv q'" "queue_content q' = cs" by blast
  from Cons.prems(2) have wf: "wf_chunk c" "list_all wf_chunk cs"
    by (simp_all flip: Cons.hyps(2))
  let ?w = "iemnet__chunk_destroy (Some c) (free w)"
  have w: "mem_step w (- 3) ?w"
    by (rule mem_step_trans [OF mem_step_free chunk_destroy_mem_step [OF wf(1)]]) simp
  from Cons.hyps(1) [of q' ?w] p wf obtain q'' w'' where
    "queue_drain q' ?w = Inr (q'', w'')" "queue_content q'' = []"
    "mem_step ?w (- 3 * int (length cs)) w''" by auto
  with p mem_step_trans [OF w] Cons.hyps(2) [symmetric] show ?case
    by (auto simp: queue_drain.simps [of q])
qed

lemma queue_destroy_ok:
  assumes "queue_inv q" "list_all wf_chunk (queue_content q)" "q_used q = 0"
  obtains w' where "queue_destroy (Some q) w = Inr w'"
    "mem_step w (- 3 * int (length (queue_content q)) - 1) w'"
proof -
  let ?q = "queue_finish_signal q"
  have "queue_inv ?q" "queue_content ?q = queue_content q"
    using assms(1) by (simp_all add: queue_finish_signal_def)
  then obtain q' w' where "queue_drain ?q w = Inr (q', w')"
    "mem_step w (- 3 * int (length (queue_content q))) w'"
    using queue_drain_ok [of ?q w] assms(2) by auto
  with assms(3) that mem_step_trans [OF _ mem_step_free] show thesis
    by (auto simp: queue_destroy_def queue_finish_def queue_finish_signal_def Let_def)
qed

text \<open>Whatever the queue holds, destroying it touches nothing but the allocator.\<close>

lemma chunk_destroy_frame [simp]:
  "world.more (iemnet__chunk_destroy c w) = world.more w" "w_io (iemnet__chunk_destroy c w) = w_io w"
  "w_sys (iemnet__chunk_destroy c w) = w_sys w" "mem_ok (iemnet__chunk_destroy c w) = mem_ok w"
  by (simp_all add: iemnet__chunk_destroy_def split: option.splits)

lemma pop_noblock_frame:
  "pop_noblock q w = Inr (c, q', w') \<Longrightarrow> world.more w' = world.more w \<and> w_io w' = w_io w \<and> w_sys w' = w_sys w
     \<and> mem_ok w' = mem_ok w"
  by (auto simp: pop_noblock_def Let_def res_simps split: if_splits)

lemma queue_drain_frame:
  "queue_drain q w = Inr (q', w') \<Longrightarrow> world.more w' = world.more w \<and> w_io w' = w_io w \<and> w_sys w' = w_sys w
     \<and> mem_ok w' = mem_ok w"
proof (induction q w arbitrary: q' w' rule: queue_drain.induct)
  case (1 q w)
  from "1.prems" obtain c q1 w1 where p: "pop_noblock q w = Inr (c, q1, w1)"
    by (subst (asm) queue_drain.simps) (auto simp: res_simps)
  note f = pop_noblock_frame [OF p]
  show ?case
  proof (cases c)
    case None
    with "1.prems" p f show ?thesis by (subst (asm) queue_drain.simps) auto
  next
    case (Some d)
    from "1.prems" p Some have "queue_drain q1 (iemnet__chunk_destroy (Some d) w1) = Inr (q', w')"
      by (subst (asm) queue_drain.simps) simp
    from "1.IH" [OF p refl refl Some this] f show ?thesis by simp
  qed
qed

lemma queue_destroy_frame:
  "queue_destroy q w = Inr w' \<Longrightarrow> world.more w' = world.more w \<and> w_io w' = w_io w \<and> w_sys w' = w_sys w
     \<and> mem_ok w' = mem_ok w"
  by (auto simp: queue_destroy_def res_simps split: option.splits dest!: queue_drain_frame)

section \<open>Properties\<close>

text \<open>
  C3. The linked list of nodes is a FIFO queue: any sequence of pushes and non-blocking pops runs
  without a memory error and returns exactly what the same sequence returns on a plain list.
\<close>

theorem queue_refines_list:
  assumes "queue_inv q" "mem_ok w"
  shows "\<exists>q' w'. fifo_run push_op pop_op ops (q, w) = Inr (fst (list_run ops (queue_content q)), (q', w'))
     \<and> queue_inv q' \<and> queue_content q' = snd (list_run ops (queue_content q))"
  using iq.run_refines [of "(q, w)" ops] assms by auto

definition sample_chunk :: "8 word \<Rightarrow> t_iemnet_chunk" where
  "sample_chunk b = \<lparr>c_data = Some [b], c_size = 1, c_addr = 0, c_port = 0, c_family = AF_INET\<rparr>"

theorem queue_refines_list_witness:
  "\<exists>q' w'. fifo_run push_op pop_op [Enq (sample_chunk 1), Enq (sample_chunk 2), Deq, Deq, Deq] (queue_empty, world0)
     = Inr ([Some (sample_chunk 1), Some (sample_chunk 2), None], (q', w')) \<and> queue_inv q' \<and> queue_content q' = []"
  using queue_refines_list [of queue_empty world0 "[Enq (sample_chunk 1), Enq (sample_chunk 2), Deq, Deq, Deq]"]
  by simp

text \<open>
  Nothing is lost, duplicated or reordered: what was in the queue followed by what was pushed is
  what came out followed by what is still in it.
\<close>

lemma queue_keeps_order:
  assumes "queue_inv q" "mem_ok w"
  shows "\<exists>out q' w'. fifo_run push_op pop_op ops (q, w) = Inr (out, (q', w')) \<and>
    queue_content q @ enqueued ops = List.map_filter id out @ queue_content q'"
  using iq.run_order [of "(q, w)" ops] assms by auto

text \<open>
  C31. A push returns the fill state of the queue in bytes, including the new chunk. The counter has 32
  bits: it is the exact sum as long as less than two gigabytes are waiting, and negative from there on.
\<close>

theorem queue_push_returns_size:
  assumes "queue_inv q" "mem_ok w"
  shows "\<exists>n q' w'. queue_push (Some q) (Some c) w = Inr (n, Some q', w') \<and>
    queue_content q' = queue_content q @ [c] \<and> queue_getsize (Some q') = n \<and>
    n = sint (of_nat (chunks_size (queue_content q) + c_size c) :: 32 word) \<and>
    (chunks_size (queue_content q) + c_size c < 2147483648 \<longrightarrow>
      n = int (chunks_size (queue_content q) + c_size c))"
proof -
  obtain q' w' where p: "queue_push (Some q) (Some c) w = Inr (sint (q_size q'), Some q', w')"
    "queue_inv q'" "queue_content q' = queue_content q @ [c]"
    using queue_push_ok [OF assms] by blast
  define n where "n = chunks_size (queue_content q) + c_size c"
  have "q_size q' = of_nat n" using queue_size_inv [OF p(2)] by (simp add: p(3) n_def)
  with p show ?thesis unfolding n_def [symmetric] by (auto simp: queue_getsize_def)
qed

theorem queue_push_returns_size_witness:
  "\<exists>n q' w'. queue_push (Some queue_empty) (Some (sample_chunk 1)) world0 = Inr (n, Some q', w') \<and> n = 1"
  using queue_push_returns_size [of queue_empty world0 "sample_chunk 1"] by (auto simp: sample_chunk_def)

text \<open>
  C32. Destroying a queue that nobody uses any more returns, and frees every chunk in it, every node and
  the queue itself.
\<close>

theorem queue_destroy_frees_all:
  assumes "queue_inv q" "list_all wf_chunk (queue_content q)" "q_used q = 0"
  shows "\<exists>w'. queue_destroy (Some q) w = Inr w' \<and> w_io w' = w_io w \<and>
    w_live w' = w_live w - (1 + 3 * int (length (queue_content q)))"
  by (rule queue_destroy_ok [OF assms, of w]) (auto simp: mem_step_def)

theorem queue_destroy_frees_all_witness:
  "\<exists>w'. queue_destroy (Some queue_empty) (world0\<lparr>w_live := 1\<rparr>) = Inr w' \<and> w_live w' = 0"
  using queue_destroy_frees_all [of queue_empty "world0\<lparr>w_live := 1\<rparr>"]
  by (auto simp: queue_empty_def [THEN arg_cong, of q_used])

end
