(* ===== verification/Iemnet_Core.thy ===== *)
theory Iemnet_Core
  imports Iemnet_Data
begin

text \<open>
  The helpers of \<^verbatim>\<open>iemnet.c\<close>: closing sockets, turning socket addresses into atoms, the uniform
  output functions, and the registry of object names.
\<close>

unbundle bit_operations_syntax

section \<open>Sockets and addresses\<close>

definition iemnet__closesocket :: "int \<Rightarrow> bool \<Rightarrow> 'w world_scheme \<Rightarrow> 'w world_scheme" where
  "iemnet__closesocket sockfd verbose w =
     (if sockfd \<ge> 0 then
        let (err, w) = sys_call ''shutdown'' [sockfd, 2] w;
            w = (if verbose \<and> a_ret err \<noteq> 0 then emit (Perror ''iemnet:socket-shutdown'') w else w)
        in emit (Sys_closesocket sockfd) w
      else w)"

text \<open>The four quads of an IPv4 address, as the code masks and shifts them out.\<close>

definition addr_quads :: "32 word \<Rightarrow> 32 word list" where
  "addr_quads a = [drop_bit 24 (a AND 0xFF000000), drop_bit 16 (a AND 0x0FF0000),
     drop_bit 8 (a AND 0x0FF00), a AND 0x0FF]"

text \<open>
  The atoms that \<^verbatim>\<open>iemnet__sockaddr2list\<close> writes; their number is its return value. For a Unix
  socket the code casts the address of its pointer argument instead of the pointer: the path is
  whatever string those stack bytes hold, \<open>junk\<close>.
\<close>

definition iemnet__sockaddr2list :: "string \<Rightarrow> sockaddr_storage \<Rightarrow> t_atom list" where
  "iemnet__sockaddr2list junk address = (case address of
     SA_INET a p \<Rightarrow> A_SYMBOL ''IPv4'' # map (\<lambda>q. SETFLOAT (uint q)) (addr_quads (ntohl a))
        @ [SETFLOAT (uint (ntohs p))]
   | SA_INET6 ipaddr p \<Rightarrow> A_SYMBOL ''IPv6'' # map (\<lambda>i. SETFLOAT (uint (ipaddr ! i))) [0..<16]
        @ [SETFLOAT (uint (ntohs p))]
   | SA_UNIX path \<Rightarrow> [A_SYMBOL ''unix'', A_SYMBOL junk]
   | SA_OTHER f \<Rightarrow> [])"

fun ss_family :: "sockaddr_storage \<Rightarrow> int" where
  "ss_family (SA_INET _ _) = 2"
| "ss_family (SA_INET6 _ _) = 10"
| "ss_family (SA_UNIX _) = 1"
| "ss_family (SA_OTHER f) = f"

definition iemnet__socket2addressout ::
    "string \<Rightarrow> int \<Rightarrow> t_outlet \<Rightarrow> string \<Rightarrow> 'w world_scheme \<Rightarrow> 'w world_scheme" where
  "iemnet__socket2addressout junk sockfd status_outlet s w =
     (let (r, w) = sys_call ''getsockname'' [sockfd] w in
      if a_ret r \<noteq> 0 then emit (Pd_error ''unable to get address from socket:%d'' [L_int sockfd]) w
      else let alist = iemnet__sockaddr2list junk (a_name r) in
        if length alist \<noteq> 0 then emit (Outlet_anything status_outlet s alist) w
        else emit (Pd_error ''unknown address-family:0x%02X on socket:%d''
               [L_int (ss_family (a_name r)), L_int sockfd]) w)"

section \<open>Output\<close>

definition out_anything ::
    "t_outlet option \<Rightarrow> string \<Rightarrow> t_atom list \<Rightarrow> 'w world_scheme \<Rightarrow> 'w world_scheme" where
  "out_anything outlet s argv w = (case outlet of None \<Rightarrow> w | Some ol \<Rightarrow> emit (Outlet_anything ol s argv) w)"

definition iemnet__addrout ::
    "t_outlet option \<Rightarrow> t_outlet option \<Rightarrow> 32 word \<Rightarrow> 16 word \<Rightarrow> 'w world_scheme \<Rightarrow> 'w world_scheme" where
  "iemnet__addrout status_outlet address_outlet address port w =
     (let addr = map (\<lambda>q. SETFLOAT (uint q)) (addr_quads address) @ [SETFLOAT (uint port)];
          w = out_anything status_outlet ''address'' addr w
      in case address_outlet of None \<Rightarrow> w | Some ol \<Rightarrow> emit (Outlet_list ol ''list'' addr) w)"

definition iemnet__numconnout ::
    "t_outlet option \<Rightarrow> t_outlet option \<Rightarrow> int \<Rightarrow> 'w world_scheme \<Rightarrow> 'w world_scheme" where
  "iemnet__numconnout status_outlet numcon_outlet numconnections w =
     (let w = out_anything status_outlet ''connections'' [SETFLOAT numconnections] w
      in case numcon_outlet of None \<Rightarrow> w | Some ol \<Rightarrow> emit (Outlet_float ol (t_float_of_int numconnections)) w)"

definition iemnet__socketout ::
    "t_outlet option \<Rightarrow> t_outlet option \<Rightarrow> int \<Rightarrow> 'w world_scheme \<Rightarrow> 'w world_scheme" where
  "iemnet__socketout status_outlet socket_outlet socketfd w =
     (let w = out_anything status_outlet ''socket'' [SETFLOAT socketfd] w
      in case socket_outlet of None \<Rightarrow> w | Some ol \<Rightarrow> emit (Outlet_float ol (t_float_of_int socketfd)) w)"

text \<open>The loop \<^verbatim>\<open>while(argc-->0)\<close>: one list message per atom.\<close>

fun stream_loop :: "t_outlet \<Rightarrow> nat \<Rightarrow> t_atom list \<Rightarrow> 'w world_scheme \<Rightarrow> 'w world_scheme res" where
  "stream_loop ol 0 argv w = Inr w"
| "stream_loop ol (Suc n) [] w = Inl (OutOfBounds 0)"
| "stream_loop ol (Suc n) (a # argv) w = stream_loop ol n argv (emit (Outlet_list ol ''list'' [a]) w)"

definition iemnet__streamout ::
    "t_outlet option \<Rightarrow> int \<Rightarrow> t_atom list \<Rightarrow> bool \<Rightarrow> 'w world_scheme \<Rightarrow> 'w world_scheme res" where
  "iemnet__streamout outlet argc argv stream w = (case outlet of None \<Rightarrow> Inr w
     | Some ol \<Rightarrow>
         if stream then stream_loop ol (nat argc) argv w
         else if nat argc \<le> length argv then Inr (emit (Outlet_list ol ''list'' (take (nat argc) argv)) w)
         else Inl (OutOfBounds (length argv)))"

section \<open>The name registry\<close>

text \<open>
  The static linked list of names (oldest first) and the banner flag of \<^verbatim>\<open>iemnet__register\<close>.
\<close>

record registry = world +
  namelist :: "string list"
  reg_firsttime :: bool

fun name_scan :: "string \<Rightarrow> string list \<Rightarrow> bool" where
  "name_scan name [] = False"
| "name_scan name (cur # rest) = (if name = cur then True else name_scan name rest)"

definition iemnet__nametaken :: "string \<Rightarrow> 'w registry_scheme \<Rightarrow> (bool \<times> 'w registry_scheme) res" where
  "iemnet__nametaken name w =
     (if name_scan name (namelist w) then Inr (True, w)
      else let (ok, w) = malloc w in
        if \<not> ok then Inl NullDeref else Inr (False, w\<lparr>namelist := namelist w @ [name]\<rparr>))"

text \<open>
  \<open>version\<close> and \<open>build_date\<close> are the build-time macros; the notice is encoded in UTF-8. The last message is the one for
  versions of Pd after 0.43.0, which have \<^verbatim>\<open>logpost\<close>.
\<close>

abbreviation (input) PD_DEBUG :: int where "PD_DEBUG \<equiv> 3"

definition banner :: "string option \<Rightarrow> string \<Rightarrow> event list" where
  "banner version build_date =
     Post ''iemnet - networking with Pd''
     # (case version of None \<Rightarrow> [] | Some v \<Rightarrow> [Post (''        version '' @ v)])
     @ [Post (''        compiled '' @ build_date),
        Post (''        copyright '' @ [CHR 0xC2, CHR 0xA9] @ '' 2010-2015 IOhannes m zmoelnig, IEM''),
        Post ''        based on mrpeach/net, based on maxlib'']"

definition iemnet__register ::
    "string option \<Rightarrow> string \<Rightarrow> string \<Rightarrow> 'w registry_scheme \<Rightarrow> (int \<times> 'w registry_scheme) res" where
  "iemnet__register version build_date name w =
     res_bind (iemnet__nametaken name w) (\<lambda>(taken, w).
       if taken then Inr (1, w)
       else let w = (if reg_firsttime w then fold emit (banner version build_date) w else w);
                w = emit (Logpost PD_DEBUG ''iemnet: loaded [%s]'' [L_str name]) w
            in Inr (1, w\<lparr>reg_firsttime := False\<rparr>))"

section \<open>Log messages\<close>

text \<open>
  What an event \<open>Iemnet_log\<close> prints: the call of \<^verbatim>\<open>logpost\<close> it ends in. The name is that of the class of the
  object, when there is an object and its class has a name. \<open>format\<close> is the C library's expansion of a
  format string; \<^verbatim>\<open>vsnprintf\<close> keeps what fits into \<^verbatim>\<open>MAXPDSTRING - 1\<close> bytes with the final NUL, and appending
  an empty string changes nothing.
\<close>

definition iemnet_log :: "(string \<Rightarrow> logarg list \<Rightarrow> string) \<Rightarrow> string option \<Rightarrow> t_iemnet_loglevel \<Rightarrow>
    string \<Rightarrow> logarg list \<Rightarrow> t_iemnet_loglevel \<times> string \<times> logarg list" where
  "iemnet_log format object level fmt ap =
     (let name = (case object of Some s_name \<Rightarrow> s_name | None \<Rightarrow> ''iemnet'');
          buf = take (1000 - 2) (format fmt ap)
      in (level, ''[%s]: %s'', [L_str name, L_str buf]))"

section \<open>Facts\<close>

named_theorems out_defs \<open>the uniform output functions\<close>

lemmas [out_defs] = out_anything_def iemnet__addrout_def iemnet__numconnout_def iemnet__socketout_def

text \<open>Output functions and closing a socket touch only the log and the answers.\<close>

lemma closesocket_frame [simp]:
  "world.more (iemnet__closesocket fd v w) = world.more w"
  "w_live (iemnet__closesocket fd v w) = w_live w" "w_malloc (iemnet__closesocket fd v w) = w_malloc w"
  by (simp_all add: iemnet__closesocket_def Let_def case_prod_beta)

lemma addrout_frame [simp]:
  "world.more (iemnet__addrout so ao a p w) = world.more w"
  "w_live (iemnet__addrout so ao a p w) = w_live w" "w_malloc (iemnet__addrout so ao a p w) = w_malloc w"
  "w_sys (iemnet__addrout so ao a p w) = w_sys w"
  by (simp_all add: out_defs Let_def split: option.splits)

lemma numconnout_frame [simp]:
  "world.more (iemnet__numconnout so no n w) = world.more w"
  "w_live (iemnet__numconnout so no n w) = w_live w" "w_malloc (iemnet__numconnout so no n w) = w_malloc w"
  "w_sys (iemnet__numconnout so no n w) = w_sys w"
  by (simp_all add: out_defs Let_def split: option.splits)

lemma uint_ucast_byte [simp]: "uint (ucast (b :: 8 word) :: 32 word) = uint b"
  by (simp add: unsigned_ucast_eq take_bit_int_eq_self_iff) (use uint_lt2p [of b] in simp)

lemma addr_quads_ntohl [simp]:
  "addr_quads (ntohl (In_addr a b c d)) = [ucast a, ucast b, ucast c, ucast d]"
  unfolding addr_quads_def by (simp only: ntohl_quads)

lemma stream_loop_eq:
  "stream_loop ol (length argv) argv w =
     Inr (w\<lparr>w_io := w_io w @ map (\<lambda>a. Outlet_list ol ''list'' [a]) argv\<rparr>)"
  by (induction argv arbitrary: w) (simp_all add: emit_def)

lemma stream_loop_take:
  "n \<le> length argv \<Longrightarrow> stream_loop ol n argv w = stream_loop ol n (take n argv) w"
  by (induction ol n argv w rule: stream_loop.induct) simp_all

lemma name_scan_iff: "name_scan name ns \<longleftrightarrow> name \<in> set ns"
  by (induction ns) auto

section \<open>Properties\<close>

text \<open>
  Reporting an IPv4 address: the four quads are the bytes of the address in network order and the
  port is the number those two bytes denote, on the status outlet and on the address outlet alike.
\<close>

lemma addrout_bytes:
  "w_io (iemnet__addrout (Some so) (Some ao) (ntohl (In_addr a b c d)) (ntohs p) w) = w_io w @
     (let atoms = byte_atoms [a, b, c, d] @ [A_FLOAT (unsigned (ntohs p))] in
      [Outlet_anything so ''address'' atoms, Outlet_list ao ''list'' atoms])"
  by (simp add: out_defs byte_atoms_def Let_def del: ntohl.simps)

text \<open>
  The list that describes a socket's own address agrees with it: a tag followed by the bytes of the
  address and the port, for IPv4 and for IPv6.
\<close>

lemma sockaddr2list_inet:
  assumes "length ip6 = 16"
  shows "iemnet__sockaddr2list junk (SA_INET (In_addr a b c d) p) =
      A_SYMBOL ''IPv4'' # byte_atoms [a, b, c, d] @ [A_FLOAT (unsigned (ntohs p))] \<and>
    iemnet__sockaddr2list junk (SA_INET6 ip6 p) =
      A_SYMBOL ''IPv6'' # byte_atoms ip6 @ [A_FLOAT (unsigned (ntohs p))]"
proof -
  have "map (\<lambda>i. A_FLOAT (unsigned (ip6 ! i))) [0..<16] = map (\<lambda>b. A_FLOAT (unsigned b)) ip6"
    using assms by (intro nth_equalityI) simp_all
  then show ?thesis
    by (simp add: iemnet__sockaddr2list_def byte_atoms_def del: ntohl.simps)
qed

text \<open>
  A log message never overruns its buffer of 1000 bytes, the NUL included, and it is printed in full exactly
  when it has at most 998 characters.
\<close>

lemma log_fits_buffer:
  "\<exists>buf. iemnet_log format object level fmt ap =
      (level, ''[%s]: %s'', [L_str (case object of Some n \<Rightarrow> n | None \<Rightarrow> ''iemnet''), L_str buf]) \<and>
    length buf + 1 < 1000 \<and> (buf = format fmt ap \<longleftrightarrow> length (format fmt ap) \<le> 998)"
  by (simp add: iemnet_log_def Let_def min_def)

text \<open>
  Loading the objects: registering a name always returns 1, the name is remembered exactly once,
  and a second registration changes nothing and prints nothing.
\<close>

lemma register_idempotent:
  assumes "mem_ok w" "distinct (namelist w)"
  shows "\<exists>w'. iemnet__register version build_date name w = Inr (1, w') \<and>
    set (namelist w') = insert name (set (namelist w)) \<and> distinct (namelist w') \<and>
    iemnet__register version build_date name w' = Inr (1, w')"
proof (cases "name \<in> set (namelist w)")
  case True
  then show ?thesis
    using assms by (auto simp: iemnet__register_def iemnet__nametaken_def name_scan_iff intro!: exI [of _ w])
next
  case False
  obtain ok w1 where m: "malloc w = (ok, w1)" by fastforce
  have ok: ok using mem_ok_malloc [OF assms(1)] by (simp add: m)
  have more: "world.more w1 = world.more w" using malloc_snd(3) [of w] by (simp add: m)
  have reg: "namelist v = namelist u" if "world.more v = world.more u" for u v :: "'a registry_scheme"
    using that by (cases u; cases v) simp
  have fold: "namelist (fold emit es v) = namelist v" for es and v :: "'a registry_scheme"
    by (induction es arbitrary: v) (simp_all add: reg [OF emit_sel(5)])
  let ?w1 = "w1\<lparr>namelist := namelist w1 @ [name]\<rparr>"
  let ?w2 = "emit (Logpost PD_DEBUG ''iemnet: loaded [%s]'' [L_str name])
    (if reg_firsttime ?w1 then fold emit (banner version build_date) ?w1 else ?w1)"
  have run: "iemnet__register version build_date name w = Inr (1, ?w2\<lparr>reg_firsttime := False\<rparr>)"
    using False ok by (simp add: iemnet__register_def iemnet__nametaken_def name_scan_iff m Let_def)
  have names: "namelist (?w2\<lparr>reg_firsttime := False\<rparr>) = namelist w @ [name]"
    using reg [OF more] by (simp add: reg [OF emit_sel(5)] fold)
  then have "iemnet__register version build_date name (?w2\<lparr>reg_firsttime := False\<rparr>) = Inr (1, ?w2\<lparr>reg_firsttime := False\<rparr>)"
    by (simp add: iemnet__register_def iemnet__nametaken_def name_scan_iff)
  with run names False assms(2) show ?thesis
    by (intro exI [of _ "?w2\<lparr>reg_firsttime := False\<rparr>"]) simp
qed

definition sample_registry :: registry where
  "sample_registry = \<lparr>w_io = [], w_sys = [], w_malloc = [], w_live = 0, w_errno = 0,
     namelist = [''udpsend''], reg_firsttime = True\<rparr>"

end
