(* ===== verification/Iemnet_Sender.thy ===== *)
theory Iemnet_Sender
  imports Iemnet_Queue Iemnet_Core
begin

text \<open>
  The sender of \<^verbatim>\<open>iemnet_sender.c\<close> as the main thread sees it: creation, queueing of chunks,
  destruction, the default send function, socket options and the connect with timeout. The send
  thread itself and its interleavings with the main thread are the subject of \<open>Sender_Threads\<close>;
  here its effect is limited to the flags and the queue that the main thread reads under the lock.
\<close>

unbundle bit_operations_syntax

section \<open>The sender\<close>

text \<open>The function pointer and user data are opaque; no object of the library passes any.\<close>

record t_iemnet_sender =
  s_sockfd :: int
  s_queue :: "t_iemnet_queue option"
  s_keepsending :: bool
  s_isrunning :: bool
  s_userdata :: ptr
  s_sendfun :: ptr

text \<open>\<^verbatim>\<open>MSG_NOSIGNAL\<close> on Linux.\<close>

abbreviation (input) MSG_NOSIGNAL :: int where "MSG_NOSIGNAL \<equiv> 16384"

definition iemnet__sender_defaultsend ::
    "int \<Rightarrow> t_iemnet_chunk \<Rightarrow> 'w world_scheme \<Rightarrow> (int \<times> 'w world_scheme) res" where
  "iemnet__sender_defaultsend sockfd c w =
     res_bind (memcpy_from (c_data c) (c_size c)) (\<lambda>bs.
       let flags = MSG_NOSIGNAL;
           dest = (if c_port c \<noteq> 0
             then Some \<lparr>sin_family = c_family c, sin_addr = htonl (c_addr c), sin_port = htons (c_port c)\<rparr>
             else None);
           (result, w) = sys_send sockfd flags bs dest w
       in if a_ret result < 0 then Inr (0, w) else Inr (1, w))"

definition iemnet__sender_send ::
    "t_iemnet_sender \<Rightarrow> t_iemnet_chunk option \<Rightarrow> 'w world_scheme \<Rightarrow>
     (int \<times> t_iemnet_sender \<times> 'w world_scheme) res" where
  "iemnet__sender_send s c w =
     (if \<not> s_isrunning s then Inr (-1, s, w)
      else case s_queue s of None \<Rightarrow> Inr (-1, s, w)
      | Some q \<Rightarrow> res_bind (iemnet__chunk_create_chunk c w) (\<lambda>(chunk, w).
          res_bind (queue_push (Some q) chunk w) (\<lambda>(sz, q, w).
            Inr (sz, s\<lparr>s_queue := q\<rparr>, w))))"

text \<open>
  Destruction: a sender already being destroyed is left alone; otherwise the thread is told to
  stop and waited for, joined, and the queue with all chunks still in it is freed. The loop that waits for the
  thread finishes the queue while \<open>s_isrunning\<close> is set; the thread lowers the flag when the loop lets go of the
  lock, so that here the loop has one round or none (\<open>Sender_Threads\<close> has it step by step).
\<close>

definition iemnet__sender_destroy :: "t_iemnet_sender \<Rightarrow> 'w world_scheme \<Rightarrow> 'w world_scheme res" where
  "iemnet__sender_destroy s w =
     (if \<not> s_keepsending s then Inr w
      else res_bind (if s_isrunning s then queue_finish (s_queue s) else Inr (s_queue s)) (\<lambda>q.
        res_bind (queue_finish q) (\<lambda>q.
        let w = emit (Syscall ''pthread_join'' [] 0) w in
        res_bind (queue_destroy q w) (\<lambda>w. Inr (free w)))))"

definition iemnet__sender_create ::
    "int \<Rightarrow> ptr \<Rightarrow> ptr \<Rightarrow> 'w world_scheme \<Rightarrow> (t_iemnet_sender option \<times> 'w world_scheme) res" where
  "iemnet__sender_create sock sendfun userdata w =
     (let (ok, w) = malloc w in
      if \<not> ok then Inr (None, w)
      else
        let (q, w) = queue_create w;
            result = \<lparr>s_sockfd = sock, s_queue = q, s_keepsending = True, s_isrunning = True,
                      s_userdata = userdata, s_sendfun = sendfun\<rparr>;
            (r, w) = sys_call ''pthread_create'' [] w
        in if a_ret r = 0 then Inr (Some result, w)
           else res_bind (queue_destroy q w) (\<lambda>w. Inr (None, free w)))"

definition iemnet__sender_getsize :: "t_iemnet_sender option \<Rightarrow> int" where
  "iemnet__sender_getsize x = (case x of None \<Rightarrow> -1
     | Some s \<Rightarrow> (case s_queue s of None \<Rightarrow> -1 | Some q \<Rightarrow> queue_getsize (Some q)))"

definition iemnet__sender_getlasterror :: "'w world_scheme \<Rightarrow> int" where
  "iemnet__sender_getlasterror w = w_errno w"

definition iemnet__sender_getsockopt ::
    "t_iemnet_sender \<Rightarrow> int \<Rightarrow> int \<Rightarrow> 'w world_scheme \<Rightarrow> int \<times> int \<times> 'w world_scheme" where
  "iemnet__sender_getsockopt s level optname w =
     (let (r, w) = sys_call ''getsockopt'' [s_sockfd s, level, optname] w;
          w = (if a_ret r \<noteq> 0
               then emit (Pd_error ''iemnet::sender: getsockopt returned %d''
                            [L_int (iemnet__sender_getlasterror w)]) w
               else w)
      in (a_ret r, a_val r, w))"

definition iemnet__sender_setsockopt ::
    "t_iemnet_sender \<Rightarrow> int \<Rightarrow> int \<Rightarrow> int \<Rightarrow> 'w world_scheme \<Rightarrow> int \<times> 'w world_scheme" where
  "iemnet__sender_setsockopt s level optname optval w =
     (let (r, w) = sys_call ''setsockopt'' [s_sockfd s, level, optname, optval] w;
          w = (if a_ret r \<noteq> 0
               then emit (Pd_error ''iemnet::sender: setsockopt returned %d''
                            [L_int (iemnet__sender_getlasterror w)]) w
               else w)
      in (a_ret r, w))"

section \<open>Connecting with a timeout\<close>

abbreviation (input) F_GETFL :: int where "F_GETFL \<equiv> 3"
abbreviation (input) F_SETFL :: int where "F_SETFL \<equiv> 4"
abbreviation (input) O_NONBLOCK :: int where "O_NONBLOCK \<equiv> 2048"
abbreviation (input) EINPROGRESS :: int where "EINPROGRESS \<equiv> 115"
abbreviation (input) ETIMEDOUT :: int where "ETIMEDOUT \<equiv> 110"

definition sock_set_nonblocking :: "int \<Rightarrow> bool \<Rightarrow> 'w world_scheme \<Rightarrow> int \<times> 'w world_scheme" where
  "sock_set_nonblocking sock nonblocking w =
     (let (g, w) = sys_call ''fcntl'' [sock, F_GETFL, 0] w;
          sockflags = (if nonblocking then a_ret g OR O_NONBLOCK else a_ret g AND NOT O_NONBLOCK);
          (r, w) = sys_call ''fcntl'' [sock, F_SETFL, sockflags] w
      in (if a_ret r < 0 then -1 else 0, w))"

definition conn_in_progress :: "'w world_scheme \<Rightarrow> bool" where
  "conn_in_progress w \<longleftrightarrow> w_errno w = EINPROGRESS"

text \<open>
  The timeout, in milliseconds, split into seconds and microseconds for \<^verbatim>\<open>select\<close>. The arithmetic
  is exact here; in the code it is rounded to single precision.
\<close>

definition timeoutval :: "t_float \<Rightarrow> int \<times> int" where
  "timeoutval timeout =
     (let t = timeout / 1000; tv_sec = c_int t in (tv_sec, c_int ((t - of_int tv_sec) * 1000000)))"

definition iemnet__connect ::
    "int \<Rightarrow> in_addr \<Rightarrow> in_port \<Rightarrow> t_float \<Rightarrow> 'w world_scheme \<Rightarrow> int \<times> 'w world_scheme" where
  "iemnet__connect sockfd addr port timeout w =
     (let args = [sockfd, uint (ntohl addr), uint (ntohs port)] in
      if timeout < 0 then let (r, w) = sys_call ''connect'' args w in (a_ret r, w)
      else
        let (_, w) = sock_set_nonblocking sockfd True w;
            (r, w) = sys_call ''connect'' args w
        in if a_ret r < 0 then
             if \<not> conn_in_progress w then (-1, w)
             else
               let (tv_sec, tv_usec) = timeoutval (if timeout < 0 then 0 else timeout);
                   (st, w) = sys_call ''select'' [sockfd + 1, tv_sec, tv_usec] w
               in if a_ret st < 0 then (-1, emit (Perror ''socket_connect: select failed'') w)
                  else if a_ret st = 0 then (-1, w\<lparr>w_errno := ETIMEDOUT\<rparr>)
                  else if a_errfd st then
                    let (e, w) = sys_call ''getsockopt'' [sockfd, 1, 4] w in (-1, w\<lparr>w_errno := a_val e\<rparr>)
                  else let (_, w) = sock_set_nonblocking sockfd False w in (0, w)
           else let (_, w) = sock_set_nonblocking sockfd False w in (0, w))"

section \<open>Senders in use\<close>

text \<open>A sender that the main thread may send to or destroy.\<close>

definition sender_inv :: "t_iemnet_sender \<Rightarrow> bool" where
  "sender_inv s \<longleftrightarrow> s_keepsending s \<and> (case s_queue s of None \<Rightarrow> True
     | Some q \<Rightarrow> queue_inv q \<and> q_used q = 0 \<and> list_all wf_chunk (queue_content q))"

definition sender_pending :: "t_iemnet_sender \<Rightarrow> t_iemnet_chunk list" where
  "sender_pending s = (case s_queue s of None \<Rightarrow> [] | Some q \<Rightarrow> queue_content q)"

lemma sender_send_not_running: "\<not> s_isrunning s \<Longrightarrow> iemnet__sender_send s c w = Inr (-1, s, w)"
  by (simp add: iemnet__sender_send_def)

text \<open>Sending without a chunk (an empty message) only reports the fill state.\<close>

lemma sender_send_NULL:
  "s_isrunning s \<Longrightarrow> s_queue s = Some q \<Longrightarrow> iemnet__sender_send s None w = Inr (sint (q_size q), s, w)"
  by (cases s) (simp add: iemnet__sender_send_def iemnet__chunk_create_chunk_def queue_push_def)

lemma sender_send_chunk:
  assumes "sender_inv s" "s_isrunning s" "s_queue s = Some q" "wf_chunk c" "mem_ok w"
  obtains q' w' where
    "iemnet__sender_send s (Some c) w = Inr (sint (q_size q'), s\<lparr>s_queue := Some q'\<rparr>, w')"
    "sender_inv (s\<lparr>s_queue := Some q'\<rparr>)" "queue_content q' = queue_content q @ [c\<lparr>c_family := AF_INET\<rparr>]"
    "q_size q' = of_nat (chunks_size (queue_content q'))" "mem_step w 3 w'"
proof -
  from chunk_create_chunk_result [OF assms(4), of w] assms(5) obtain w1 where
    c1: "iemnet__chunk_create_chunk (Some c) w = Inr (Some (c\<lparr>c_family := AF_INET\<rparr>), w1)"
    and w1: "mem_step w 2 w1" by auto
  from w1 assms(5) have ok1: "mem_ok w1" by (simp add: mem_step_def)
  from assms(1,3) have qi: "queue_inv q" "q_used q = 0" "list_all wf_chunk (queue_content q)"
    by (simp_all add: sender_inv_def)
  obtain q' w' where p: "queue_push (Some q) (Some (c\<lparr>c_family := AF_INET\<rparr>)) w1 = Inr (sint (q_size q'), Some q', w')"
    and q': "queue_inv q'" "queue_content q' = queue_content q @ [c\<lparr>c_family := AF_INET\<rparr>]"
      "q_used q' = q_used q" and w': "mem_step w1 1 w'"
    by (rule queue_push_ok [OF qi(1) ok1])
  show thesis
  proof (rule that)
    show "iemnet__sender_send s (Some c) w = Inr (sint (q_size q'), s\<lparr>s_queue := Some q'\<rparr>, w')"
      using assms(2,3) c1 p by (simp add: iemnet__sender_send_def)
    show "sender_inv (s\<lparr>s_queue := Some q'\<rparr>)"
      using assms(1,4) q' qi by (simp add: sender_inv_def)
    show "mem_step w 3 w'" by (rule mem_step_trans [OF w1 w']) simp
  qed (use q' queue_size_inv in auto)
qed

text \<open>
  Sending without memory: when the copy of the chunk fails the message is lost, and the caller gets the fill state of the
  queue as if it had been queued; when the copy succeeds and the node of the queue cannot be allocated, the node is
  used nevertheless.
\<close>

lemma sender_send_out_of_memory:
  assumes "s_isrunning s" "s_queue s = Some q" "wf_chunk c"
  shows "\<not> list_all id (take 2 (w_malloc w)) \<Longrightarrow> \<exists>w'. iemnet__sender_send s (Some c) w = Inr (sint (q_size q), s, w')"
    and "w_malloc w = True # True # False # bs \<Longrightarrow> iemnet__sender_send s (Some c) w = Inl NullDeref"
proof -
  have s: "s\<lparr>s_queue := Some q\<rparr> = s" using assms(2) by (cases s) simp
  have sz: "sint (of_nat (c_size c) :: 32 word) = int (c_size c)" using assms(3) by (simp add: wf_chunk_def)
  {
    assume "\<not> list_all id (take 2 (w_malloc w))"
    then obtain v where "iemnet__chunk_create_empty (int (c_size c)) w = (None, v)"
      using chunk_create_empty_none by (metis prod.collapse)
    then show "\<exists>w'. iemnet__sender_send s (Some c) w = Inr (sint (q_size q), s, w')"
      using assms(1,2) s by (simp add: iemnet__sender_send_def iemnet__chunk_create_chunk_def iemnet__chunk_create_data_def
          sz queue_push_def)
  next
    assume m: "w_malloc w = True # True # False # bs"
    obtain ds where d: "c_data c = Some ds" "length ds = c_size c" "0 < c_size c"
      using assms(3) by (auto simp: wf_chunk_def split: option.splits)
    show "iemnet__sender_send s (Some c) w = Inl NullDeref"
      using assms(1,2) m d by (simp add: iemnet__sender_send_def iemnet__chunk_create_chunk_def iemnet__chunk_create_data_def
          iemnet__chunk_create_empty_def memcpy_from_def sz queue_push_def malloc_def)
  }
qed

lemma sender_destroy_ok:
  assumes "sender_inv s" "s_queue s = Some q"
  obtains w' where "iemnet__sender_destroy s w = Inr w'"
    "w_io w' = w_io w @ [Syscall ''pthread_join'' [] 0]" "world.more w' = world.more w" "w_sys w' = w_sys w"
    "w_live w' = w_live w - 3 * int (length (queue_content q)) - 2" "mem_ok w \<longrightarrow> mem_ok w'"
proof -
  let ?q = "queue_finish_signal q" and ?w = "emit (Syscall ''pthread_join'' [] 0) w"
  from assms have "queue_inv ?q" "list_all wf_chunk (queue_content ?q)" "q_used ?q = 0"
    by (auto simp: sender_inv_def queue_finish_signal_def)
  then obtain w1 where "queue_destroy (Some ?q) ?w = Inr w1"
    "mem_step ?w (- 3 * int (length (queue_content ?q)) - 1) w1"
    by (rule queue_destroy_ok)
  moreover from assms have "iemnet__sender_destroy s w = res_bind (queue_destroy (Some ?q) ?w) (\<lambda>w. Inr (free w))"
    by (simp add: iemnet__sender_destroy_def sender_inv_def queue_finish_def queue_finish_signal_def)
  ultimately show thesis using that [of "free w1"]
    by (auto simp: mem_step_def queue_finish_signal_def)
qed

lemma sender_destroy_frame:
  "iemnet__sender_destroy s w = Inr w' \<Longrightarrow> world.more w' = world.more w \<and> w_sys w' = w_sys w"
  by (auto simp: iemnet__sender_destroy_def res_simps Let_def split: if_splits dest!: queue_destroy_frame)

lemma sender_create_frame:
  assumes "iemnet__sender_create fd f u w = Inr (s, w')"
  shows "world.more w' = world.more w"
proof -
  obtain o1 w1 where m1: "malloc w = (o1, w1)" by fastforce
  obtain o2 w2 where m2: "malloc w1 = (o2, w2)" by fastforce
  obtain r w3 where m3: "sys_call ''pthread_create'' [] w2 = (r, w3)" by fastforce
  have "world.more w1 = world.more w" "world.more w2 = world.more w1" "world.more w3 = world.more w2"
    using malloc_snd(3) [of w] malloc_snd(3) [of w1] sys_call_snd(4) [of "''pthread_create''" "[]" w2]
    by (simp_all add: m1 m2 m3)
  with assms show ?thesis
    by (auto simp: iemnet__sender_create_def queue_create_def m1 m2 m3 Let_def res_simps
        split: if_splits dest!: queue_destroy_frame)
qed

lemma sender_create_inv:
  assumes "iemnet__sender_create fd f u w = Inr (Some s, w')"
  shows "sender_inv s \<and> s_isrunning s \<and> s_sockfd s = fd \<and> sender_pending s = []"
  using assms
  by (auto simp: iemnet__sender_create_def queue_create_def sender_inv_def sender_pending_def Let_def
      res_simps queue_empty_def [THEN arg_cong, of q_used] split: if_splits prod.splits)

lemma sender_create_safe: "\<exists>s w'. iemnet__sender_create fd f u w = Inr (s, w')"
proof -
  have "\<exists>w'. queue_destroy (Some queue_empty) v = Inr w'" for v :: "'a world_scheme"
    by (rule queue_destroy_ok [of queue_empty v]) (auto simp: queue_empty_def [THEN arg_cong, of q_used])
  then have "\<exists>w'. queue_destroy q v = Inr w'" if "q = None \<or> q = Some queue_empty" for q and v :: "'a world_scheme"
    using that by (auto simp: queue_destroy_def)
  note d = this
  obtain o1 w1 where m1: "malloc w = (o1, w1)" by fastforce
  obtain q w2 where m2: "queue_create w1 = (q, w2)" by fastforce
  obtain r w3 where m3: "sys_call ''pthread_create'' [] w2 = (r, w3)" by fastforce
  have "q = None \<or> q = Some queue_empty"
    using m2 by (auto simp: queue_create_def split: prod.splits if_splits)
  from d [OF this, of w3] show ?thesis
    by (auto simp: iemnet__sender_create_def m1 m2 m3)
qed

lemma timeoutval_range:
  assumes "0 \<le> t" "t < 2147483648000" "timeoutval t = (s, u)"
  shows "0 \<le> s \<and> 0 \<le> u \<and> u < 1000000 \<and> of_int s * 1000 \<le> t \<and> t < of_int s * 1000 + 1000"
proof -
  define x where "x = t / 1000"
  from assms have x: "0 \<le> x" "x < 2147483648" by (simp_all add: x_def)
  have fl: "0 \<le> \<lfloor>x\<rfloor>" "\<lfloor>x\<rfloor> \<le> 2147483647" using x by (simp_all add: floor_le_iff)
  with x have ci: "c_int x = \<lfloor>x\<rfloor>" by (simp add: c_int_def trunc_float_def)
  define y where "y = (x - of_int \<lfloor>x\<rfloor>) * 1000000"
  have fx: "of_int \<lfloor>x\<rfloor> \<le> x" "x < of_int \<lfloor>x\<rfloor> + 1" using floor_correct [of x] by auto
  then have y: "0 \<le> y" "y < 1000000" by (simp_all add: y_def)
  then have "0 \<le> \<lfloor>y\<rfloor>" "\<lfloor>y\<rfloor> < 1000000" by (simp_all add: floor_less_iff)
  with y have cy: "0 \<le> c_int y" "c_int y < 1000000" by (simp_all add: c_int_def trunc_float_def)
  from assms(3) ci have "s = \<lfloor>x\<rfloor>" "u = c_int y" by (auto simp: timeoutval_def Let_def x_def y_def)
  moreover have "of_int \<lfloor>x\<rfloor> * 1000 \<le> t" "t < of_int \<lfloor>x\<rfloor> * 1000 + 1000"
    using fx by (simp_all add: x_def field_simps)
  ultimately show ?thesis using cy fl by simp
qed

section \<open>Properties\<close>

text \<open>
  Handing a chunk to a sender: if the send thread runs, a copy is queued behind the chunks already
  waiting and the new fill state is returned; if it has stopped, or there is no queue, the result is
  -1 and nothing changes. The sender stays usable in every case.
\<close>

lemma sender_send_result:
  assumes "sender_inv s" "wf_chunk c" "mem_ok w"
  shows "\<exists>n s' w'. iemnet__sender_send s (Some c) w = Inr (n, s', w') \<and> sender_inv s' \<and>
    (if s_isrunning s \<and> s_queue s \<noteq> None
     then sender_pending s' = sender_pending s @ [c\<lparr>c_family := AF_INET\<rparr>] \<and>
       n = sint (of_nat (chunks_size (sender_pending s')) :: 32 word) \<and>
       n = iemnet__sender_getsize (Some s') \<and> w_live w' = w_live w + 3
     else n = -1 \<and> s' = s \<and> w' = w)"
proof (cases "s_isrunning s \<and> s_queue s \<noteq> None")
  case True
  then obtain q where q: "s_isrunning s" "s_queue s = Some q" by auto
  obtain q' w' where "iemnet__sender_send s (Some c) w = Inr (sint (q_size q'), s\<lparr>s_queue := Some q'\<rparr>, w')"
    "sender_inv (s\<lparr>s_queue := Some q'\<rparr>)" "queue_content q' = queue_content q @ [c\<lparr>c_family := AF_INET\<rparr>]"
    "q_size q' = of_nat (chunks_size (queue_content q'))" "mem_step w 3 w'"
    by (rule sender_send_chunk [OF assms(1) q assms(2,3)])
  then show ?thesis
    using q by (simp add: sender_pending_def iemnet__sender_getsize_def queue_getsize_def mem_step_def)
next
  case False
  then have "iemnet__sender_send s (Some c) w = Inr (-1, s, w)"
    by (auto simp: iemnet__sender_send_def)
  with False assms(1) show ?thesis by auto
qed

definition sample_sender :: t_iemnet_sender where
  "sample_sender = \<lparr>s_sockfd = 5, s_queue = Some queue_empty, s_keepsending = True, s_isrunning = True,
     s_userdata = None, s_sendfun = None\<rparr>"

lemma sample_sender_inv [simp]: "sender_inv sample_sender"
  by (simp add: sender_inv_def sample_sender_def queue_empty_def [THEN arg_cong, of q_used])

lemma wf_sample_chunk [simp]: "wf_chunk (sample_chunk b)"
  by (simp add: wf_chunk_def sample_chunk_def)

lemma sample_sender_sel [simp]:
  "s_isrunning sample_sender" "s_queue sample_sender = Some queue_empty" "sender_pending sample_sender = []"
  by (simp_all add: sample_sender_def sender_pending_def)

text \<open>
  No memory is lost over the life of a sender: whichever allocations fail and whether or not the
  thread can be started, creating it either gives nothing and keeps nothing, or gives a sender
  whose destruction returns everything.
\<close>

lemma sender_create_destroy_balanced:
  "\<exists>s w'. iemnet__sender_create fd f u w = Inr (s, w') \<and>
    (case s of None \<Rightarrow> w_live w' = w_live w
     | Some s \<Rightarrow> s_sockfd s = fd \<and> (\<exists>w''. iemnet__sender_destroy s w' = Inr w'' \<and> w_live w'' = w_live w))"
proof -
  obtain o1 w1 where m1: "malloc w = (o1, w1)" by fastforce
  obtain o2 w2 where m2: "malloc w1 = (o2, w2)" by fastforce
  obtain r w3 where m3: "sys_call ''pthread_create'' [] w2 = (r, w3)" by fastforce
  have live: "w_live w1 = w_live w + (if o1 then 1 else 0)" "w_live w2 = w_live w1 + (if o2 then 1 else 0)"
    "w_live w3 = w_live w2"
    using malloc_snd(4) [of w] malloc_snd(4) [of w1] sys_call_snd(3) [of "''pthread_create''" "[]" w2]
    by (simp_all add: m1 m2 m3)
  have u: "q_used queue_empty = 0" by (simp add: queue_empty_def)
  have d: "\<exists>w'. queue_destroy (Some queue_empty) v = Inr w' \<and> w_live w' = w_live v - 1" for v :: "'a world_scheme"
    by (rule queue_destroy_ok [of queue_empty v]) (simp_all add: u mem_step_def)
  have d': "\<exists>w'. queue_destroy (Some (queue_finish_signal queue_empty)) v = Inr w' \<and> w_live w' = w_live v - 1"
    for v :: "'a world_scheme"
    by (rule queue_destroy_ok [of "queue_finish_signal queue_empty" v])
      (simp_all add: u mem_step_def queue_finish_signal_def)
  show ?thesis
    using live d [of w3] d' [of "emit (Syscall ''pthread_join'' [] 0) w3"] u
    by (auto simp: iemnet__sender_create_def queue_create_def m1 m2 m3 Let_def iemnet__sender_destroy_def
        queue_destroy_def [of None] queue_finish_def queue_finish_signal_def)
qed

text \<open>
  The flags of the descriptors after some events: \<^verbatim>\<open>fcntl(fd, F_SETFL, flags)\<close> changes those of the descriptor it names,
  if it succeeds. Bit 11 is \<^verbatim>\<open>O_NONBLOCK\<close>.
\<close>

fun fcntl_effect :: "event \<Rightarrow> (int \<Rightarrow> int) \<Rightarrow> int \<Rightarrow> int" where
  "fcntl_effect (Syscall f [fd, cmd, fl] r) flags =
     (if f = ''fcntl'' \<and> cmd = F_SETFL \<and> 0 \<le> r then flags(fd := fl) else flags)"
| "fcntl_effect _ flags = flags"

definition fd_flags :: "event list \<Rightarrow> (int \<Rightarrow> int) \<Rightarrow> int \<Rightarrow> int" where
  "fd_flags = fold fcntl_effect"

definition nonblocking :: "event list \<Rightarrow> (int \<Rightarrow> int) \<Rightarrow> int \<Rightarrow> bool" where
  "nonblocking io flags fd \<longleftrightarrow> bit (fd_flags io flags fd) 11"

text \<open>No call of \<^verbatim>\<open>fcntl\<close> has failed.\<close>

definition fcntl_works :: "event list \<Rightarrow> bool" where
  "fcntl_works = list_all (\<lambda>e. case e of Syscall f _ r \<Rightarrow> f = ''fcntl'' \<longrightarrow> 0 \<le> r | _ \<Rightarrow> True)"

lemma bit_nonblock: "bit (fl OR 2048) 11" "\<not> bit (fl AND - 2049) 11" for fl :: int
proof -
  have e: "(2048 :: int) = 2 ^ 11" and n: "(- 2049 :: int) = NOT 2048" by simp_all
  have "bit (2048 :: int) 11" unfolding e by (simp only: bit_exp_iff) simp
  then show "bit (fl OR 2048) 11" "\<not> bit (fl AND - 2049) 11"
    unfolding n by (simp_all only: bit_or_iff bit_and_iff bit_not_iff) simp_all
qed

lemma set_nonblocking_io:
  obtains g fl r where "w_io (snd (sock_set_nonblocking fd b w)) =
    w_io w @ [Syscall ''fcntl'' [fd, F_GETFL, 0] g, Syscall ''fcntl'' [fd, F_SETFL, fl] r]" "bit fl 11 = b"
proof -
  obtain g w1 where g: "sys_call ''fcntl'' [fd, F_GETFL, 0] w = (g, w1)" by fastforce
  let ?fl = "if b then a_ret g OR O_NONBLOCK else a_ret g AND NOT O_NONBLOCK"
  obtain r w2 where r: "sys_call ''fcntl'' [fd, F_SETFL, ?fl] w1 = (r, w2)" by fastforce
  have "w_io w1 = w_io w @ [Syscall ''fcntl'' [fd, F_GETFL, 0] (a_ret g)]"
    "w_io w2 = w_io w1 @ [Syscall ''fcntl'' [fd, F_SETFL, ?fl] (a_ret r)]"
    using sys_call_snd(1) [of "''fcntl''" "[fd, F_GETFL, 0]" w] sys_call_snd(1) [of "''fcntl''" "[fd, F_SETFL, ?fl]" w1] g r by simp_all
  moreover have "sock_set_nonblocking fd b w = (if a_ret r < 0 then -1 else 0, w2)"
    unfolding sock_set_nonblocking_def g Let_def split_beta fst_conv snd_conv r ..
  moreover have "bit ?fl 11 = b" by (cases b) (simp_all add: bit_nonblock)
  ultimately show thesis using that by simp
qed

text \<open>
  C30. Connecting with a timeout, for every behaviour of the operating system: the result is 0 or -1, and 0 only if
  \<^verbatim>\<open>connect\<close> or the waiting for it succeeded. The flags of no other descriptor are touched. If none of the
  \<^verbatim>\<open>fcntl\<close> calls fails, the socket is in blocking mode after a success, and is left in non-blocking mode after a
  failure. When \<^verbatim>\<open>select\<close> reports a timeout, the result is -1 and the error is \<^verbatim>\<open>ETIMEDOUT\<close>.
\<close>

theorem connect_blocking_mode:
  assumes "0 \<le> timeout" "iemnet__connect fd addr port timeout w = (res, w')"
  shows "\<exists>es. w_io w' = w_io w @ es \<and> (res = 0 \<or> res = -1) \<and>
    (res = 0 \<longrightarrow> (\<exists>args r. 0 \<le> r \<and> Syscall ''connect'' args r \<in> set es) \<or> (\<exists>args r. 0 < r \<and> Syscall ''select'' args r \<in> set es)) \<and>
    (\<forall>flags k. k \<noteq> fd \<longrightarrow> fd_flags es flags k = flags k) \<and>
    (fcntl_works es \<longrightarrow> (\<forall>flags. nonblocking es flags fd = (res \<noteq> 0))) \<and>
    ((\<exists>args. Syscall ''select'' args 0 \<in> set es) \<longrightarrow> res = -1 \<and> w_errno w' = ETIMEDOUT)"
proof -
  let ?args = "[fd, uint (ntohl addr), uint (ntohs port)]"
  obtain x w1 where w1: "sock_set_nonblocking fd True w = (x, w1)" by fastforce
  obtain r w2 where w2: "sys_call ''connect'' ?args w1 = (r, w2)" by fastforce
  obtain sec usec where tv: "timeoutval timeout = (sec, usec)" by fastforce
  obtain st w3 where w3: "sys_call ''select'' [fd + 1, sec, usec] w2 = (st, w3)" by fastforce
  obtain er w4 where w4: "sys_call ''getsockopt'' [fd, 1, 4] w3 = (er, w4)" by fastforce
  obtain y w5 where w5: "sock_set_nonblocking fd False w2 = (y, w5)" by fastforce
  obtain z w6 where w6: "sock_set_nonblocking fd False w3 = (z, w6)" by fastforce
  obtain g1 f1 r1 where io1: "w_io w1 = w_io w @ [Syscall ''fcntl'' [fd, F_GETFL, 0] g1, Syscall ''fcntl'' [fd, F_SETFL, f1] r1]" "bit f1 11"
    using set_nonblocking_io [of fd True w] w1 by auto
  obtain g5 f5 r5 where io5: "w_io w5 = w_io w2 @ [Syscall ''fcntl'' [fd, F_GETFL, 0] g5, Syscall ''fcntl'' [fd, F_SETFL, f5] r5]" "\<not> bit f5 11"
    using set_nonblocking_io [of fd False w2] w5 by auto
  obtain g6 f6 r6 where io6: "w_io w6 = w_io w3 @ [Syscall ''fcntl'' [fd, F_GETFL, 0] g6, Syscall ''fcntl'' [fd, F_SETFL, f6] r6]" "\<not> bit f6 11"
    using set_nonblocking_io [of fd False w3] w6 by auto
  have io: "w_io w2 = w_io w1 @ [Syscall ''connect'' ?args (a_ret r)]"
    "w_io w3 = w_io w2 @ [Syscall ''select'' [fd + 1, sec, usec] (a_ret st)]"
    "w_io w4 = w_io w3 @ [Syscall ''getsockopt'' [fd, 1, 4] (a_ret er)]"
    using sys_call_snd(1) [of "''connect''" ?args w1] sys_call_snd(1) [of "''select''" "[fd + 1, sec, usec]" w2]
      sys_call_snd(1) [of "''getsockopt''" "[fd, 1, 4]" w3] w2 w3 w4 by simp_all
  note run = assms(2) [unfolded iemnet__connect_def Let_def w1 prod.case w2 tv w3 w4 w5 w6] assms(1)
  note io_simps = io io1 io5 io6 fd_flags_def nonblocking_def fcntl_works_def
  consider "0 \<le> a_ret r" | "a_ret r < 0" "\<not> conn_in_progress w2" | "a_ret r < 0" "conn_in_progress w2" "a_ret st < 0"
    | "a_ret r < 0" "conn_in_progress w2" "a_ret st = 0" | "a_ret r < 0" "conn_in_progress w2" "0 < a_ret st" "a_errfd st"
    | "a_ret r < 0" "conn_in_progress w2" "0 < a_ret st" "\<not> a_errfd st" by linarith
  then show ?thesis
  proof cases
    case 1
    then have "res = 0" "w' = w5" using run by (auto simp: tv)
    with 1 show ?thesis by (auto simp: io_simps)
  next
    case 2
    then have "res = -1" "w' = w2" using run by auto
    then show ?thesis by (auto simp: io_simps)
  next
    case 3
    then have "res = -1" "w' = emit (Perror ''socket_connect: select failed'') w3" using run by (auto simp: tv w3)
    with 3 show ?thesis by (auto simp: io_simps)
  next
    case 4
    then have "res = -1" "w' = w3\<lparr>w_errno := ETIMEDOUT\<rparr>" using run by (auto simp: tv w3)
    then show ?thesis by (auto simp: io_simps)
  next
    case 5
    then have "res = -1" "w' = w4\<lparr>w_errno := a_val er\<rparr>" using run by (auto simp: tv w3 w4)
    with 5 show ?thesis by (auto simp: io_simps)
  next
    case 6
    then have "res = 0" "w' = w6" using run by (auto simp: tv w3 w6)
    with 6 show ?thesis by (auto simp: io_simps)
  qed
qed

theorem connect_blocking_mode_witness:
  "let (res, w') = iemnet__connect 5 (In_addr 127 0 0 1) (In_port 0 80) 100 (world0\<lparr>w_sys := [sys_ret 0, sys_ret 0, sys_ret 0, sys_ret 0, sys_ret 0]\<rparr>)
   in res = 0 \<and> fcntl_works (w_io w') \<and> \<not> nonblocking (w_io w') (\<lambda>_. 2) 5"
proof -
  let ?w = "world0\<lparr>w_sys := [sys_ret 0, sys_ret 0, sys_ret 0, sys_ret 0, sys_ret 0]\<rparr> :: world"
  obtain res w' where run: "iemnet__connect 5 (In_addr 127 0 0 1) (In_port 0 80) 100 ?w = (res, w')" by fastforce
  then have c: "res = 0" "fcntl_works (w_io w')"
    by (auto simp: iemnet__connect_def sys_call_def sys_answer_def sock_set_nonblocking_def
        world0_def emit_def Let_def sys_ret_def fcntl_works_def)
  have "w_io ?w = []" by (simp add: world0_def)
  with connect_blocking_mode [OF _ run] c show ?thesis by (auto simp: run)
qed

end
