(* ===== verification/Sender_Threads.thy ===== *)
theory Sender_Threads
  imports Iemnet_Sender
begin

text \<open>
  The send thread and the main thread of one sender, interleaved: \<^verbatim>\<open>iemnet__sender_sendthread\<close>
  with \<^verbatim>\<open>queue_pop_block\<close> on one side, \<^verbatim>\<open>iemnet__sender_send\<close> and \<^verbatim>\<open>iemnet__sender_destroy\<close> with
  \<^verbatim>\<open>queue_push\<close> and \<^verbatim>\<open>queue_finish\<close> on the other. A step is one critical section or one statement
  outside of them. The mutex of the sender is part of the state, because the main thread keeps it
  while it waits in \<^verbatim>\<open>queue_finish\<close>; the mutexes of the queue are held inside single steps only.
\<close>

section \<open>States\<close>

datatype owner = Main | Thread

text \<open>Where the send thread is. \<open>T_loop\<close> and \<open>T_exit\<close> hold the sender's mutex.\<close>

datatype thread_pc =
    T_start
  | T_loop
  | T_pop
  | T_enter
  | T_waiting
  | T_woken
  | T_leave "t_iemnet_chunk option"
  | T_got "t_iemnet_chunk option"
  | T_relock
  | T_break
  | T_exit
  | T_done

text \<open>Where the main thread is. \<open>M_loop\<close>, \<open>M_fin\<close> and \<open>M_finwait\<close> hold the sender's mutex.\<close>

datatype main_pc =
    M_idle
  | M_push t_iemnet_chunk
  | M_loop
  | M_fin
  | M_finwait
  | M_relock
  | M_fin2
  | M_finwait2
  | M_join
  | M_destroy
  | M_freed

text \<open>
  The last five fields are histories: the chunks queued, sent and failed to send, those freed
  unsent, and the number of send attempts made after the destruction began.
\<close>

record sys =
  y_q :: t_iemnet_queue
  y_keep :: bool
  y_run :: bool
  y_mtx :: "owner option"
  y_tpc :: thread_pc
  y_mpc :: main_pc
  y_pushed :: "t_iemnet_chunk list"
  y_sent :: "t_iemnet_chunk list"
  y_failed :: "t_iemnet_chunk list"
  y_dropped :: "t_iemnet_chunk list"
  y_late :: nat

definition sys_init :: sys where
  "sys_init = \<lparr>y_q = queue_empty, y_keep = True, y_run = True, y_mtx = None, y_tpc = T_start,
     y_mpc = M_idle, y_pushed = [], y_sent = [], y_failed = [], y_dropped = [], y_late = 0\<rparr>"

text \<open>\<^verbatim>\<open>pthread_cond_signal\<close> on the queue's condition: lost unless the thread is waiting.\<close>

definition wake :: "sys \<Rightarrow> sys" where
  "wake s = (if y_tpc s = T_waiting then s\<lparr>y_tpc := T_woken\<rparr> else s)"

definition popped :: "pop_state \<Rightarrow> thread_pc" where
  "popped r = (case r of Waiting \<Rightarrow> T_waiting | Popped c \<Rightarrow> T_leave c)"

section \<open>Steps\<close>

inductive tstep :: "sys \<Rightarrow> sys \<Rightarrow> bool" where
  t_start: "y_tpc s = T_start \<Longrightarrow> y_mtx s = None \<Longrightarrow>
     tstep s (s\<lparr>y_mtx := Some Thread, y_tpc := T_loop\<rparr>)"
| t_continue: "y_tpc s = T_loop \<Longrightarrow> y_keep s \<Longrightarrow> tstep s (s\<lparr>y_mtx := None, y_tpc := T_pop\<rparr>)"
| t_stop: "y_tpc s = T_loop \<Longrightarrow> \<not> y_keep s \<Longrightarrow> tstep s (s\<lparr>y_tpc := T_exit\<rparr>)"
| t_pop: "y_tpc s = T_pop \<Longrightarrow> tstep s (s\<lparr>y_q := queue_use_increment (y_q s), y_tpc := T_enter\<rparr>)"
| t_enter: "y_tpc s = T_enter \<Longrightarrow> queue_pop_block_enter (y_q s) = Inr (r, q) \<Longrightarrow>
     tstep s (s\<lparr>y_q := q, y_tpc := popped r\<rparr>)"
| t_woken: "y_tpc s = T_woken \<Longrightarrow> queue_pop_block_woken (y_q s) = Inr (r, q) \<Longrightarrow>
     tstep s (s\<lparr>y_q := q, y_tpc := popped r\<rparr>)"
| t_leave: "y_tpc s = T_leave c \<Longrightarrow>
     tstep s (s\<lparr>y_q := queue_use_decrement (y_q s), y_tpc := T_got c\<rparr>)"
| t_null: "y_tpc s = T_got None \<Longrightarrow> tstep s (s\<lparr>y_tpc := T_relock\<rparr>)"
| t_send: "y_tpc s = T_got (Some c) \<Longrightarrow>
     tstep s (s\<lparr>y_sent := y_sent s @ [c], y_tpc := T_relock,
                y_late := (if y_keep s then y_late s else Suc (y_late s))\<rparr>)"
| t_fail: "y_tpc s = T_got (Some c) \<Longrightarrow>
     tstep s (s\<lparr>y_failed := y_failed s @ [c], y_tpc := T_break,
                y_late := (if y_keep s then y_late s else Suc (y_late s))\<rparr>)"
| t_relock: "y_tpc s = T_relock \<Longrightarrow> y_mtx s = None \<Longrightarrow>
     tstep s (s\<lparr>y_mtx := Some Thread, y_tpc := T_loop\<rparr>)"
| t_break: "y_tpc s = T_break \<Longrightarrow> y_mtx s = None \<Longrightarrow>
     tstep s (s\<lparr>y_mtx := Some Thread, y_tpc := T_exit\<rparr>)"
| t_exit: "y_tpc s = T_exit \<Longrightarrow> tstep s (s\<lparr>y_run := False, y_mtx := None, y_tpc := T_done\<rparr>)"

text \<open>
  The main thread. The last step stands for \<^verbatim>\<open>queue_destroy\<close> and the freeing of the sender, which happen when the other thread
  has ended and so are not interleaved with anything: what is still waiting is noted as dropped. That
  \<^verbatim>\<open>queue_destroy\<close>, on a queue that nobody uses, gives back every node and chunk is shown for the pointer structure in
  \<open>Iemnet_Queue\<close>.
\<close>

inductive mstep :: "sys \<Rightarrow> sys \<Rightarrow> bool" where
  m_send: "y_mpc s = M_idle \<Longrightarrow> y_mtx s = None \<Longrightarrow> y_run s \<Longrightarrow> mstep s (s\<lparr>y_mpc := M_push c\<rparr>)"
| m_push: "y_mpc s = M_push c \<Longrightarrow> queue_append c (y_q s) = Inr q \<Longrightarrow>
     mstep s (wake (s\<lparr>y_q := q, y_pushed := y_pushed s @ [c], y_mpc := M_idle\<rparr>))"
| m_destroy: "y_mpc s = M_idle \<Longrightarrow> y_mtx s = None \<Longrightarrow> y_keep s \<Longrightarrow>
     mstep s (s\<lparr>y_keep := False, y_mtx := Some Main, y_mpc := M_loop\<rparr>)"
| m_running: "y_mpc s = M_loop \<Longrightarrow> y_run s \<Longrightarrow> mstep s (s\<lparr>y_mpc := M_fin\<rparr>)"
| m_stopped: "y_mpc s = M_loop \<Longrightarrow> \<not> y_run s \<Longrightarrow> mstep s (s\<lparr>y_mtx := None, y_mpc := M_fin2\<rparr>)"
| m_fin: "y_mpc s = M_fin \<Longrightarrow>
     mstep s (wake (s\<lparr>y_q := queue_finish_signal (y_q s), y_mpc := M_finwait\<rparr>))"
| m_finwait: "y_mpc s = M_finwait \<Longrightarrow> q_used (y_q s) = 0 \<Longrightarrow>
     mstep s (s\<lparr>y_mtx := None, y_mpc := M_relock\<rparr>)"
| m_relock: "y_mpc s = M_relock \<Longrightarrow> y_mtx s = None \<Longrightarrow>
     mstep s (s\<lparr>y_mtx := Some Main, y_mpc := M_loop\<rparr>)"
| m_fin2: "y_mpc s = M_fin2 \<Longrightarrow>
     mstep s (wake (s\<lparr>y_q := queue_finish_signal (y_q s), y_mpc := M_finwait2\<rparr>))"
| m_finwait2: "y_mpc s = M_finwait2 \<Longrightarrow> q_used (y_q s) = 0 \<Longrightarrow> mstep s (s\<lparr>y_mpc := M_join\<rparr>)"
| m_join: "y_mpc s = M_join \<Longrightarrow> y_tpc s = T_done \<Longrightarrow> mstep s (s\<lparr>y_mpc := M_destroy\<rparr>)"
| m_drain: "y_mpc s = M_destroy \<Longrightarrow>
     mstep s (s\<lparr>y_dropped := queue_content (y_q s), y_mpc := M_freed\<rparr>)"

text \<open>POSIX allows a wait to return without a signal.\<close>

inductive spurious :: "sys \<Rightarrow> sys \<Rightarrow> bool" where
  spurious: "y_tpc s = T_waiting \<Longrightarrow> spurious s (s\<lparr>y_tpc := T_woken\<rparr>)"

inductive reach :: "sys \<Rightarrow> bool" where
  reach_init: "reach sys_init"
| reach_tstep: "reach s \<Longrightarrow> tstep s t \<Longrightarrow> reach t"
| reach_mstep: "reach s \<Longrightarrow> mstep s t \<Longrightarrow> reach t"
| reach_spurious: "reach s \<Longrightarrow> spurious s t \<Longrightarrow> reach t"

section \<open>Invariant\<close>

text \<open>The chunk the thread has taken out of the queue and not disposed of yet.\<close>

fun inflight :: "thread_pc \<Rightarrow> t_iemnet_chunk list" where
  "inflight (T_leave (Some c)) = [c]"
| "inflight (T_got (Some c)) = [c]"
| "inflight _ = []"

fun in_pop :: "thread_pc \<Rightarrow> bool" where
  "in_pop T_enter = True" | "in_pop T_waiting = True" | "in_pop T_woken = True"
| "in_pop (T_leave _) = True" | "in_pop _ = False"

fun in_call :: "thread_pc \<Rightarrow> bool" where
  "in_call T_pop = True" | "in_call (T_got _) = True" | "in_call pc = in_pop pc"

fun ending :: "thread_pc \<Rightarrow> bool" where
  "ending T_break = True" | "ending T_exit = True" | "ending T_done = True" | "ending _ = False"

fun main_holds :: "main_pc \<Rightarrow> bool" where
  "main_holds M_loop = True" | "main_holds M_fin = True" | "main_holds M_finwait = True"
| "main_holds _ = False"

fun main_using :: "main_pc \<Rightarrow> bool" where
  "main_using M_idle = True" | "main_using (M_push _) = True" | "main_using _ = False"

fun main_after_loop :: "main_pc \<Rightarrow> bool" where
  "main_after_loop M_fin2 = True" | "main_after_loop M_finwait2 = True" | "main_after_loop M_join = True"
| "main_after_loop M_destroy = True" | "main_after_loop M_freed = True" | "main_after_loop _ = False"

definition order_inv :: "sys \<Rightarrow> bool" where
  "order_inv s \<longleftrightarrow> queue_inv (y_q s) \<and>
     y_pushed s = y_sent s @ y_failed s @ inflight (y_tpc s) @ queue_content (y_q s) \<and>
     (y_failed s = [] \<or> ending (y_tpc s) \<and> length (y_failed s) = 1)"

definition lock_inv :: "sys \<Rightarrow> bool" where
  "lock_inv s \<longleftrightarrow>
     (y_mtx s = Some Thread \<longleftrightarrow> y_tpc s = T_loop \<or> y_tpc s = T_exit) \<and>
     (y_mtx s = Some Main \<longleftrightarrow> main_holds (y_mpc s)) \<and>
     q_used (y_q s) = (if in_pop (y_tpc s) then 1 else 0) \<and>
     (y_run s \<longleftrightarrow> y_tpc s \<noteq> T_done) \<and>
     (y_keep s \<longleftrightarrow> main_using (y_mpc s)) \<and>
     (main_after_loop (y_mpc s) \<longrightarrow> y_tpc s = T_done) \<and>
     (q_done (y_q s) \<longrightarrow> \<not> y_keep s)"

definition late_inv :: "sys \<Rightarrow> bool" where
  "late_inv s \<longleftrightarrow> (if y_keep s then y_late s = 0
     else y_late s + (if in_call (y_tpc s) then 1 else 0) \<le> 1)"

lemmas thread_invs = order_inv_def lock_inv_def late_inv_def

lemma pop_block_enter_cases:
  assumes "queue_inv q"
  shows "queue_content q = [] \<Longrightarrow> queue_pop_block_enter q = Inr (Waiting, q)"
    and "queue_content q = c # cs \<Longrightarrow> \<exists>q'. queue_pop_block_enter q = Inr (Popped (Some c), q') \<and>
      queue_inv q' \<and> queue_content q' = cs \<and> q_done q' = q_done q \<and> q_used q' = q_used q"
proof -
  show "queue_content q = [] \<Longrightarrow> queue_pop_block_enter q = Inr (Waiting, q)"
    using queue_inv_head [OF assms] by (simp add: queue_pop_block_enter_def)
  assume c: "queue_content q = c # cs"
  obtain q' where "queue_unlink q = Inr (Some c, q')" "queue_inv q'" "queue_content q' = cs"
    "q_done q' = q_done q" "q_used q' = q_used q"
    by (rule queue_inv_unlink [OF assms c])
  with queue_inv_head [OF assms] c show "\<exists>q'. queue_pop_block_enter q = Inr (Popped (Some c), q') \<and>
      queue_inv q' \<and> queue_content q' = cs \<and> q_done q' = q_done q \<and> q_used q' = q_used q"
    by (simp add: queue_pop_block_enter_def)
qed

text \<open>What a pop does, whichever way it was entered.\<close>

lemma pop_block_effect:
  assumes "queue_inv q" and "queue_pop_block_enter q = Inr (r, q') \<or> queue_pop_block_woken q = Inr (r, q')"
  shows "queue_inv q' \<and> q_done q' = q_done q \<and> q_used q' = q_used q \<and>
    queue_content q = inflight (popped r) @ queue_content q' \<and> in_pop (popped r)"
proof -
  have enter: "queue_inv q' \<and> q_done q' = q_done q \<and> q_used q' = q_used q \<and>
    queue_content q = inflight (popped r) @ queue_content q' \<and> in_pop (popped r)"
    if "queue_pop_block_enter q = Inr (r, q')"
  proof (cases "queue_content q")
    case Nil
    with pop_block_enter_cases(1) [OF assms(1)] that assms(1) show ?thesis by (auto simp: popped_def)
  next
    case (Cons c cs)
    with pop_block_enter_cases(2) [OF assms(1) this] that show ?thesis by (auto simp: popped_def)
  qed
  show ?thesis
  proof (cases "queue_pop_block_enter q = Inr (r, q')")
    case False
    with assms(2) have "queue_pop_block_woken q = Inr (r, q')" by simp
    with False assms(1) show ?thesis
      by (auto simp: queue_pop_block_woken_def popped_def split: if_splits)
  qed (rule enter)
qed

lemma tstep_order_inv:
  assumes "tstep s t" "order_inv s"
  shows "order_inv t"
  using assms
proof cases
  case (t_enter r q)
  with pop_block_effect [of "y_q s" r q] assms(2) show ?thesis by (auto simp: order_inv_def)
next
  case (t_woken r q)
  with pop_block_effect [of "y_q s" r q] assms(2) show ?thesis by (auto simp: order_inv_def)
next
  case (t_leave c)
  with assms(2) show ?thesis by (cases c) (auto simp: order_inv_def queue_use_decrement_def)
qed (auto simp: order_inv_def queue_use_increment_def)

lemma wake_sel [simp]:
  "y_q (wake s) = y_q s" "y_keep (wake s) = y_keep s" "y_run (wake s) = y_run s"
  "y_mtx (wake s) = y_mtx s" "y_mpc (wake s) = y_mpc s" "y_pushed (wake s) = y_pushed s"
  "y_sent (wake s) = y_sent s" "y_failed (wake s) = y_failed s" "y_dropped (wake s) = y_dropped s"
  "y_late (wake s) = y_late s"
  by (simp_all add: wake_def)

lemma wake_tpc:
  "y_tpc (wake s) = (if y_tpc s = T_waiting then T_woken else y_tpc s)"
  by (simp add: wake_def)

lemma mstep_order_inv:
  assumes "mstep s t" "order_inv s"
  shows "order_inv t"
  using assms
proof cases
  case (m_push c q)
  from assms(2) have "queue_inv (y_q s)" by (simp add: order_inv_def)
  then obtain q' where "queue_append c (y_q s) = Inr q'" "queue_inv q'"
    "queue_content q' = queue_content (y_q s) @ [c]"
    by (rule queue_inv_append)
  with m_push assms(2) show ?thesis by (auto simp: order_inv_def wake_tpc)
qed (auto simp: order_inv_def wake_tpc queue_finish_signal_def)

lemma tstep_lock_inv:
  assumes "tstep s t" "lock_inv s" "queue_inv (y_q s)"
  shows "lock_inv t"
  using assms(1)
proof cases
  case (t_enter r q)
  with pop_block_effect [of "y_q s" r q] assms(2,3) show ?thesis
    by (auto simp: lock_inv_def popped_def split: pop_state.splits)
next
  case (t_woken r q)
  with pop_block_effect [of "y_q s" r q] assms(2,3) show ?thesis
    by (auto simp: lock_inv_def popped_def split: pop_state.splits)
qed (use assms(2) in \<open>auto simp: lock_inv_def queue_use_increment_def queue_use_decrement_def\<close>)

lemma mstep_lock_inv:
  assumes "mstep s t" "lock_inv s" "queue_inv (y_q s)"
  shows "lock_inv t"
  using assms(1)
proof cases
  case (m_push c q)
  from assms(3) obtain q' where "queue_append c (y_q s) = Inr q'"
    "q_done q' = q_done (y_q s)" "q_used q' = q_used (y_q s)"
    by (rule queue_inv_append)
  with m_push assms(2) show ?thesis by (auto simp: lock_inv_def wake_tpc)
qed (use assms(2) in \<open>auto simp: lock_inv_def wake_tpc queue_finish_signal_def\<close>)

lemma tstep_late_inv:
  assumes "tstep s t" "late_inv s"
  shows "late_inv t"
  using assms by cases (auto simp: late_inv_def popped_def split: if_splits pop_state.splits)

lemma mstep_late_inv:
  assumes "mstep s t" "late_inv s" "lock_inv s"
  shows "late_inv t"
  using assms by cases (auto simp: late_inv_def lock_inv_def wake_tpc split: if_splits)

lemma spurious_invs:
  assumes "spurious s t" "order_inv s" "lock_inv s" "late_inv s"
  shows "order_inv t \<and> lock_inv t \<and> late_inv t"
  using assms by cases (auto simp: thread_invs)

lemma sys_init_invs: "order_inv sys_init \<and> lock_inv sys_init \<and> late_inv sys_init"
  by (simp add: thread_invs sys_init_def) (simp add: queue_empty_def)

lemma reach_invs: "reach s \<Longrightarrow> order_inv s \<and> lock_inv s \<and> late_inv s"
proof (induction rule: reach.induct)
  case reach_init
  show ?case by (rule sys_init_invs)
next
  case (reach_tstep s t)
  then have "queue_inv (y_q s)" by (simp add: order_inv_def)
  with reach_tstep show ?case
    by (blast intro: tstep_order_inv tstep_lock_inv tstep_late_inv)
next
  case (reach_mstep s t)
  then have "queue_inv (y_q s)" by (simp add: order_inv_def)
  with reach_mstep show ?case
    by (blast intro: mstep_order_inv mstep_lock_inv mstep_late_inv)
next
  case (reach_spurious s t)
  then show ?case by (blast dest: spurious_invs)
qed

section \<open>Progress and deadlock\<close>

definition stuck :: "sys \<Rightarrow> bool" where
  "stuck s \<longleftrightarrow> (\<forall>t. \<not> tstep s t) \<and> (\<forall>t. \<not> mstep s t)"

text \<open>
  The main thread waits, holding the sender's mutex, for a pop to return that waits for a signal
  which has already been given.
\<close>

definition lost_wakeup :: "sys \<Rightarrow> bool" where
  "lost_wakeup s \<longleftrightarrow> y_mpc s = M_finwait \<and> y_tpc s = T_waiting"

lemma thread_can_step:
  assumes "order_inv s" "lock_inv s" "y_tpc s \<noteq> T_done" "y_tpc s \<noteq> T_waiting"
    and "y_mtx s = Some Main \<Longrightarrow> in_pop (y_tpc s)"
  shows "\<exists>t. tstep s t"
proof -
  from assms(1) have q: "queue_inv (y_q s)" by (simp add: order_inv_def)
  have enter: "\<exists>r q. queue_pop_block_enter (y_q s) = Inr (r, q)"
    using pop_block_enter_cases [OF q] by (cases "queue_content (y_q s)") auto
  then have woken: "\<exists>r q. queue_pop_block_woken (y_q s) = Inr (r, q)"
    by (auto simp: queue_pop_block_woken_def)
  have free: "y_mtx s = None" if "y_tpc s \<noteq> T_loop" "y_tpc s \<noteq> T_exit" "\<not> in_pop (y_tpc s)"
    using assms(2,5) that by (cases "y_mtx s") (auto simp: lock_inv_def intro: owner.exhaust)
  show ?thesis
  proof (cases "y_tpc s")
    case T_start
    with free show ?thesis by (auto intro: tstep.t_start)
  next
    case T_loop
    then show ?thesis by (cases "y_keep s") (blast intro: tstep.t_continue tstep.t_stop)+
  next
    case (T_got c)
    then show ?thesis by (cases c) (auto intro: tstep.t_null tstep.t_send)
  qed (use assms free enter woken in \<open>auto intro: tstep.intros\<close>)
qed

lemma main_can_step:
  assumes "order_inv s" "lock_inv s" "y_mpc s \<noteq> M_freed"
    and "y_mtx s \<noteq> Some Thread" "y_mpc s = M_finwait \<Longrightarrow> q_used (y_q s) = 0"
  shows "\<exists>t. mstep s t"
proof -
  have app: "\<exists>q. queue_append c (y_q s) = Inr q" for c
    using assms(1) queue_inv_append [of "y_q s" c] by (auto simp: order_inv_def)
  have free: "y_mtx s = None" if "\<not> main_holds (y_mpc s)"
    using assms(2,4) that by (cases "y_mtx s") (auto simp: lock_inv_def intro: owner.exhaust)
  show ?thesis
  proof (cases "y_mpc s")
    case M_idle
    with assms(2) free show ?thesis by (auto simp: lock_inv_def intro: mstep.m_destroy)
  next
    case (M_push c)
    with app show ?thesis by (blast intro: mstep.m_push)
  next
    case M_loop
    then show ?thesis by (cases "y_run s") (blast intro: mstep.m_running mstep.m_stopped)+
  next
    case M_finwait2
    with assms(2) have "q_used (y_q s) = 0" by (simp add: lock_inv_def)
    with M_finwait2 show ?thesis by (blast intro: mstep.m_finwait2)
  qed (use assms free in \<open>auto simp: lock_inv_def intro: mstep.intros\<close>)
qed

lemma stuck_cases:
  assumes "order_inv s" "lock_inv s" "stuck s"
  shows "y_mpc s = M_freed \<and> y_tpc s = T_done \<or> lost_wakeup s"
proof (cases "y_mpc s = M_freed")
  case True
  with assms(2) show ?thesis by (simp add: lock_inv_def)
next
  case False
  have nt: "y_mtx s \<noteq> Some Thread"
    using thread_can_step [OF assms(1,2)] assms(2,3) by (auto simp: lock_inv_def stuck_def)
  with main_can_step [OF assms(1,2) False] assms(3) have w: "y_mpc s = M_finwait" "q_used (y_q s) \<noteq> 0"
    by (auto simp: stuck_def)
  with assms(2) have pop: "in_pop (y_tpc s)" by (simp add: lock_inv_def split: if_splits)
  then have "y_tpc s \<noteq> T_done" by auto
  with thread_can_step [OF assms(1,2)] assms(3) pop have "y_tpc s = T_waiting"
    by (auto simp: stuck_def)
  with w show ?thesis by (simp add: lost_wakeup_def)
qed

text \<open>Once everything is freed, what was still queued has been dropped and nobody moves any more.\<close>

definition dropped_inv :: "sys \<Rightarrow> bool" where
  "dropped_inv s \<longleftrightarrow> (y_mpc s = M_freed \<longrightarrow> y_dropped s = queue_content (y_q s))"

lemma tstep_not_done: "tstep s t \<Longrightarrow> y_tpc s \<noteq> T_done \<and> y_mpc t = y_mpc s"
  by (cases rule: tstep.cases) auto

lemma reach_dropped_inv: "reach s \<Longrightarrow> dropped_inv s"
proof (induction rule: reach.induct)
  case reach_init
  show ?case by (simp add: dropped_inv_def sys_init_def)
next
  case (reach_tstep s t)
  from reach_invs [OF reach_tstep.hyps(1)] tstep_not_done [OF reach_tstep.hyps(2)]
  have "y_mpc t \<noteq> M_freed" by (auto simp: lock_inv_def)
  then show ?case by (simp add: dropped_inv_def)
next
  case (reach_mstep s t)
  then show ?case by (auto simp: dropped_inv_def elim: mstep.cases)
next
  case (reach_spurious s t)
  then show ?case by (auto simp: dropped_inv_def elim: spurious.cases)
qed

lemma finwait_done: "reach s \<Longrightarrow> y_mpc s = M_finwait \<Longrightarrow> q_done (y_q s)"
proof (induction rule: reach.induct)
  case reach_init
  then show ?case by (simp add: sys_init_def)
next
  case (reach_tstep s t)
  then have q: "queue_inv (y_q s)" using reach_invs by (auto simp: order_inv_def)
  from reach_tstep.hyps(2) have "q_done (y_q t) = q_done (y_q s)"
  proof cases
    case (t_enter r q')
    with pop_block_effect [OF q, of r q'] show ?thesis by simp
  next
    case (t_woken r q')
    with pop_block_effect [OF q, of r q'] show ?thesis by simp
  qed (simp_all add: queue_use_increment_def queue_use_decrement_def)
  with reach_tstep tstep_not_done show ?case by metis
next
  case (reach_mstep s t)
  from reach_mstep.hyps(2) reach_mstep.prems show ?case
    by cases (simp_all add: queue_finish_signal_def)
next
  case (reach_spurious s t)
  then show ?case by (auto elim: spurious.cases)
qed

section \<open>Two runs\<close>

text \<open>The thread has entered its loop and is about to pop.\<close>

definition sys_ready :: sys where
  "sys_ready = sys_init\<lparr>y_mtx := None, y_tpc := T_pop\<rparr>"

lemma reach_ready: "reach sys_ready"
proof -
  have "reach (sys_init\<lparr>y_mtx := Some Thread, y_tpc := T_loop\<rparr>)"
    by (rule reach_tstep [OF reach_init]) (rule tstep.t_start, simp_all add: sys_init_def)
  then have "reach (sys_init\<lparr>y_mtx := Some Thread, y_tpc := T_loop\<rparr>\<lparr>y_mtx := None, y_tpc := T_pop\<rparr>)"
    by (rule reach_tstep) (rule tstep.t_continue, simp_all add: sys_init_def)
  then show ?thesis by (simp add: sys_ready_def)
qed

text \<open>
  The destruction begins while the thread is between its test of \<^verbatim>\<open>keepsending\<close> and its wait in
  \<^verbatim>\<open>queue_pop_block\<close>; the signal is given before anybody waits for it.
\<close>

definition sys_signalled :: sys where
  "sys_signalled = sys_ready\<lparr>y_keep := False, y_mtx := Some Main, y_mpc := M_finwait,
     y_q := queue_finish_signal queue_empty\<rparr>"

lemma reach_signalled: "reach sys_signalled"
proof -
  have "reach (sys_ready\<lparr>y_keep := False, y_mtx := Some Main, y_mpc := M_loop\<rparr>)" (is "reach ?a")
    by (rule reach_mstep [OF reach_ready], rule mstep.m_destroy)
      (simp_all add: sys_ready_def sys_init_def)
  then have "reach (?a\<lparr>y_mpc := M_fin\<rparr>)" (is "reach ?b")
    by (rule reach_mstep) (rule mstep.m_running, simp_all add: sys_ready_def sys_init_def)
  then have "reach (wake (?b\<lparr>y_q := queue_finish_signal (y_q ?b), y_mpc := M_finwait\<rparr>))"
    by (rule reach_mstep) (rule mstep.m_fin, simp)
  then show ?thesis by (simp add: sys_signalled_def sys_ready_def sys_init_def wake_def)
qed

definition sys_deadlock :: sys where
  "sys_deadlock = sys_signalled\<lparr>y_q := queue_use_increment (queue_finish_signal queue_empty),
     y_tpc := T_waiting\<rparr>"

lemma reach_deadlock: "reach sys_deadlock"
proof -
  have "reach (sys_signalled\<lparr>y_q := queue_use_increment (y_q sys_signalled), y_tpc := T_enter\<rparr>)" (is "reach ?a")
    by (rule reach_tstep [OF reach_signalled]) (rule tstep.t_pop,
        simp add: sys_signalled_def sys_ready_def)
  then have "reach (?a\<lparr>y_q := y_q ?a, y_tpc := popped Waiting\<rparr>)"
    by (rule reach_tstep, intro tstep.t_enter)
      (simp_all add: queue_pop_block_enter_def sys_signalled_def queue_use_increment_def
        queue_finish_signal_def queue_empty_def)
  then show ?thesis by (simp add: sys_deadlock_def popped_def sys_signalled_def)
qed

lemma stuck_deadlock: "stuck sys_deadlock"
  by (auto simp: stuck_def sys_deadlock_def sys_signalled_def sys_ready_def queue_use_increment_def
      queue_finish_signal_def queue_empty_def elim!: tstep.cases mstep.cases)

text \<open>One chunk is queued while the thread is about to pop, and goes out.\<close>

definition sys_delivered :: "t_iemnet_chunk \<Rightarrow> sys" where
  "sys_delivered c = sys_ready\<lparr>y_pushed := [c], y_sent := [c], y_tpc := T_relock,
     y_q := queue_empty\<lparr>q_size := of_nat (c_size c) - of_nat (c_size c)\<rparr>\<rparr>"

lemma reach_delivered: "reach (sys_delivered c)"
proof -
  define q where "q = queue_empty\<lparr>q_head := Some 1, q_tail := Some 1, q_size := of_nat (c_size c),
    q_nodes := [(1, \<lparr>n_next = None, n_data = Some c\<rparr>)]\<rparr>"
  have ap: "queue_append c queue_empty = Inr q"
    by (simp add: queue_append_def queue_new_node_def queue_link_def queue_empty_def q_def
        heap_fresh_def heap_put_def)
  have en: "queue_pop_block_enter (queue_use_increment q) =
      Inr (Popped (Some c), queue_use_increment (queue_empty\<lparr>q_size := of_nat (c_size c) - of_nat (c_size c)\<rparr>))"
    by (simp add: queue_pop_block_enter_def queue_unlink_def q_def queue_use_increment_def
        queue_empty_def heap_free_def Let_def)
  note defs = sys_ready_def sys_init_def
  have "reach (sys_ready\<lparr>y_mpc := M_push c\<rparr>)" (is "reach ?p")
    by (rule reach_mstep [OF reach_ready]) (rule mstep.m_send, simp_all add: defs)
  then have "reach (wake (?p\<lparr>y_q := q, y_pushed := y_pushed ?p @ [c], y_mpc := M_idle\<rparr>))"
    by (rule reach_mstep) (rule mstep.m_push, simp_all add: defs ap)
  then have "reach (sys_ready\<lparr>y_q := q, y_pushed := [c]\<rparr>)" (is "reach ?a")
    by (simp add: wake_def defs)
  then have "reach (?a\<lparr>y_q := queue_use_increment (y_q ?a), y_tpc := T_enter\<rparr>)" (is "reach ?b")
    by (rule reach_tstep) (rule tstep.t_pop, simp add: defs)
  then have "reach (?b\<lparr>y_q := queue_use_increment (queue_empty\<lparr>q_size := of_nat (c_size c) - of_nat (c_size c)\<rparr>),
      y_tpc := popped (Popped (Some c))\<rparr>)" (is "reach ?c")
    by (rule reach_tstep) (rule tstep.t_enter, simp_all add: en)
  then have "reach (?c\<lparr>y_q := queue_use_decrement (y_q ?c), y_tpc := T_got (Some c)\<rparr>)" (is "reach ?d")
    by (rule reach_tstep) (rule tstep.t_leave, simp add: popped_def)
  then have "reach (?d\<lparr>y_sent := y_sent ?d @ [c], y_tpc := T_relock,
      y_late := (if y_keep ?d then y_late ?d else Suc (y_late ?d))\<rparr>)"
    by (rule reach_tstep) (rule tstep.t_send, simp)
  then show ?thesis
    by (simp add: sys_delivered_def defs queue_use_increment_def queue_use_decrement_def queue_empty_def)
qed

text \<open>A complete destruction, started while the thread is about to take the mutex again.\<close>

text \<open>A shutdown in two parts: until the thread has ended, and from there to the end of the destruction.\<close>

lemma reach_stopped:
  assumes "reach s" "y_mpc s = M_idle" "y_mtx s = None" "y_keep s" "y_run s" "y_tpc s = T_relock"
    "q_used (y_q s) = 0"
  shows "\<exists>t. reach t \<and> y_mpc t = M_relock \<and> y_mtx t = None \<and> \<not> y_run t \<and> y_tpc t = T_done \<and>
    q_used (y_q t) = 0 \<and> y_pushed t = y_pushed s"
proof -
  note defs = wake_def queue_finish_signal_def assms
  define s0 where "s0 = s\<lparr>y_keep := False, y_mtx := Some Main, y_mpc := M_loop\<rparr>"
  have r0: "reach s0" unfolding s0_def
    by (rule reach_mstep [OF assms(1)], rule mstep.m_destroy) (simp_all add: defs)
  define s1 where "s1 = s0\<lparr>y_mpc := M_fin\<rparr>"
  have r1: "reach s1" unfolding s1_def
    by (rule reach_mstep [OF r0], rule mstep.m_running) (simp_all add: defs s0_def)
  define s2 where "s2 = wake (s1\<lparr>y_q := queue_finish_signal (y_q s1), y_mpc := M_finwait\<rparr>)"
  have r2: "reach s2" unfolding s2_def
    by (rule reach_mstep [OF r1], rule mstep.m_fin) (simp_all add: defs s0_def s1_def)
  define s3 where "s3 = s2\<lparr>y_mtx := None, y_mpc := M_relock\<rparr>"
  note defs = defs s0_def s1_def s2_def
  have r3: "reach s3" unfolding s3_def
    by (rule reach_mstep [OF r2], rule mstep.m_finwait) (simp_all add: defs)
  define s4 where "s4 = s3\<lparr>y_mtx := Some Thread, y_tpc := T_loop\<rparr>"
  have r4: "reach s4" unfolding s4_def
    by (rule reach_tstep [OF r3], rule tstep.t_relock) (simp_all add: defs s3_def)
  define s5 where "s5 = s4\<lparr>y_tpc := T_exit\<rparr>"
  have r5: "reach s5" unfolding s5_def
    by (rule reach_tstep [OF r4], rule tstep.t_stop) (simp_all add: defs s3_def s4_def)
  define s6 where "s6 = s5\<lparr>y_run := False, y_mtx := None, y_tpc := T_done\<rparr>"
  have "reach s6" unfolding s6_def
    by (rule reach_tstep [OF r5], rule tstep.t_exit) (simp_all add: defs s3_def s4_def s5_def)
  then show ?thesis by (intro exI [of _ s6]) (simp add: defs s3_def s4_def s5_def s6_def)
qed

lemma reach_destroyed:
  assumes "reach s" "y_mpc s = M_relock" "y_mtx s = None" "\<not> y_run s" "y_tpc s = T_done" "q_used (y_q s) = 0"
  shows "\<exists>t. reach t \<and> y_mpc t = M_freed \<and> y_pushed t = y_pushed s"
proof -
  note defs = wake_def queue_finish_signal_def assms
  define s7 where "s7 = s\<lparr>y_mtx := Some Main, y_mpc := M_loop\<rparr>"
  have r7: "reach s7" unfolding s7_def
    by (rule reach_mstep [OF assms(1)], rule mstep.m_relock) (simp_all add: defs)
  define s8 where "s8 = s7\<lparr>y_mtx := None, y_mpc := M_fin2\<rparr>"
  have r8: "reach s8" unfolding s8_def
    by (rule reach_mstep [OF r7], rule mstep.m_stopped) (simp_all add: defs s7_def)
  define s9 where "s9 = wake (s8\<lparr>y_q := queue_finish_signal (y_q s8), y_mpc := M_finwait2\<rparr>)"
  note defs = defs s7_def s8_def
  have r9: "reach s9" unfolding s9_def
    by (rule reach_mstep [OF r8], rule mstep.m_fin2) (simp_all add: defs)
  define s10 where "s10 = s9\<lparr>y_mpc := M_join\<rparr>"
  have r10: "reach s10" unfolding s10_def
    by (rule reach_mstep [OF r9], rule mstep.m_finwait2) (simp_all add: defs s9_def)
  define s11 where "s11 = s10\<lparr>y_mpc := M_destroy\<rparr>"
  have r11: "reach s11" unfolding s11_def
    by (rule reach_mstep [OF r10], rule mstep.m_join) (simp_all add: defs s9_def s10_def)
  define s12 where "s12 = s11\<lparr>y_dropped := queue_content (y_q s11), y_mpc := M_freed\<rparr>"
  have "reach s12" unfolding s12_def
    by (rule reach_mstep [OF r11], rule mstep.m_drain) (simp_all add: defs s9_def s10_def s11_def)
  then show ?thesis by (intro exI [of _ s12]) (simp add: defs s9_def s10_def s11_def s12_def)
qed

lemma reach_shutdown:
  assumes "reach s" "y_mpc s = M_idle" "y_mtx s = None" "y_keep s" "y_run s" "y_tpc s = T_relock"
    "q_used (y_q s) = 0"
  shows "\<exists>t. reach t \<and> y_mpc t = M_freed \<and> y_pushed t = y_pushed s"
  using reach_stopped [OF assms] reach_destroyed by metis

section \<open>Properties\<close>

text \<open>
  C2. In-order delivery under every interleaving of the main thread and the send thread, spurious
  wake-ups included: at any moment, the chunks queued so far are, in this order, those sent, the
  one whose transmission failed (if any), the one the thread is working on (if any) and those still
  in the queue. In particular what was sent is a prefix of what was queued.
\<close>

theorem send_in_order:
  assumes "reach s"
  shows "y_pushed s = y_sent s @ y_failed s @ inflight (y_tpc s) @ queue_content (y_q s) \<and>
    length (y_failed s) \<le> 1 \<and> length (inflight (y_tpc s)) \<le> 1"
proof -
  have "order_inv s" using reach_invs [OF assms] by blast
  moreover have "length (inflight (y_tpc s)) \<le> 1" by (cases "y_tpc s" rule: inflight.cases) auto
  ultimately show ?thesis by (auto simp: order_inv_def)
qed

theorem send_in_order_witness:
  "\<exists>s. reach s \<and> y_pushed s = [sample_chunk 1] \<and>
    y_pushed s = y_sent s @ y_failed s @ inflight (y_tpc s) @ queue_content (y_q s)"
proof -
  have "y_pushed (sys_delivered (sample_chunk 1)) = [sample_chunk 1]" by (simp add: sys_delivered_def)
  with reach_delivered [of "sample_chunk 1"] send_in_order [OF reach_delivered [of "sample_chunk 1"]]
  show ?thesis by blast
qed

text \<open>
  C8. When the destruction of a sender has finished, its thread has terminated before the queue was
  freed, nobody is inside the queue, the mutex is free, and every chunk ever queued was either sent,
  failed, or was freed unsent: no chunk is used after it was freed.
\<close>

theorem destroy_completes_cleanly:
  assumes "reach s" "y_mpc s = M_freed"
  shows "y_tpc s = T_done \<and> q_used (y_q s) = 0 \<and> y_mtx s = None \<and>
    y_pushed s = y_sent s @ y_failed s @ y_dropped s"
proof -
  from reach_invs [OF assms(1)] have i: "order_inv s" "lock_inv s" by auto
  then have "y_tpc s = T_done" using assms(2) by (simp add: lock_inv_def)
  moreover have "y_mtx s = None"
    using i(2) assms(2) calculation by (cases "y_mtx s") (auto simp: lock_inv_def intro: owner.exhaust)
  ultimately show ?thesis
    using i reach_dropped_inv [OF assms(1)] assms(2)
    by (simp add: order_inv_def lock_inv_def dropped_inv_def)
qed

theorem destroy_completes_cleanly_witness:
  "\<exists>s. reach s \<and> y_mpc s = M_freed \<and> y_pushed s = [sample_chunk 1] \<and>
    y_tpc s = T_done \<and> y_pushed s = y_sent s @ y_failed s @ y_dropped s"
proof -
  obtain t where t: "reach t" "y_mpc t = M_freed" "y_pushed t = y_pushed (sys_delivered (sample_chunk 1))"
    using reach_shutdown [OF reach_delivered [of "sample_chunk 1"]]
    by (auto simp: sys_delivered_def sys_ready_def sys_init_def queue_empty_def)
  with destroy_completes_cleanly [OF t(1,2)] show ?thesis
    by (auto simp: sys_delivered_def)
qed

text \<open>
  After a destruction has begun the thread transmits at most one more chunk: the one it had already
  taken, or was about to take, out of the queue.
\<close>

lemma late_send_bound:
  assumes "reach s"
  shows "y_late s \<le> 1 \<and> (y_keep s \<longrightarrow> y_late s = 0)"
  using reach_invs [OF assms] by (auto simp: late_inv_def split: if_splits)

text \<open>
  C29. Mutual exclusion and memory safety of the shared queue: at most one thread holds the sender's
  mutex, the use counter tells exactly whether the thread is inside a pop, and neither a pop nor a
  push runs into a dangling pointer, in any reachable state.
\<close>

theorem shared_queue_safe:
  assumes "reach s"
  shows "\<not> (main_holds (y_mpc s) \<and> (y_tpc s = T_loop \<or> y_tpc s = T_exit)) \<and>
    q_used (y_q s) = (if in_pop (y_tpc s) then 1 else 0) \<and>
    (\<exists>r q. queue_pop_block_enter (y_q s) = Inr (r, q)) \<and> (\<exists>r q. queue_pop_block_woken (y_q s) = Inr (r, q)) \<and>
    (\<forall>c. \<exists>q. queue_append c (y_q s) = Inr q)"
proof -
  from reach_invs [OF assms] have i: "queue_inv (y_q s)" "lock_inv s" by (auto simp: order_inv_def)
  have enter: "\<exists>r q. queue_pop_block_enter (y_q s) = Inr (r, q)"
    using pop_block_enter_cases [OF i(1)] by (cases "queue_content (y_q s)") auto
  then have "\<exists>r q. queue_pop_block_woken (y_q s) = Inr (r, q)"
    by (auto simp: queue_pop_block_woken_def)
  moreover have "\<exists>q. queue_append c (y_q s) = Inr q" for c
    by (rule queue_inv_append [OF i(1), of c]) blast
  moreover have "q_used (y_q s) = (if in_pop (y_tpc s) then 1 else 0)"
    "\<not> (main_holds (y_mpc s) \<and> (y_tpc s = T_loop \<or> y_tpc s = T_exit))"
    using i(2) unfolding lock_inv_def by auto
  ultimately show ?thesis using enter by blast
qed

theorem shared_queue_safe_witness:
  "reach sys_signalled \<and> (\<exists>r q. queue_pop_block_enter (y_q sys_signalled) = Inr (r, q))"
  using shared_queue_safe [OF reach_signalled] reach_signalled by blast

text \<open>
  C15. The only way in which the two threads can get stuck: either the destruction is complete, or the
  main thread waits in \<^verbatim>\<open>queue_finish\<close> for a pop to return while that pop waits for a signal.
\<close>

theorem stuck_only_by_lost_wakeup:
  assumes "reach s" "\<forall>t. \<not> tstep s t" "\<forall>t. \<not> mstep s t"
  shows "y_mpc s = M_freed \<and> y_tpc s = T_done \<or>
    y_mpc s = M_finwait \<and> y_tpc s = T_waiting \<and> q_done (y_q s)"
proof -
  from reach_invs [OF assms(1)] have i: "order_inv s" "lock_inv s" by auto
  with stuck_cases [OF i] assms(2,3) finwait_done [OF assms(1)] show ?thesis
    by (auto simp: stuck_def lost_wakeup_def)
qed

theorem stuck_only_by_lost_wakeup_witness:
  "y_mpc sys_deadlock = M_freed \<and> y_tpc sys_deadlock = T_done \<or>
    y_mpc sys_deadlock = M_finwait \<and> y_tpc sys_deadlock = T_waiting \<and> q_done (y_q sys_deadlock)"
  using stuck_only_by_lost_wakeup [OF reach_deadlock] stuck_deadlock by (simp add: stuck_def)

text \<open>
  C14. That deadlock does happen: \<^verbatim>\<open>queue_pop_block\<close> does not look at the flag \<^verbatim>\<open>done\<close> before it waits, so
  a destruction that begins between the thread's test of \<^verbatim>\<open>keepsending\<close> and its wait signals too
  early. Neither thread can move any more, although the queue is marked as finished.
\<close>

theorem destroy_can_deadlock:
  "\<exists>s. reach s \<and> (\<forall>t. \<not> tstep s t) \<and> (\<forall>t. \<not> mstep s t) \<and> y_mpc s \<noteq> M_freed \<and>
    q_done (y_q s) \<and> y_pushed s = []"
proof (intro exI conjI)
  show "reach sys_deadlock" by (rule reach_deadlock)
  show "\<forall>t. \<not> tstep sys_deadlock t" "\<forall>t. \<not> mstep sys_deadlock t"
    using stuck_deadlock by (simp_all add: stuck_def)
qed (simp_all add: sys_deadlock_def sys_signalled_def sys_ready_def sys_init_def queue_use_increment_def
    queue_finish_signal_def)

end
