(* ===== verification/Iemnet_Receiver.thy ===== *)
theory Iemnet_Receiver
  imports Iemnet_Core
begin

text \<open>
  The receiver of \<^verbatim>\<open>iemnet_receiver.c\<close>: registered with Pd's poll loop, it reads what is available
  on its socket and hands it to a callback as a chunk, or NULL when there is nothing to read any
  more. The callback is a parameter, as in the code.
\<close>

record t_iemnet_receiver =
  r_sockfd :: int
  r_userdata :: ptr

abbreviation (input) INBUFSIZE :: nat where "INBUFSIZE \<equiv> 65536"
abbreviation (input) MSG_DONTWAIT :: int where "MSG_DONTWAIT \<equiv> 64"

type_synonym 'w receivecallback = "ptr \<Rightarrow> t_iemnet_chunk option \<Rightarrow> 'w world_scheme \<Rightarrow> 'w world_scheme res"

text \<open>
  The buffer after \<^verbatim>\<open>recvfrom\<close>: the bytes received, then what the stack held before (shown as
  zeros; no theorem depends on them).
\<close>

definition recv_buffer :: "8 word list \<Rightarrow> 8 word list" where
  "recv_buffer bs = take INBUFSIZE (bs @ replicate INBUFSIZE 0)"

definition pollfun ::
    "'w receivecallback \<Rightarrow> t_iemnet_receiver \<Rightarrow> 'w world_scheme \<Rightarrow> 'w world_scheme res" where
  "pollfun callback rec w =
     (let (r, w) = sys_call ''recvfrom'' [r_sockfd rec, int INBUFSIZE, MSG_DONTWAIT] w;
          result = a_ret r
      in res_bind (iemnet__chunk_create_dataaddr result
             (if result > 0 then Some (recv_buffer (a_data r)) else None) (Some (a_from r)) w)
           (\<lambda>(chunk, w). res_bind (callback (r_userdata rec) chunk w)
             (\<lambda>w. Inr (iemnet__chunk_destroy chunk w))))"

definition iemnet__receiver_create ::
    "int \<Rightarrow> ptr \<Rightarrow> bool \<Rightarrow> 'w world_scheme \<Rightarrow> t_iemnet_receiver option \<times> 'w world_scheme" where
  "iemnet__receiver_create sock userdata subthread w =
     (let (ok, w) = malloc w in
      if ok then
        let w = (if subthread then emit Sys_lock w else w);
            w = emit (Sys_addpollfn sock) w;
            w = (if subthread then emit Sys_unlock w else w)
        in (Some \<lparr>r_sockfd = sock, r_userdata = userdata\<rparr>, w)
      else (None, w))"

definition iemnet__receiver_destroy ::
    "t_iemnet_receiver option \<Rightarrow> bool \<Rightarrow> 'w world_scheme \<Rightarrow> 'w world_scheme" where
  "iemnet__receiver_destroy rec subthread w = (case rec of None \<Rightarrow> w
     | Some rec \<Rightarrow>
         let w = (if subthread then emit Sys_lock w else w);
             w = emit (Sys_rmpollfn (r_sockfd rec)) w;
             w = (if subthread then emit Sys_unlock w else w)
         in free w)"

definition iemnet__receiver_getsize :: "t_iemnet_receiver option \<Rightarrow> int" where
  "iemnet__receiver_getsize x = (if x \<noteq> None then 0 else -1)"

text \<open>The operating system keeps to the buffer: a positive result is the number of bytes stored.\<close>

definition recv_sane :: "sysret \<Rightarrow> bool" where
  "recv_sane r \<longleftrightarrow> a_ret r \<le> 65536 \<and> (a_ret r > 0 \<longrightarrow> int (length (a_data r)) = a_ret r)"

definition received_chunk :: "sysret \<Rightarrow> t_iemnet_chunk" where
  "received_chunk r = \<lparr>c_data = Some (a_data r), c_size = length (a_data r),
     c_addr = ntohl (sin_addr (a_from r)), c_port = ntohs (sin_port (a_from r)),
     c_family = sin_family (a_from r)\<rparr>"

lemma take_recv_buffer: "length bs \<le> 65536 \<Longrightarrow> take (length bs) (recv_buffer bs) = bs"
  by (simp add: recv_buffer_def min_def)

lemma recv_chunk_result:
  assumes "recv_sane r"
  obtains c w' where "iemnet__chunk_create_dataaddr (a_ret r)
      (if a_ret r > 0 then Some (recv_buffer (a_data r)) else None) (Some (a_from r)) w = Inr (c, w')"
    "mem_step w (if c = None then 0 else 2) w'"
    "c = None \<or> a_ret r > 0 \<and> c = Some (received_chunk r)" "mem_ok w \<longrightarrow> (c = None) = (a_ret r \<le> 0)"
proof -
  let ?d = "if a_ret r > 0 then Some (recv_buffer (a_data r)) else None"
  have "a_ret r < 1 \<or> (\<exists>bs. ?d = Some bs \<and> nat (a_ret r) \<le> length bs)"
    using assms by (auto simp: recv_buffer_def recv_sane_def)
  then obtain c w' where d: "iemnet__chunk_create_data (a_ret r) ?d w = Inr (c, w')"
    using chunk_create_data_safe [of "a_ret r" ?d w] by blast
  have len: "nat (a_ret r) = length (a_data r)" "length (a_data r) \<le> 65536" if "a_ret r > 0"
    using assms that by (auto simp: recv_sane_def)
  note res = chunk_create_data_result [OF d]
  show thesis
  proof (cases c)
    case None
    then show ?thesis using that [of None w'] res d by (auto simp: iemnet__chunk_create_dataaddr_def)
  next
    case (Some c')
    with res have pos: "a_ret r > 0" by auto
    with Some res len have c': "c' = \<lparr>c_data = Some (a_data r), c_size = length (a_data r),
        c_addr = 0, c_port = 0, c_family = AF_INET\<rparr>"
      by (auto simp: take_recv_buffer)
    have "iemnet__chunk_create_dataaddr (a_ret r) ?d (Some (a_from r)) w = Inr (Some (received_chunk r), w')"
      unfolding iemnet__chunk_create_dataaddr_def d Some c' by (simp add: received_chunk_def)
    then show ?thesis using that res Some pos by auto
  qed
qed

lemma wf_received_chunk: "recv_sane r \<Longrightarrow> 0 < a_ret r \<Longrightarrow> wf_chunk (received_chunk r)"
  by (auto simp: wf_chunk_def received_chunk_def recv_sane_def)

lemma pollfun_result:
  assumes "w_sys w = r # rs" "recv_sane r" "mem_ok w"
  shows "\<exists>w1. pollfun callback rec w =
      (let c = if 0 < a_ret r then Some (received_chunk r) else None in
       res_bind (callback (r_userdata rec) c w1) (\<lambda>w'. Inr (iemnet__chunk_destroy c w'))) \<and>
    world.more w1 = world.more w \<and> w_sys w1 = rs \<and> mem_ok w1 \<and>
    w_io w1 = w_io w @ [Syscall ''recvfrom'' [r_sockfd rec, 65536, MSG_DONTWAIT] (a_ret r)]"
proof -
  let ?args = "[r_sockfd rec, 65536, MSG_DONTWAIT]"
  obtain w0 where w0: "sys_call ''recvfrom'' ?args w = (r, w0)" "w_sys w0 = rs" "mem_ok w0"
    "world.more w0 = world.more w" "w_io w0 = w_io w @ [Syscall ''recvfrom'' ?args (a_ret r)]"
    using assms(1,3) by (simp add: sys_call_def sys_answer_def mem_ok_def)
  obtain c w1 where c: "iemnet__chunk_create_dataaddr (a_ret r)
      (if a_ret r > 0 then Some (recv_buffer (a_data r)) else None) (Some (a_from r)) w0 = Inr (c, w1)"
    "mem_step w0 (if c = None then 0 else 2) w1"
    "c = None \<or> a_ret r > 0 \<and> c = Some (received_chunk r)" "mem_ok w0 \<longrightarrow> (c = None) = (a_ret r \<le> 0)"
    by (rule recv_chunk_result [OF assms(2)])
  then have "c = (if 0 < a_ret r then Some (received_chunk r) else None)" using w0(3) by auto
  with c w0 show ?thesis
    by (auto simp: pollfun_def mem_step_def Let_def intro!: exI [of _ w1])
qed

text \<open>
  The callback gets NULL when the connection was closed, when reading failed for whatever reason, and also when there
  is no memory for the data that was read: it cannot tell these cases apart.
\<close>

lemma pollfun_gone:
  assumes "w_sys w = r # rs" "recv_sane r" "a_ret r \<le> 0 \<or> \<not> list_all id (take 2 (w_malloc w))"
  obtains w1 where "pollfun callback rec w =
      res_bind (callback (r_userdata rec) None w1) (\<lambda>w'. Inr (iemnet__chunk_destroy None w'))"
    "world.more w1 = world.more w" "w_sys w1 = rs"
    "w_io w1 = w_io w @ [Syscall ''recvfrom'' [r_sockfd rec, 65536, MSG_DONTWAIT] (a_ret r)]"
proof -
  let ?args = "[r_sockfd rec, 65536, MSG_DONTWAIT]"
  obtain w0 where w0: "sys_call ''recvfrom'' ?args w = (r, w0)" "w_sys w0 = rs" "w_malloc w0 = w_malloc w"
    "world.more w0 = world.more w" "w_io w0 = w_io w @ [Syscall ''recvfrom'' ?args (a_ret r)]"
    using assms(1) by (simp add: sys_call_def sys_answer_def)
  have "a_ret r < 1 \<or> \<not> list_all id (take 2 (w_malloc w0))" using assms(3) w0(3) by auto
  then obtain v where v: "iemnet__chunk_create_empty (a_ret r) w0 = (None, v)"
    using chunk_create_empty_none by (metis prod.collapse)
  from chunk_create_empty_result [OF v] have "mem_step w0 0 v" by simp
  moreover have "iemnet__chunk_create_dataaddr (a_ret r) d a w0 = Inr (None, v)" for d a
    by (simp add: iemnet__chunk_create_dataaddr_def iemnet__chunk_create_data_def v)
  ultimately show thesis using that [of v] w0 by (auto simp: pollfun_def mem_step_def)
qed

text \<open>Two bytes from port 258 of the local host.\<close>

definition sample_recv :: sysret where
  "sample_recv = (sys_ret 2)\<lparr>a_data := [104, 105],
     a_from := \<lparr>sin_family = AF_INET, sin_addr = In_addr 127 0 0 1, sin_port = In_port 1 2\<rparr>\<rparr>"

lemma sample_recv_sane [simp]: "recv_sane sample_recv" "a_ret sample_recv = 2" "a_data sample_recv = [104, 105]"
  by (simp_all add: recv_sane_def sample_recv_def)

end
