(* ===== verification/Object_Common.thy ===== *)
theory Object_Common
  imports Iemnet_Sender Iemnet_Receiver
begin

text \<open>
  What the networking objects share: small pieces of code that several of them contain, and how the
  operations of senders, receivers and outlets look from inside an object: which sockets get closed, what
  leaves the message outlet, how many blocks of memory are given back.
\<close>

unbundle bit_operations_syntax

section \<open>Shared code\<close>

abbreviation (input) MAX_CONNECT :: nat where "MAX_CONNECT \<equiv> 32"

text \<open>The host name: the quads of the address in decimal, separated by dots.\<close>

definition dotted_quads :: "32 word \<Rightarrow> string" where
  "dotted_quads a = (let q = map (\<lambda>x. show_nat (unat (ucast x :: 8 word))) (addr_quads a) in
     q ! 0 @ ''.'' @ q ! 1 @ ''.'' @ q ! 2 @ ''.'' @ q ! 3)"

fun name_port :: "sockaddr_storage \<Rightarrow> 16 word" where
  "name_port (SA_INET _ p) = ntohs p"
| "name_port (SA_INET6 _ p) = ntohs p"
| "name_port _ = 0"

text \<open>\<^verbatim>\<open>setsockopt\<close> with the value 1; a failure is only reported.\<close>

definition enable_option :: "int \<Rightarrow> int \<Rightarrow> int \<Rightarrow> string \<Rightarrow> string \<Rightarrow> 'w world_scheme \<Rightarrow> 'w world_scheme" where
  "enable_option sockfd level optname msg err w =
     (let (r, w) = sys_call ''setsockopt'' [sockfd, level, optname, 1] w in
      if a_ret r < 0 then emit (Sys_sockerror err) (emit (Iemnet_log IEMNET_ERROR msg []) w) else w)"

text \<open>
  \<^verbatim>\<open>resizebytes\<close> is Pd's: it keeps the common part of the block; the cells it adds hold \<open>pad i\<close>.
  The object relies on them being NULL.
\<close>

definition resize_cells :: "(nat \<Rightarrow> ptr) \<Rightarrow> ptr list \<Rightarrow> nat \<Rightarrow> ptr list" where
  "resize_cells pad sr n = map (\<lambda>i. if i < length sr then sr ! i else pad i) [0..<n]"

text \<open>\<^verbatim>\<open>outlet_list\<close> of the first \<^verbatim>\<open>argc\<close> atoms of a float list on the message outlet.\<close>

definition outlet_floatlist :: "t_iemnet_floatlist \<Rightarrow> 'w world_scheme \<Rightarrow> 'w world_scheme res" where
  "outlet_floatlist fl w = (case fl_argv fl of
     None \<Rightarrow> (if fl_argc fl = 0 then Inr (emit (Outlet_list Msgout ''list'' []) w) else Inl NullDeref)
   | Some av \<Rightarrow> (if fl_argc fl \<le> length av
       then Inr (emit (Outlet_list Msgout ''list'' (take (fl_argc fl) av)) w)
       else Inl (OutOfBounds (length av))))"

text \<open>\<^verbatim>\<open>gethostbyname\<close>: the address, or NULL.\<close>

definition gethostbyname :: "string \<Rightarrow> 'w world_scheme \<Rightarrow> sysret \<times> 'w world_scheme" where
  "gethostbyname name w = sys_call (''gethostbyname '' @ name) [] w"

lemma gethostbyname_snd [simp]:
  "world.more (snd (gethostbyname name w)) = world.more w" "w_live (snd (gethostbyname name w)) = w_live w"
  "mem_ok (snd (gethostbyname name w)) = mem_ok w"
  by (simp_all add: gethostbyname_def)

section \<open>Observations\<close>

lemma receiver_destroy_frame [simp]:
  "world.more (iemnet__receiver_destroy r b w) = world.more w"
  by (simp add: iemnet__receiver_destroy_def Let_def split: option.splits)

text \<open>The sockets that were closed, in order.\<close>

fun closed_of :: "event \<Rightarrow> int option" where
  "closed_of (Sys_closesocket fd) = Some fd"
| "closed_of _ = None"

definition closed_fds :: "event list \<Rightarrow> int list" where
  "closed_fds io = List.map_filter closed_of io"

lemma closed_fds_simps [simp]:
  "closed_fds [] = []" "closed_fds (e # io) = (case closed_of e of None \<Rightarrow> [] | Some fd \<Rightarrow> [fd]) @ closed_fds io"
  "closed_fds (io @ io') = closed_fds io @ closed_fds io'"
  by (simp_all add: closed_fds_def map_filter_def split: option.splits)

definition sender_blocks :: "t_iemnet_sender option \<Rightarrow> int" where
  "sender_blocks s = (case s of None \<Rightarrow> 0 | Some s \<Rightarrow> 1 + (case s_queue s of None \<Rightarrow> 0
     | Some q \<Rightarrow> 1 + 3 * int (length (queue_content q))))"

lemma sender_destroy_blocks:
  assumes "sender_inv s"
  shows "\<exists>w'. iemnet__sender_destroy s w = Inr w' \<and> world.more w' = world.more w \<and>
    w_live w' = w_live w - sender_blocks (Some s) \<and> (mem_ok w \<longrightarrow> mem_ok w') \<and>
    w_io w' = w_io w @ [Syscall ''pthread_join'' [] 0]"
proof (cases "s_queue s")
  case None
  with assms show ?thesis
    by (simp add: iemnet__sender_destroy_def sender_inv_def queue_finish_def queue_destroy_def sender_blocks_def)
next
  case (Some q)
  show ?thesis
    by (rule sender_destroy_ok [OF assms Some, of w]) (auto simp: sender_blocks_def Some)
qed

lemma receiver_destroy_facts:
  "w_live (iemnet__receiver_destroy r False w) = w_live w - (if r = None then 0 else 1)"
  "mem_ok (iemnet__receiver_destroy r False w) = mem_ok w"
  "closed_fds (w_io (iemnet__receiver_destroy r False w)) = closed_fds (w_io w)"
  by (simp_all add: iemnet__receiver_destroy_def split: option.splits)

lemma closesocket_facts:
  "mem_ok (iemnet__closesocket fd v w) = mem_ok w"
  "0 \<le> fd \<Longrightarrow> closed_fds (w_io (iemnet__closesocket fd v w)) = closed_fds (w_io w) @ [fd]"
  by (simp_all add: iemnet__closesocket_def mem_ok_def Let_def case_prod_beta)

lemma numconnout_facts:
  "mem_ok (iemnet__numconnout so no n w) = mem_ok w"
  "closed_fds (w_io (iemnet__numconnout so no n w)) = closed_fds (w_io w)"
  by (simp_all add: mem_ok_def out_defs Let_def split: option.splits)

lemma create_list_ok:
  assumes "mem_ok w" "argv \<noteq> []"
  obtains w' where "iemnet__chunk_create_list gi (int (length argv)) argv w = Inr (Some (list_chunk gi argv), w')"
    "mem_step w 2 w'"
  using chunk_create_list_result [of gi argv w] assms that by auto

lemma list_chunk_sel [simp]: "c_family (list_chunk gi argv) = AF_INET" "c_size (list_chunk gi argv) = length argv"
  by (simp_all add: list_chunk_def)

lemma receiver_create_ok:
  assumes "mem_ok w"
  obtains w' where "iemnet__receiver_create fd u False w = (Some \<lparr>r_sockfd = fd, r_userdata = u\<rparr>, w')"
    "world.more w' = world.more w" "mem_ok w'" "w_io w' = w_io w @ [Sys_addpollfn fd]" "w_sys w' = w_sys w"
proof -
  obtain ok w1 where m: "malloc w = (ok, w1)" by fastforce
  from mem_ok_malloc [OF assms] mem_step_malloc [of w] m have "ok" "mem_step w 1 w1" by auto
  then show thesis using that [of "emit (Sys_addpollfn fd) w1"] assms
    by (simp add: iemnet__receiver_create_def m mem_step_def)
qed

lemma sender_create_result:
  assumes "mem_ok w" "w_sys w = r # rs"
  shows "\<exists>s w'. iemnet__sender_create fd f u w = Inr (s, w') \<and> world.more w' = world.more w \<and> mem_ok w' \<and>
    w_io w' = w_io w @ [Syscall ''pthread_create'' [] (a_ret r)] \<and> (s = None) = (a_ret r \<noteq> 0) \<and>
    (\<forall>s'. s = Some s' \<longrightarrow> sender_inv s' \<and> s_isrunning s' \<and> s_sockfd s' = fd \<and> s_queue s' = Some queue_empty)"
proof -
  obtain o1 w1 where m1: "malloc w = (o1, w1)" by fastforce
  obtain o2 w2 where m2: "malloc w1 = (o2, w2)" by fastforce
  have ok: o1 o2 "mem_step w 1 w1" "mem_step w1 1 w2"
    using mem_ok_malloc [OF assms(1)] mem_ok_malloc [of w1] mem_step_malloc [of w] mem_step_malloc [of w1]
    by (auto simp: m1 m2)
  then have s: "mem_step w 2 w2" by (auto intro: mem_step_trans)
  obtain w3 where w3: "sys_call ''pthread_create'' [] w2 = (r, w3)" "world.more w3 = world.more w"
      "mem_ok w3" "w_io w3 = w_io w @ [Syscall ''pthread_create'' [] (a_ret r)]"
    using s assms by (simp add: sys_call_def sys_answer_def mem_step_def mem_ok_def)
  obtain w4 where "queue_destroy (Some queue_empty) w3 = Inr w4" "mem_step w3 (-1) w4"
    by (rule queue_destroy_ok [of queue_empty w3]) (auto simp: queue_empty_def [THEN arg_cong, of q_used])
  moreover have "sender_inv \<lparr>s_sockfd = fd, s_queue = Some queue_empty, s_keepsending = True,
      s_isrunning = True, s_userdata = u, s_sendfun = f\<rparr>"
    by (simp add: sender_inv_def queue_empty_def [THEN arg_cong, of q_used])
  ultimately show ?thesis
    using ok(1,2) w3
    by (cases "a_ret r = 0") (auto simp: iemnet__sender_create_def queue_create_def m1 m2 mem_step_def)
qed


text \<open>The messages that left the message outlet, in order.\<close>

fun message_of :: "event \<Rightarrow> t_atom list option" where
  "message_of (Outlet_list Msgout s argv) = Some argv"
| "message_of _ = None"

definition messages :: "event list \<Rightarrow> t_atom list list" where
  "messages io = List.map_filter message_of io"

lemma messages_simps [simp]:
  "messages [] = []" "messages (e # io) = (case message_of e of None \<Rightarrow> [] | Some m \<Rightarrow> [m]) @ messages io"
  "messages (io @ io') = messages io @ messages io'"
  by (simp_all add: messages_def map_filter_def split: option.splits)

lemma closesocket_messages [simp]: "messages (w_io (iemnet__closesocket fd v w)) = messages (w_io w)"
  by (simp add: iemnet__closesocket_def Let_def case_prod_beta)

text \<open>Bytes as they leave the outlet: one message per byte, or one message for all of them.\<close>

definition stream_messages :: "bool \<Rightarrow> t_atom list \<Rightarrow> t_atom list list" where
  "stream_messages serialize as = (if serialize then map (\<lambda>a. [a]) as else [as])"

lemma messages_single: "messages (map (\<lambda>a. Outlet_list Msgout s [a]) as) = map (\<lambda>a. [a]) as"
  by (induction as) simp_all

lemma streamout_floatlist:
  assumes "wf_floatlist fl"
  shows "\<exists>w'. iemnet__streamout (Some Msgout) (int (fl_argc fl)) (case fl_argv fl of None \<Rightarrow> [] | Some av \<Rightarrow> av)
      serialize w = Inr w' \<and> world.more w' = world.more w \<and> w_malloc w' = w_malloc w \<and>
      messages (w_io w') = messages (w_io w) @ stream_messages serialize (floatlist_atoms fl)"
proof -
  from assms obtain av where av: "fl_argv fl = Some av" "fl_argc fl \<le> length av"
    by (auto simp: wf_floatlist_def split: option.splits)
  have "stream_loop Msgout (fl_argc fl) av w = Inr (w\<lparr>w_io := w_io w @
      map (\<lambda>a. Outlet_list Msgout ''list'' [a]) (take (fl_argc fl) av)\<rparr>)"
    using stream_loop_take [OF av(2), of Msgout w] stream_loop_eq [of Msgout "take (fl_argc fl) av" w] av(2)
    by (simp add: min_absorb2)
  then show ?thesis
    using av by (simp add: iemnet__streamout_def stream_messages_def floatlist_atoms_def messages_single emit_def)
qed

lemma resize_cells_table:
  assumes "length as \<le> m" "length as \<le> n" "\<And>i. pad i = None"
  shows "resize_cells pad (map Some as @ replicate (m - length as) None) n =
    map Some as @ replicate (n - length as) None"
  using assms by (auto simp: resize_cells_def nth_append intro!: nth_equalityI)

lemma c_uint_pos: "1 \<le> f \<Longrightarrow> f < 4294967296 \<Longrightarrow> int (c_uint f) = \<lfloor>f\<rfloor> \<and> 0 < c_uint f"
proof -
  assume f: "1 \<le> f" "f < 4294967296"
  then have "1 \<le> \<lfloor>f\<rfloor>" "\<lfloor>f\<rfloor> < 4294967296" by (simp_all add: floor_less_iff)
  with f show ?thesis by (simp add: c_uint_def trunc_float_def)
qed

lemma floatlist_destroy_blocks:
  assumes "case fl of None \<Rightarrow> True | Some cl \<Rightarrow> wf_floatlist cl"
  shows "w_live (iemnet__floatlist_destroy fl w) = w_live w - (if fl = None then 0 else 2)"
    "w_io (iemnet__floatlist_destroy fl w) = w_io w" "world.more (iemnet__floatlist_destroy fl w) = world.more w"
  using assms by (auto simp: iemnet__floatlist_destroy_def wf_floatlist_def split: option.splits)

lemma socket2addressout_frame [simp]:
  "world.more (iemnet__socket2addressout junk fd ol s w) = world.more w"
  "w_live (iemnet__socket2addressout junk fd ol s w) = w_live w"
  by (simp_all add: iemnet__socket2addressout_def Let_def case_prod_beta)

lemma enable_option_frame [simp]:
  "world.more (enable_option fd l opt m e w) = world.more w" "w_live (enable_option fd l opt m e w) = w_live w"
  by (simp_all add: enable_option_def Let_def case_prod_beta)

lemma outlet_floatlist_ok:
  assumes "wf_floatlist fl"
  shows "outlet_floatlist fl w = Inr (emit (Outlet_list Msgout ''list'' (floatlist_atoms fl)) w)"
  using assms by (auto simp: outlet_floatlist_def wf_floatlist_def floatlist_atoms_def split: option.splits)

lemma chunk2list_ok:
  assumes "wf_chunk c" "mem_ok w" "case fl of None \<Rightarrow> True | Some cl \<Rightarrow> wf_floatlist cl"
  obtains fl' w' where "iemnet__chunk2list (Some c) fl w = Inr (Some fl', w')" "world.more w' = world.more w"
    "w_io w' = w_io w" "mem_ok w'" "wf_floatlist fl'" "floatlist_atoms fl' = byte_atoms (chunk_bytes c)"
    "w_live w' = w_live w + (if fl = None then 2 else 0)" "w_sys w' = w_sys w"
proof -
  have "\<And>cl. fl = Some cl \<Longrightarrow> wf_floatlist cl" using assms(3) by simp
  from chunk2list_result [where w = w and dest = fl, OF assms(1) this] assms(2) show thesis
    using that unfolding mem_step_def byte_atoms_def by auto
qed

lemma out_messages [simp]:
  "messages (w_io (iemnet__addrout so (Some Addrout) a p w)) = messages (w_io w)"
  "messages (w_io (iemnet__numconnout so no n w)) = messages (w_io w)"
  "messages (w_io (iemnet__socketout so no n w)) = messages (w_io w)"
  by (auto simp: out_defs Let_def split: option.splits)

text \<open>Queueing a chunk while the fill state stays below \<open>2 ^ 31\<close>.\<close>

lemma sender_send_fits:
  assumes "sender_inv s" "s_isrunning s" "s_queue s \<noteq> None" "wf_chunk c" "mem_ok w"
    and "chunks_size (sender_pending s) + c_size c < 2147483648"
  obtains s' w' where "iemnet__sender_send s (Some c) w = Inr (int (chunks_size (sender_pending s')), s', w')"
    "sender_inv s'" "s_isrunning s'" "s_queue s' \<noteq> None" "s_sockfd s' = s_sockfd s"
    "sender_pending s' = sender_pending s @ [c\<lparr>c_family := AF_INET\<rparr>]" "mem_step w 3 w'"
proof -
  from assms(3) obtain q where q: "s_queue s = Some q" by blast
  obtain q' w' where q': "iemnet__sender_send s (Some c) w = Inr (sint (q_size q'), s\<lparr>s_queue := Some q'\<rparr>, w')"
    "sender_inv (s\<lparr>s_queue := Some q'\<rparr>)" "queue_content q' = queue_content q @ [c\<lparr>c_family := AF_INET\<rparr>]"
    "q_size q' = of_nat (chunks_size (queue_content q'))" "mem_step w 3 w'"
    by (rule sender_send_chunk [OF assms(1,2) q assms(4,5)])
  have "chunks_size (queue_content q') < 2147483648"
    using assms(6) q q'(3) by (simp add: sender_pending_def chunks_size_def)
  then have "sint (q_size q') = int (chunks_size (queue_content q'))"
    unfolding q'(4) by (simp only: sint_of_nat_32)
  then show thesis using that [of "s\<lparr>s_queue := Some q'\<rparr>" w'] q q' assms(2) by (simp add: sender_pending_def)
qed

lemma empty_chunk: "iemnet__chunk_create_list gi 0 [] w = Inr (None, w)"
  using chunk_create_list_result [of gi "[]" w]
  by (auto simp: iemnet__chunk_create_list_def iemnet__chunk_create_empty_def)

end
