(* ===== verification/Pd_Object.thy ===== *)
theory Pd_Object
  imports Object_Common "HOL-Library.Multiset"
begin

text \<open>
  The life of a networking object: it is created, it handles messages and callbacks in any order while
  the operating system and the send threads go on, and it is deleted. The locales state what an object has to
  promise for a single step; what follows for whole lives is proved here once.
\<close>

section \<open>Shared code\<close>

text \<open>The datagram objects allow broadcasting on their sockets.\<close>

definition enable_broadcast :: "int \<Rightarrow> string \<Rightarrow> 'w world_scheme \<Rightarrow> 'w world_scheme" where
  "enable_broadcast sockfd err w =
     (let (r, w) = sys_call ''setsockopt'' [sockfd, 1, 6, 1] w in
      if a_ret r \<noteq> 0 then emit (Sys_sockerror err) (emit (Iemnet_log IEMNET_ERROR ''unable to switch to broadcast mode'' []) w)
      else w)"

section \<open>Sockets opened and closed\<close>

fun opened_of :: "event \<Rightarrow> int option" where
  "opened_of (Syscall f args r) = (if (f = ''socket'' \<or> f = ''accept'') \<and> 0 \<le> r then Some r else None)"
| "opened_of _ = None"

definition opened_fds :: "event list \<Rightarrow> int list" where
  "opened_fds io = List.map_filter opened_of io"

lemma opened_fds_simps [simp]:
  "opened_fds [] = []" "opened_fds (e # io) = (case opened_of e of None \<Rightarrow> [] | Some fd \<Rightarrow> [fd]) @ opened_fds io"
  "opened_fds (io @ io') = opened_fds io @ opened_fds io'"
  by (simp_all add: opened_fds_def map_filter_def split: option.splits)

text \<open>
  The sockets that were opened are those that were closed and those that are \<open>held\<close>, as many times.
\<close>

definition fd_balance :: "event list \<Rightarrow> int list \<Rightarrow> bool" where
  "fd_balance io held \<longleftrightarrow> mset (opened_fds io) = mset (closed_fds io) + mset held"

text \<open>Events that neither open nor close a socket.\<close>

definition fd_silent :: "event list \<Rightarrow> bool" where
  "fd_silent io \<longleftrightarrow> opened_fds io = [] \<and> closed_fds io = []"

lemma fd_silent_simps [simp]:
  "fd_silent []" "fd_silent (io @ io') \<longleftrightarrow> fd_silent io \<and> fd_silent io'"
  "fd_silent (e # io) \<longleftrightarrow> opened_of e = None \<and> closed_of e = None \<and> fd_silent io"
  by (auto simp: fd_silent_def split: option.splits)

lemma fd_balance_silent: "fd_silent io' \<Longrightarrow> fd_balance (io @ io') held = fd_balance io held"
  by (simp add: fd_silent_def fd_balance_def)

section \<open>Steps of the world\<close>

text \<open>
  From \<open>w\<close> to \<open>w'\<close> the object itself does not change, \<open>d\<close> blocks of memory are taken, the sockets \<open>op\<close> are opened and
  the sockets \<open>cl\<close> closed.
\<close>

definition wstep :: "'w world_scheme \<Rightarrow> int \<Rightarrow> int list \<Rightarrow> int list \<Rightarrow> 'w world_scheme \<Rightarrow> bool" where
  "wstep w d op cl w' \<longleftrightarrow> world.more w' = world.more w \<and> w_live w' = w_live w + d \<and> (mem_ok w \<longrightarrow> mem_ok w') \<and>
     opened_fds (w_io w') = opened_fds (w_io w) @ op \<and> closed_fds (w_io w') = closed_fds (w_io w) @ cl"

lemma wstepD:
  assumes "wstep w d op cl w'"
  shows "world.more w' = world.more w" "w_live w' = w_live w + d" "mem_ok w \<Longrightarrow> mem_ok w'"
    "opened_fds (w_io w') = opened_fds (w_io w) @ op" "closed_fds (w_io w') = closed_fds (w_io w) @ cl"
  using assms by (simp_all add: wstep_def)

lemma wstep_refl: "wstep w 0 [] [] w"
  by (simp add: wstep_def)

lemma wstep_trans:
  "wstep w d op cl w1 \<Longrightarrow> wstep w1 d' op' cl' w2 \<Longrightarrow> wstep w (d + d') (op @ op') (cl @ cl') w2"
  by (auto simp: wstep_def)

text \<open>Composition with a step that takes no memory and opens and closes nothing.\<close>

lemma wstep_quiet: "wstep w d op cl w1 \<Longrightarrow> wstep w1 0 [] [] w2 \<Longrightarrow> wstep w d op cl w2"
  using wstep_trans by fastforce

lemma wstep_emit: "opened_of e = None \<Longrightarrow> closed_of e = None \<Longrightarrow> wstep w 0 [] [] (emit e w)"
  by (simp add: wstep_def)

lemma wstep_sys_call: "f \<noteq> ''socket'' \<Longrightarrow> f \<noteq> ''accept'' \<Longrightarrow> sys_call f args w = (r, w') \<Longrightarrow> wstep w 0 [] [] w'"
  using sys_call_snd [of f args w] mem_ok_sys_call [of f args w] by (simp add: wstep_def)

lemma wstep_open:
  "f = ''socket'' \<or> f = ''accept'' \<Longrightarrow> sys_call f args w = (r, w') \<Longrightarrow>
   wstep w 0 (if 0 \<le> a_ret r then [a_ret r] else []) [] w'"
  using sys_call_snd [of f args w] mem_ok_sys_call [of f args w] by (auto simp: wstep_def)

lemma wstep_gethostbyname: "gethostbyname name w = (r, w') \<Longrightarrow> wstep w 0 [] [] w'"
  unfolding gethostbyname_def by (rule wstep_sys_call) simp_all

lemma wstep_option: "wstep w 0 [] [] (enable_option fd l opt m e w)"
  by (simp add: wstep_def enable_option_def Let_def case_prod_beta mem_ok_def)

lemma wstep_broadcast: "wstep w 0 [] [] (enable_broadcast fd e w)"
  by (simp add: wstep_def enable_broadcast_def Let_def case_prod_beta mem_ok_def)

lemma wstep_connect: "iemnet__connect fd a p t w = (c, w') \<Longrightarrow> wstep w 0 [] [] w'"
proof -
  have "wstep w 0 [] [] (snd (iemnet__connect fd a p t w))"
    by (simp add: wstep_def iemnet__connect_def sock_set_nonblocking_def Let_def case_prod_beta mem_ok_def)
  moreover assume "iemnet__connect fd a p t w = (c, w')"
  ultimately show ?thesis by simp
qed

lemma wstep_closesocket: "0 \<le> fd \<Longrightarrow> wstep w 0 [] [fd] (iemnet__closesocket fd v w)"
  by (simp add: wstep_def closesocket_facts) (simp add: iemnet__closesocket_def Let_def case_prod_beta)

lemma wstep_close: "wstep w d op cl w1 \<Longrightarrow> 0 \<le> fd \<Longrightarrow> wstep w d op (cl @ [fd]) (iemnet__closesocket fd v w1)"
  using wstep_trans [OF _ wstep_closesocket] by fastforce

text \<open>Reporting that a call failed, and giving up the socket that was opened for it.\<close>

lemma wstep_report:
  "wstep w d op cl v \<Longrightarrow> wstep w d op cl (emit (Sys_sockerror e) (emit (Iemnet_log l m as) v))"
  by (rule wstep_quiet [OF wstep_quiet [OF _ wstep_emit] wstep_emit]) simp_all

lemma wstep_report_close:
  assumes "wstep w 0 (if 0 \<le> fd then [fd] else []) [] v" "0 \<le> fd"
  shows "wstep w 0 [fd] [fd] (iemnet__closesocket fd b (emit (Sys_sockerror e) (emit (Iemnet_log l m as) v)))"
  using wstep_close [OF wstep_report [OF assms(1)] assms(2)] assms(2) by simp

text \<open>Opening a listening socket: the socket, three options, the address, the backlog.\<close>

lemma wstep_listen:
  assumes "sys_call ''socket'' sa w = (r, w1)"
    and "w2 = enable_option fd l3 o3 m3 e3 (enable_option fd l2 o2 m2 e2 (enable_option fd l1 o1 m1 e1 w1))"
    and "sys_call ''bind'' ba w2 = (b, w3)" "sys_call ''listen'' la w3 = (l, w4)"
  shows "wstep w 0 (if 0 \<le> a_ret r then [a_ret r] else []) [] w1"
    "wstep w 0 (if 0 \<le> a_ret r then [a_ret r] else []) [] w3"
    "wstep w 0 (if 0 \<le> a_ret r then [a_ret r] else []) [] w4"
proof -
  let ?op = "if 0 \<le> a_ret r then [a_ret r] else []"
  show s1: "wstep w 0 ?op [] w1" by (rule wstep_open [OF _ assms(1)]) simp
  then have "wstep w 0 ?op [] w2"
    unfolding assms(2) by (intro wstep_quiet [OF _ wstep_option])
  then show "wstep w 0 ?op [] w3" by (rule wstep_quiet [OF _ wstep_sys_call [OF _ _ assms(3)]]) simp_all
  then show "wstep w 0 ?op [] w4" by (rule wstep_quiet [OF _ wstep_sys_call [OF _ _ assms(4)]]) simp_all
qed

text \<open>Resolving a host name and opening a socket for it.\<close>

lemma wstep_resolve_open:
  "gethostbyname name w = (hp, w1) \<Longrightarrow> sys_call ''socket'' args w1 = (r, w2) \<Longrightarrow>
   wstep w 0 (if 0 \<le> a_ret r then [a_ret r] else []) [] w2"
  using wstep_trans [OF wstep_gethostbyname wstep_open, of name w hp w1 "''socket''" args r w2] by simp

lemma wstep_outputs:
  "wstep w 0 [] [] (iemnet__socket2addressout junk fd ol s w)" "wstep w 0 [] [] (iemnet__numconnout so no n w)"
  "wstep w 0 [] [] (iemnet__addrout so ao a p w)"
  by (simp_all add: wstep_def iemnet__socket2addressout_def out_defs Let_def case_prod_beta mem_ok_def split: option.splits)

lemma wstep_mem: "mem_step w d w' \<Longrightarrow> wstep w d [] [] w'"
  by (simp add: wstep_def mem_step_def)

lemma wstep_chunk_destroy: "(case c of None \<Rightarrow> True | Some c \<Rightarrow> wf_chunk c) \<Longrightarrow>
  wstep w (if c = None then 0 else - 2) [] [] (iemnet__chunk_destroy c w)"
  by (cases c) (simp_all add: wstep_refl wstep_mem chunk_destroy_mem_step)

definition receiver_blocks :: "t_iemnet_receiver option \<Rightarrow> int" where
  "receiver_blocks r = (if r = None then 0 else 1)"

lemma receiver_blocks_None [simp]: "receiver_blocks None = 0" "sender_blocks None = 0"
  by (simp_all add: receiver_blocks_def sender_blocks_def)

lemma wstep_receiver_create:
  "iemnet__receiver_create fd u False w = (r, w') \<Longrightarrow> wstep w (receiver_blocks r) [] [] w'"
  using malloc_snd [of w] mem_ok_malloc [of w]
  by (auto simp: wstep_def receiver_blocks_def iemnet__receiver_create_def case_prod_beta split: if_splits)

lemma wstep_receiver_destroy: "wstep w (- receiver_blocks r) [] [] (iemnet__receiver_destroy r False w)"
  by (simp add: wstep_def receiver_blocks_def iemnet__receiver_destroy_def split: option.splits)

lemma sender_destroy_wstep:
  assumes "case s of None \<Rightarrow> True | Some s \<Rightarrow> sender_inv s"
  obtains w' where "(case s of None \<Rightarrow> Inr w | Some s \<Rightarrow> iemnet__sender_destroy s w) = Inr w'"
    "wstep w (- sender_blocks s) [] [] w'"
proof (cases s)
  case None
  then show ?thesis using that [of w] by (simp add: sender_blocks_def wstep_refl)
next
  case (Some x)
  with sender_destroy_blocks [of x w] assms show ?thesis using that by (auto simp: wstep_def)
qed

lemma sender_create_wstep:
  assumes "mem_ok w"
  obtains s w' where "iemnet__sender_create fd f u w = Inr (s, w')" "wstep w (sender_blocks s) [] [] w'"
    "case s of None \<Rightarrow> True | Some s \<Rightarrow> sender_inv s \<and> s_sockfd s = fd \<and> s_isrunning s \<and> s_queue s = Some queue_empty"
proof -
  obtain o1 w1 where m1: "malloc w = (o1, w1)" by fastforce
  obtain o2 w2 where m2: "malloc w1 = (o2, w2)" by fastforce
  have ok: o1 o2 "mem_step w 1 w1" "mem_step w1 1 w2"
    using mem_ok_malloc [OF assms] mem_ok_malloc [of w1] mem_step_malloc [of w] mem_step_malloc [of w1]
    by (auto simp: m1 m2)
  have s: "wstep w 2 [] [] w2" using wstep_mem [OF mem_step_trans [OF ok(3,4)]] by simp
  obtain r w3 where w3: "sys_call ''pthread_create'' [] w2 = (r, w3)" by fastforce
  have s3: "wstep w 2 [] [] w3" by (rule wstep_quiet [OF s wstep_sys_call [OF _ _ w3]]) simp_all
  let ?s = "\<lparr>s_sockfd = fd, s_queue = Some queue_empty, s_keepsending = True, s_isrunning = True,
      s_userdata = u, s_sendfun = f\<rparr>"
  have inv: "sender_inv ?s" "sender_blocks (Some ?s) = 2"
    by (simp_all add: sender_inv_def sender_blocks_def queue_empty_def [THEN arg_cong, of q_used])
  show thesis
  proof (cases "a_ret r = 0")
    case True
    then have "iemnet__sender_create fd f u w = Inr (Some ?s, w3)"
      using ok w3 by (simp add: iemnet__sender_create_def queue_create_def m1 m2)
    then show ?thesis using that inv s3 by simp
  next
    case False
    obtain w4 where w4: "queue_destroy (Some queue_empty) w3 = Inr w4" "mem_step w3 (-1) w4"
      by (rule queue_destroy_ok [of queue_empty w3]) (auto simp: queue_empty_def [THEN arg_cong, of q_used])
    then have "iemnet__sender_create fd f u w = Inr (None, free w4)"
      using ok w3 False by (simp add: iemnet__sender_create_def queue_create_def m1 m2)
    moreover have "wstep w (sender_blocks None) [] [] (free w4)"
      using s3 w4(2) by (simp add: wstep_def mem_step_def sender_blocks_def)
    ultimately show ?thesis using that by simp
  qed
qed

lemma sender_send_wstep:
  assumes "sender_inv s" "mem_ok w" "wf_chunk c"
  obtains n s' w' where "iemnet__sender_send s (Some c) w = Inr (n, s', w')" "sender_inv s'" "s_sockfd s' = s_sockfd s"
    "wstep w (sender_blocks (Some s') - sender_blocks (Some s)) [] [] w'"
proof (cases "s_isrunning s \<and> s_queue s \<noteq> None")
  case True
  then obtain q where q: "s_queue s = Some q" "s_isrunning s" by blast
  obtain q' w' where q': "iemnet__sender_send s (Some c) w = Inr (sint (q_size q'), s\<lparr>s_queue := Some q'\<rparr>, w')"
    "sender_inv (s\<lparr>s_queue := Some q'\<rparr>)" "queue_content q' = queue_content q @ [c\<lparr>c_family := AF_INET\<rparr>]" "mem_step w 3 w'"
    by (rule sender_send_chunk [OF assms(1) q(2,1) assms(3,2)])
  then show ?thesis using that [of "sint (q_size q')" "s\<lparr>s_queue := Some q'\<rparr>" w'] q(1) wstep_mem [OF q'(4)]
    by (simp add: sender_blocks_def)
next
  case False
  then have "iemnet__sender_send s (Some c) w = Inr (-1, s, w)" by (auto simp: iemnet__sender_send_def)
  then show ?thesis using that assms(1) by (simp add: wstep_refl)
qed

lemma sender_send_opt_wstep:
  assumes "sender_inv s" "mem_ok w" "case c of None \<Rightarrow> True | Some c \<Rightarrow> wf_chunk c"
  obtains n s' w' where "iemnet__sender_send s c w = Inr (n, s', w')" "sender_inv s'" "s_sockfd s' = s_sockfd s"
    "wstep w (sender_blocks (Some s') - sender_blocks (Some s)) [] [] w'"
proof (cases c)
  case None
  have "\<exists>n. iemnet__sender_send s None w = Inr (n, s, w)"
    by (cases "s_isrunning s"; cases "s_queue s") (simp_all add: sender_send_NULL, simp_all add: iemnet__sender_send_def)
  then show ?thesis using that assms(1) None by (auto simp: wstep_refl)
next
  case (Some x)
  then show ?thesis using sender_send_wstep [OF assms(1,2), of x] assms(3) that by (metis option.case(2))
qed

lemma create_list_wstep:
  assumes "mem_ok w" "length argv < 2147483648"
  obtains c w' where "iemnet__chunk_create_list gi (int (length argv)) argv w = Inr (c, w')"
    "wstep w (if c = None then 0 else 2) [] [] w'" "c = (if argv = [] then None else Some (list_chunk gi argv))"
    "case c of None \<Rightarrow> True | Some c \<Rightarrow> wf_chunk c"
proof -
  obtain c w' where c: "iemnet__chunk_create_list gi (int (length argv)) argv w = Inr (c, w')"
    "mem_step w (if c = None then 0 else 2) w'" "c = (if argv = [] then None else Some (list_chunk gi argv))"
    using chunk_create_list_result [of gi argv w] assms(1) by (cases "argv = []") auto
  moreover have "case c of None \<Rightarrow> True | Some c \<Rightarrow> wf_chunk c"
    using c(3) wf_list_chunk assms(2) by (simp split: option.splits)
  ultimately show thesis using that wstep_mem [OF c(2)] by blast
qed

text \<open>
  What the send thread may have done in the meantime: taken chunks from the queue, transmitted and freed
  them, or stopped.
\<close>

definition thread_works ::
    "t_iemnet_sender option \<Rightarrow> 'w world_scheme \<Rightarrow> t_iemnet_sender option \<Rightarrow> 'w world_scheme \<Rightarrow> bool" where
  "thread_works s w s' w' \<longleftrightarrow>
     (case (s, s') of (None, None) \<Rightarrow> True
      | (Some x, Some y) \<Rightarrow> sender_inv y \<and> s_sockfd y = s_sockfd x
      | _ \<Rightarrow> False) \<and>
     w_live w' - sender_blocks s' = w_live w - sender_blocks s \<and> mem_ok w' \<and>
     (\<exists>io. w_io w' = w_io w @ io \<and> fd_silent io)"

text \<open>What happens between two messages to an object without a send thread: nothing that concerns it.\<close>

definition idle :: "'w world_scheme \<Rightarrow> 'w world_scheme \<Rightarrow> bool" where
  "idle w w' \<longleftrightarrow> world.more w' = world.more w \<and> w_live w' = w_live w \<and> mem_ok w' \<and>
     (\<exists>io. w_io w' = w_io w @ io \<and> fd_silent io)"

lemma idle_wstep: "idle w w' \<Longrightarrow> wstep w 0 [] [] w'"
  by (auto simp: idle_def wstep_def fd_silent_def)

text \<open>Handing received bytes on.\<close>

lemma streamout_fds:
  assumes "wf_floatlist fl"
  obtains w' where "iemnet__streamout (Some Msgout) (int (fl_argc fl)) (case fl_argv fl of None \<Rightarrow> [] | Some av \<Rightarrow> av)
      serialize w = Inr w'" "world.more w' = world.more w" "w_malloc w' = w_malloc w"
    "messages (w_io w') = messages (w_io w) @ stream_messages serialize (floatlist_atoms fl)"
    "opened_fds (w_io w') = opened_fds (w_io w)" "closed_fds (w_io w') = closed_fds (w_io w)" "w_live w' = w_live w"
    "w_sys w' = w_sys w"
proof -
  obtain w' where w': "iemnet__streamout (Some Msgout) (int (fl_argc fl)) (case fl_argv fl of None \<Rightarrow> [] | Some av \<Rightarrow> av)
      serialize w = Inr w'" "world.more w' = world.more w" "w_malloc w' = w_malloc w"
    "messages (w_io w') = messages (w_io w) @ stream_messages serialize (floatlist_atoms fl)"
    using streamout_floatlist [OF assms] by blast
  have loop: "stream_loop ol n av v = Inr v' \<Longrightarrow>
      opened_fds (w_io v') = opened_fds (w_io v) \<and> closed_fds (w_io v') = closed_fds (w_io v) \<and> w_live v' = w_live v \<and> w_sys v' = w_sys v"
    for ol n av and v v' :: "'a world_scheme"
    by (induction ol n av v rule: stream_loop.induct) simp_all
  have "opened_fds (w_io w') = opened_fds (w_io w) \<and> closed_fds (w_io w') = closed_fds (w_io w) \<and> w_live w' = w_live w \<and> w_sys w' = w_sys w"
    using w'(1) loop by (auto simp: iemnet__streamout_def split: if_splits)
  then show thesis using that w' by blast
qed

section \<open>What one step promises\<close>

text \<open>
  \<open>inv\<close> is the invariant of the object, \<open>safe\<close> the messages it can handle in a given state, \<open>blocks\<close> the memory
  it holds. Handling a message returns, keeps the invariant, and takes exactly as much memory as the object
  holds more afterwards. \<open>env\<close> is what may happen between two messages.
\<close>

locale pd_object =
  fixes inv :: "'w world_scheme \<Rightarrow> bool"
    and safe :: "'m \<Rightarrow> 'w world_scheme \<Rightarrow> bool"
    and handle :: "'m \<Rightarrow> 'w world_scheme \<Rightarrow> 'w world_scheme res"
    and env :: "'w world_scheme \<Rightarrow> 'w world_scheme \<Rightarrow> bool"
    and blocks :: "'w world_scheme \<Rightarrow> int"
  assumes handle_ok: "inv w \<Longrightarrow> mem_ok w \<Longrightarrow> safe m w \<Longrightarrow>
      \<exists>w'. handle m w = Inr w' \<and> inv w' \<and> mem_ok w' \<and> w_live w' - blocks w' = w_live w - blocks w"
    and env_ok: "inv w \<Longrightarrow> mem_ok w \<Longrightarrow> env w w' \<Longrightarrow>
      inv w' \<and> mem_ok w' \<and> w_live w' - blocks w' = w_live w - blocks w"

text \<open>The object also accounts for its sockets; \<open>fds\<close> are those it holds.\<close>

locale pd_socket_object = pd_object inv safe handle env blocks
  for inv :: "'w world_scheme \<Rightarrow> bool" and safe :: "'m \<Rightarrow> 'w world_scheme \<Rightarrow> bool"
    and handle :: "'m \<Rightarrow> 'w world_scheme \<Rightarrow> 'w world_scheme res"
    and env :: "'w world_scheme \<Rightarrow> 'w world_scheme \<Rightarrow> bool"
    and blocks :: "'w world_scheme \<Rightarrow> int" +
  fixes fds :: "'w world_scheme \<Rightarrow> int list"
  assumes handle_fds: "inv w \<Longrightarrow> mem_ok w \<Longrightarrow> safe m w \<Longrightarrow> handle m w = Inr w' \<Longrightarrow>
      fd_balance (w_io w) (fds w) \<Longrightarrow> fd_balance (w_io w') (fds w')"
    and env_fds: "inv w \<Longrightarrow> mem_ok w \<Longrightarrow> env w w' \<Longrightarrow> fd_balance (w_io w) (fds w) \<Longrightarrow> fd_balance (w_io w') (fds w')"

section \<open>Whole lives\<close>

inductive obj_run ::
    "('m \<Rightarrow> 'w world_scheme \<Rightarrow> bool) \<Rightarrow> ('m \<Rightarrow> 'w world_scheme \<Rightarrow> 'w world_scheme res) \<Rightarrow> ('w world_scheme \<Rightarrow> 'w world_scheme \<Rightarrow> bool) \<Rightarrow>
     'w world_scheme \<Rightarrow> 'w world_scheme \<Rightarrow> bool"
  for safe handle env w where
  run_start: "obj_run safe handle env w w"
| run_message: "obj_run safe handle env w w1 \<Longrightarrow> safe m w1 \<Longrightarrow> handle m w1 = Inr w2 \<Longrightarrow> obj_run safe handle env w w2"
| run_env: "obj_run safe handle env w w1 \<Longrightarrow> env w1 w2 \<Longrightarrow> obj_run safe handle env w w2"

lemma obj_run_messages:
  "res_fold handle ms w1 = Inr w2 \<Longrightarrow> list_all (\<lambda>m. \<forall>w. safe m w) ms \<Longrightarrow> obj_run safe handle env w w1 \<Longrightarrow>
   obj_run safe handle env w w2"
proof (induction ms arbitrary: w1)
  case Nil
  then show ?case by simp
next
  case (Cons m ms)
  then obtain w' where "handle m w1 = Inr w'" "res_fold handle ms w' = Inr w2" by (auto simp: res_simps)
  with Cons run_message show ?case by fastforce
qed

context pd_object
begin

lemma run_ok:
  assumes "obj_run safe handle env w w'" "inv w" "mem_ok w"
  shows "inv w' \<and> mem_ok w' \<and> w_live w' - blocks w' = w_live w - blocks w"
  using assms
proof (induction rule: obj_run.induct)
  case (run_message w1 m w2)
  then show ?case using handle_ok [of w1 m] by auto
next
  case (run_env w1 w2)
  then show ?case using env_ok [of w1 w2] by auto
qed simp

text \<open>In every state the object gets into, it can handle the next message.\<close>

lemma run_never_stuck:
  assumes "obj_run safe handle env w w'" "inv w" "mem_ok w" "safe m w'"
  shows "\<exists>w''. handle m w' = Inr w''"
  using handle_ok [of w' m] run_ok [OF assms(1-3)] assms(4) by auto

lemma messages_ok:
  assumes "inv w" "mem_ok w" "list_all (\<lambda>m. \<forall>w. safe m w) ms"
  shows "\<exists>w'. res_fold handle ms w = Inr w' \<and> inv w' \<and> mem_ok w'"
  using assms
proof (induction ms arbitrary: w)
  case Nil
  then show ?case by simp
next
  case (Cons m ms)
  with handle_ok [of w m] show ?case by fastforce
qed

end

context pd_socket_object
begin

lemma run_fds:
  assumes "obj_run safe handle env w w'" "inv w" "mem_ok w" "fd_balance (w_io w) (fds w)"
  shows "fd_balance (w_io w') (fds w')"
  using assms
proof (induction rule: obj_run.induct)
  case (run_message w1 m w2)
  then have "inv w1" "mem_ok w1" using run_ok by blast+
  with run_message handle_fds show ?case by blast
next
  case (run_env w1 w2)
  then have "inv w1" "mem_ok w1" using run_ok by blast+
  with run_env env_fds show ?case by blast
qed simp

end

text \<open>
  Objects are deleted at last: \<open>delete\<close> gives back all memory and closes all sockets of an object that is \<open>ready\<close>
  for it. Then nothing of the object is left, whatever happened in between.
\<close>

locale pd_mortal_object = pd_socket_object inv safe handle env blocks fds
  for inv :: "'w world_scheme \<Rightarrow> bool" and safe :: "'m \<Rightarrow> 'w world_scheme \<Rightarrow> bool"
    and handle :: "'m \<Rightarrow> 'w world_scheme \<Rightarrow> 'w world_scheme res"
    and env :: "'w world_scheme \<Rightarrow> 'w world_scheme \<Rightarrow> bool"
    and blocks :: "'w world_scheme \<Rightarrow> int" and fds :: "'w world_scheme \<Rightarrow> int list" +
  fixes delete :: "'w world_scheme \<Rightarrow> 'w world_scheme res" and ready :: "'w world_scheme \<Rightarrow> bool"
  assumes delete_ok: "inv w \<Longrightarrow> mem_ok w \<Longrightarrow> fd_balance (w_io w) (fds w) \<Longrightarrow> ready w \<Longrightarrow>
      \<exists>w'. delete w = Inr w' \<and> w_live w' = w_live w - blocks w \<and> fd_balance (w_io w') []"
begin

lemma life:
  assumes "obj_run safe handle env w0 w" "inv w0" "mem_ok w0" "fd_balance (w_io w0) (fds w0)"
    and "w_live w0 - blocks w0 = n"
  shows "(\<forall>m. safe m w \<longrightarrow> (\<exists>w'. handle m w = Inr w')) \<and>
    (ready w \<longrightarrow> (\<exists>w'. delete w = Inr w' \<and> w_live w' = n \<and> mset (opened_fds (w_io w')) = mset (closed_fds (w_io w'))))"
  using run_ok [OF assms(1-3)] run_never_stuck [OF assms(1-3)] run_fds [OF assms(1-4)] delete_ok [of w] assms(5)
  by (auto simp: fd_balance_def)

end

end
