(* ===== verification/Sender_Loop.thy ===== *)
theory Sender_Loop
  imports Sender_Threads Pd_Object
begin

text \<open>
  The loop of \<^verbatim>\<open>iemnet__sender_sendthread\<close> with its effects on the world: what the thread transmits, frees and leaves in
  the queue when it makes some rounds between two calls of the main thread. The critical sections are those of
  \<open>Sender_Threads\<close>, and a round is a path of its transition system; the lives of the objects let the thread do
  in between what is shown here.
\<close>

section \<open>The loop\<close>

text \<open>
  \<^verbatim>\<open>queue_pop_block\<close> as called by a thread that nobody interrupts: a wait does not end.
\<close>

definition queue_pop_block ::
    "t_iemnet_queue option \<Rightarrow> 'w world_scheme \<Rightarrow>
     (t_iemnet_chunk option \<times> t_iemnet_queue option \<times> 'w world_scheme) res" where
  "queue_pop_block this w = (case this of None \<Rightarrow> Inr (None, None, w)
     | Some q \<Rightarrow> res_bind (queue_pop_block_enter (queue_use_increment q)) (\<lambda>(r, q). case r of
           Waiting \<Rightarrow> Inl Blocked
         | Popped c \<Rightarrow> Inr (c, Some (queue_use_decrement q), free w)))"

definition queue_pop ::
    "t_iemnet_queue option \<Rightarrow> 'w world_scheme \<Rightarrow>
     (t_iemnet_chunk option \<times> t_iemnet_queue option \<times> 'w world_scheme) res" where
  "queue_pop this w = queue_pop_block this w"

text \<open>A send function that the creator of the sender may supply; it gets the user data.\<close>

type_synonym 'w sendfunction = "ptr \<Rightarrow> int \<Rightarrow> t_iemnet_chunk \<Rightarrow> 'w world_scheme \<Rightarrow> (int \<times> 'w world_scheme) res"

definition dosend :: "'w sendfunction \<Rightarrow> t_iemnet_sender \<Rightarrow> t_iemnet_chunk \<Rightarrow> 'w world_scheme \<Rightarrow> (int \<times> 'w world_scheme) res" where
  "dosend sendfun s c w =
     (if s_sendfun s \<noteq> None then sendfun (s_userdata s) (s_sockfd s) c w
      else iemnet__sender_defaultsend (s_sockfd s) c w)"

text \<open>
  How a round ends: the loop goes on, the thread is parked in the pop until the main thread wakes it, or the thread
  has left the loop. The thread that is parked has no effect yet, and is shown as being about to pop.
\<close>

datatype round = Again | Parked | Ended

definition sendthread_round ::
    "'w sendfunction \<Rightarrow> t_iemnet_sender \<Rightarrow> 'w world_scheme \<Rightarrow> (round \<times> t_iemnet_sender \<times> 'w world_scheme) res" where
  "sendthread_round sendfun s w =
     (if \<not> s_keepsending s then Inr (Ended, s\<lparr>s_isrunning := False\<rparr>, w)
      else case queue_pop_block (s_queue s) w of
        Inl e \<Rightarrow> if e = Blocked then Inr (Parked, s, w) else Inl e
      | Inr (c, q, w) \<Rightarrow> let s = s\<lparr>s_queue := q\<rparr> in
          (case c of None \<Rightarrow> Inr (Again, s, w)
           | Some c \<Rightarrow> res_bind (dosend sendfun s c w) (\<lambda>(ok, w).
               let w = iemnet__chunk_destroy (Some c) w in
               if ok = 0 then Inr (Ended, s\<lparr>s_isrunning := False\<rparr>, w) else Inr (Again, s, w))))"

text \<open>At most \<open>n\<close> rounds.\<close>

fun sendthread ::
    "'w sendfunction \<Rightarrow> nat \<Rightarrow> t_iemnet_sender \<Rightarrow> 'w world_scheme \<Rightarrow> (round \<times> t_iemnet_sender \<times> 'w world_scheme) res" where
  "sendthread sendfun 0 s w = Inr (Again, s, w)"
| "sendthread sendfun (Suc n) s w = res_bind (sendthread_round sendfun s w) (\<lambda>(r, s, w).
     case r of Again \<Rightarrow> sendthread sendfun n s w | _ \<Rightarrow> Inr (r, s, w))"

section \<open>What is transmitted\<close>

text \<open>The call of \<^verbatim>\<open>send\<close> or \<^verbatim>\<open>sendto\<close> for a chunk.\<close>

definition send_event :: "int \<Rightarrow> t_iemnet_chunk \<Rightarrow> int \<Rightarrow> event" where
  "send_event fd c ret = Sys_send fd MSG_NOSIGNAL (chunk_bytes c)
     (if c_port c \<noteq> 0
      then Some \<lparr>sin_family = c_family c, sin_addr = htonl (c_addr c), sin_port = htons (c_port c)\<rparr> else None) ret"

text \<open>The answer to the next call; a call without an answer fails.\<close>

definition next_ret :: "sysret list \<Rightarrow> int" where
  "next_ret rs = (case rs of [] \<Rightarrow> -1 | r # _ \<Rightarrow> a_ret r)"

text \<open>
  The specification of the loop on the list of waiting chunks: each is handed to the operating system once, in order;
  the first failure ends it, and the chunks behind it stay.
\<close>

fun transmit :: "nat \<Rightarrow> int \<Rightarrow> t_iemnet_chunk list \<Rightarrow> sysret list \<Rightarrow> round \<times> event list \<times> t_iemnet_chunk list" where
  "transmit 0 fd cs rs = (Again, [], cs)"
| "transmit (Suc n) fd [] rs = (Parked, [], [])"
| "transmit (Suc n) fd (c # cs) rs =
     (if next_ret rs < 0 then (Ended, [send_event fd c (next_ret rs)], cs)
      else let (r, es, ds) = transmit n fd cs (tl rs) in (r, send_event fd c (next_ret rs) # es, ds))"

lemma defaultsend_result:
  assumes "wf_chunk c"
  obtains w' where "iemnet__sender_defaultsend fd c w = Inr (if next_ret (w_sys w) < 0 then 0 else 1, w')"
    "w_io w' = w_io w @ [send_event fd c (next_ret (w_sys w))]" "w_sys w' = tl (w_sys w)"
    "world.more w' = world.more w" "w_live w' = w_live w" "w_malloc w' = w_malloc w"
proof -
  have m: "memcpy_from (c_data c) (c_size c) = Inr (chunk_bytes c)"
    using assms by (auto simp: wf_chunk_def memcpy_from_def chunk_bytes_def split: option.splits)
  define dest where "dest = (if c_port c \<noteq> 0
    then Some \<lparr>sin_family = c_family c, sin_addr = htonl (c_addr c), sin_port = htons (c_port c)\<rparr> else None)"
  obtain r w' where r: "sys_send fd MSG_NOSIGNAL (chunk_bytes c) dest w = (r, w')" by fastforce
  have "a_ret r = next_ret (w_sys w)" "w_io w' = w_io w @ [send_event fd c (a_ret r)]" "w_sys w' = tl (w_sys w)"
    "world.more w' = world.more w" "w_live w' = w_live w" "w_malloc w' = w_malloc w"
    using r by (auto simp: sys_send_def sys_answer_def next_ret_def send_event_def dest_def [symmetric] split: list.splits)
  moreover have "iemnet__sender_defaultsend fd c w = Inr (if a_ret r < 0 then 0 else 1, w')"
    unfolding iemnet__sender_defaultsend_def m dest_def [symmetric] Let_def by (simp add: r)
  ultimately show thesis using that by simp
qed

lemma pop_block_result:
  assumes "queue_inv q"
  shows "queue_content q = [] \<Longrightarrow> queue_pop_block (Some q) w = Inl Blocked"
    and "queue_content q = c # cs \<Longrightarrow> \<exists>q'. queue_pop_block (Some q) w = Inr (Some c, Some q', free w) \<and>
      queue_inv q' \<and> queue_content q' = cs \<and> q_done q' = q_done q \<and> q_used q' = q_used q"
proof -
  have i: "queue_inv (queue_use_increment q)" "queue_content (queue_use_increment q) = queue_content q"
    using assms by (simp_all add: queue_use_increment_def)
  show "queue_content q = [] \<Longrightarrow> queue_pop_block (Some q) w = Inl Blocked"
    using pop_block_enter_cases(1) [OF i(1)] i(2) by (simp add: queue_pop_block_def)
  assume "queue_content q = c # cs"
  then obtain q' where "queue_pop_block_enter (queue_use_increment q) = Inr (Popped (Some c), q')"
    "queue_inv q'" "queue_content q' = cs" "q_done q' = q_done q" "q_used q' = q_used q + 1"
    using pop_block_enter_cases(2) [OF i(1), of c cs] i(2) by (auto simp: queue_use_increment_def)
  then show "\<exists>q'. queue_pop_block (Some q) w = Inr (Some c, Some q', free w) \<and>
      queue_inv q' \<and> queue_content q' = cs \<and> q_done q' = q_done q \<and> q_used q' = q_used q"
    by (simp add: queue_pop_block_def queue_use_decrement_def)
qed

text \<open>A sender as its thread sees it: in use, with a queue and the default send function.\<close>

definition sending :: "t_iemnet_sender \<Rightarrow> bool" where
  "sending s \<longleftrightarrow> sender_inv s \<and> s_isrunning s \<and> s_queue s \<noteq> None \<and> s_sendfun s = None"

text \<open>What stays the same while the thread works.\<close>

definition same_sender :: "t_iemnet_sender \<Rightarrow> t_iemnet_sender \<Rightarrow> bool" where
  "same_sender s s' \<longleftrightarrow> s_sockfd s' = s_sockfd s \<and> s_userdata s' = s_userdata s \<and> s_sendfun s' = s_sendfun s \<and>
     s_keepsending s' = s_keepsending s"

lemma round_parked:
  assumes "sending s" "sender_pending s = []"
  shows "sendthread_round sf s w = Inr (Parked, s, w)"
  using assms pop_block_result(1) [of _ w]
  by (auto simp: sending_def sender_inv_def sender_pending_def sendthread_round_def)

lemma round_sends:
  assumes "sending s" "sender_pending s = c # cs"
  obtains s' w' where
    "sendthread_round sf s w = Inr (if next_ret (w_sys w) < 0 then Ended else Again, s', w')"
    "sender_inv s'" "same_sender s s'" "sender_pending s' = cs" "s_queue s' \<noteq> None"
    "s_isrunning s' = (next_ret (w_sys w) \<ge> 0)"
    "w_io w' = w_io w @ [send_event (s_sockfd s) c (next_ret (w_sys w))]" "w_sys w' = tl (w_sys w)"
    "world.more w' = world.more w" "w_live w' = w_live w - 3" "w_malloc w' = w_malloc w"
proof -
  from assms(1) obtain q where q: "s_queue s = Some q" "queue_inv q" "q_used q = 0" "list_all wf_chunk (queue_content q)"
    "s_keepsending s" "s_isrunning s" "s_sendfun s = None"
    by (auto simp: sending_def sender_inv_def)
  with assms(2) have c: "queue_content q = c # cs" "wf_chunk c" by (simp_all add: sender_pending_def)
  obtain q' where q': "queue_pop_block (Some q) w = Inr (Some c, Some q', free w)" "queue_inv q'" "queue_content q' = cs"
    "q_done q' = q_done q" "q_used q' = q_used q"
    using pop_block_result(2) [OF q(2) c(1)] by blast
  obtain w1 where w1: "iemnet__sender_defaultsend (s_sockfd s) c (free w) = Inr (if next_ret (w_sys (free w)) < 0 then 0 else 1, w1)"
    "w_io w1 = w_io (free w) @ [send_event (s_sockfd s) c (next_ret (w_sys (free w)))]" "w_sys w1 = tl (w_sys (free w))"
    "world.more w1 = world.more (free w)" "w_live w1 = w_live (free w)" "w_malloc w1 = w_malloc (free w)"
    by (rule defaultsend_result [OF c(2)])
  have d: "c_data c \<noteq> None" using c(2) by (auto simp: wf_chunk_def split: option.splits)
  define w' where "w' = iemnet__chunk_destroy (Some c) w1"
  have w': "w_io w' = w_io w1" "w_sys w' = w_sys w1" "world.more w' = world.more w1" "w_live w' = w_live w1 - 2"
    "w_malloc w' = w_malloc w1"
    using d by (simp_all add: w'_def iemnet__chunk_destroy_def)
  let ?s = "s\<lparr>s_queue := Some q', s_isrunning := (next_ret (w_sys w) \<ge> 0)\<rparr>"
  have "s\<lparr>s_queue := Some q'\<rparr> = s\<lparr>s_queue := Some q', s_isrunning := True\<rparr>" using q(6) by (cases s) simp
  then have run: "sendthread_round sf s w = Inr (if next_ret (w_sys w) < 0 then Ended else Again, ?s, w')"
    using q q' w1(1) by (simp add: sendthread_round_def dosend_def w'_def Let_def)
  show thesis
    by (rule that [OF run]) (use q q' c w1 w' in \<open>simp_all add: sender_inv_def same_sender_def sender_pending_def\<close>)
qed

text \<open>The loop keeps to the specification.\<close>

lemma sendthread_transmits:
  assumes "sending s" "transmit n (s_sockfd s) (sender_pending s) (w_sys w) = (r, es, ds)"
  shows "\<exists>s' w'. sendthread sf n s w = Inr (r, s', w') \<and> sender_inv s' \<and> same_sender s s' \<and> s_queue s' \<noteq> None \<and>
    s_isrunning s' = (r \<noteq> Ended) \<and> sender_pending s' = ds \<and> w_io w' = w_io w @ es \<and>
    w_live w' + 3 * int (length (sender_pending s)) = w_live w + 3 * int (length ds) \<and>
    world.more w' = world.more w \<and> w_malloc w' = w_malloc w"
  using assms
proof (induction n arbitrary: s w r es ds)
  case 0
  then show ?case by (auto simp: sending_def same_sender_def)
next
  case (Suc n)
  show ?case
  proof (cases "sender_pending s")
    case Nil
    then show ?thesis using Suc.prems round_parked [OF Suc.prems(1), of sf w] by (auto simp: sending_def same_sender_def)
  next
    case (Cons c cs)
    obtain s1 w1 where w1: "sendthread_round sf s w = Inr (if next_ret (w_sys w) < 0 then Ended else Again, s1, w1)"
      "sender_inv s1" "same_sender s s1" "sender_pending s1 = cs" "s_queue s1 \<noteq> None"
      "s_isrunning s1 = (next_ret (w_sys w) \<ge> 0)"
      "w_io w1 = w_io w @ [send_event (s_sockfd s) c (next_ret (w_sys w))]" "w_sys w1 = tl (w_sys w)"
      "world.more w1 = world.more w" "w_live w1 = w_live w - 3" "w_malloc w1 = w_malloc w"
      by (rule round_sends [OF Suc.prems(1) Cons])
    show ?thesis
    proof (cases "next_ret (w_sys w) < 0")
      case True
      then show ?thesis using Suc.prems(2) w1 Cons by (auto intro!: exI [of _ s1] exI [of _ w1])
    next
      case False
      with w1 Suc.prems(1) have s1: "sending s1" "s_sockfd s1 = s_sockfd s" by (auto simp: sending_def same_sender_def)
      from Suc.prems(2) False Cons obtain es' where es: "transmit n (s_sockfd s1) (sender_pending s1) (w_sys w1) = (r, es', ds)"
        "es = send_event (s_sockfd s) c (next_ret (w_sys w)) # es'"
        by (auto simp: w1 s1 split: prod.splits)
      from Suc.IH [OF s1(1) es(1)] False w1 Cons es(2) show ?thesis by (auto simp: same_sender_def)
    qed
  qed
qed

text \<open>Enough rounds: one more than there are chunks waiting.\<close>

lemma transmit_returns: "length cs < n \<Longrightarrow> fst (transmit n fd cs rs) \<noteq> Again"
  by (induction n fd cs rs rule: transmit.induct) (auto simp: case_prod_beta Let_def)

lemma transmit_silent: "transmit n fd cs rs = (r, es, ds) \<Longrightarrow> fd_silent es"
  by (induction n fd cs rs arbitrary: r es ds rule: transmit.induct)
    (auto simp: send_event_def split: prod.splits if_splits)

text \<open>Whatever the thread does in some rounds is what the lives of the objects allow it to do.\<close>

lemma sendthread_works:
  assumes "sending s" "mem_ok w" "sendthread sf n s w = Inr (r, s', w')"
  shows "thread_works (Some s) w (Some s') w'"
proof -
  obtain es ds where t: "transmit n (s_sockfd s) (sender_pending s) (w_sys w) = (r, es, ds)"
    using sendthread_transmits [OF assms(1), of n w _ _ _ sf] assms(3) by (metis Pair_inject prod_cases3 sum.inject(2))
  have s: "s_queue s \<noteq> None" using assms(1) by (simp add: sending_def)
  have "sender_inv s'" "same_sender s s'" "s_queue s' \<noteq> None" "sender_pending s' = ds" "w_io w' = w_io w @ es"
    "w_live w' + 3 * int (length (sender_pending s)) = w_live w + 3 * int (length ds)" "w_malloc w' = w_malloc w"
    using sendthread_transmits [OF assms(1) t, of sf] assms(3) by auto
  with transmit_silent [OF t] assms(2) s show ?thesis
    by (auto simp: thread_works_def same_sender_def sender_blocks_def sender_pending_def mem_ok_def)
qed

text \<open>Without a queue, which \<^verbatim>\<open>iemnet__sender_create\<close> does not exclude, the loop never waits.\<close>

lemma null_queue_spins: "s_keepsending s \<Longrightarrow> s_queue s = None \<Longrightarrow> sendthread sf n s w = Inr (Again, s, w)"
  by (induction n) (cases s, simp add: sendthread_round_def queue_pop_block_def)+

section \<open>Bytes on the wire\<close>

text \<open>The bytes that the operating system has accepted for a connected socket.\<close>

fun wire_of :: "int \<Rightarrow> event \<Rightarrow> 8 word list" where
  "wire_of fd (Sys_send fd' _ bs dest r) = (if fd' = fd \<and> dest = None \<and> 0 \<le> r then take (nat r) bs else [])"
| "wire_of fd _ = []"

definition wire :: "int \<Rightarrow> event list \<Rightarrow> 8 word list" where
  "wire fd io = concat (map (wire_of fd) io)"

lemma wire_simps [simp]: "wire fd [] = []" "wire fd (e # io) = wire_of fd e @ wire fd io" "wire fd (io @ io') = wire fd io @ wire fd io'"
  by (simp_all add: wire_def)

text \<open>The operating system accepts some of the bytes it is given, at least none.\<close>

definition accepts :: "t_iemnet_chunk list \<Rightarrow> sysret list \<Rightarrow> bool" where
  "accepts cs rs \<longleftrightarrow> length cs \<le> length rs \<and> (\<forall>(c, r)\<in>set (zip cs rs). 0 \<le> a_ret r \<and> a_ret r \<le> int (c_size c))"

lemma accepts_simps [simp]:
  "accepts [] rs" "accepts (c # cs) [] = False"
  "accepts (c # cs) (r # rs) \<longleftrightarrow> 0 \<le> a_ret r \<and> a_ret r \<le> int (c_size c) \<and> accepts cs rs"
  by (auto simp: accepts_def)

definition all_accepted :: "t_iemnet_chunk list \<Rightarrow> sysret list \<Rightarrow> bool" where
  "all_accepted cs rs \<longleftrightarrow> list_all2 (\<lambda>c r. a_ret r = int (c_size c)) cs (take (length cs) rs)"

lemma wire_send_event: "c_port c = 0 \<Longrightarrow> 0 \<le> ret \<Longrightarrow> wire_of fd (send_event fd c ret) = take (nat ret) (chunk_bytes c)"
  by (simp add: send_event_def)

lemma transmit_accepted:
  "length cs < n \<Longrightarrow> accepts cs rs \<Longrightarrow> list_all (\<lambda>c. c_port c = 0) cs \<Longrightarrow>
   \<exists>es. transmit n fd cs rs = (Parked, es, []) \<and>
     wire fd es = concat (map2 (\<lambda>c r. take (nat (a_ret r)) (chunk_bytes c)) cs rs)"
proof (induction n fd cs rs rule: transmit.induct)
  case (3 n fd c cs rs)
  then show ?case by (cases rs) (auto simp: next_ret_def wire_send_event)
qed auto

lemma list_chunk_bytes_length: "wf_chunk c \<Longrightarrow> length (chunk_bytes c) = c_size c"
  by (auto simp: wf_chunk_def chunk_bytes_def split: option.splits)

lemma concat_take_all:
  assumes "accepts cs rs" "list_all wf_chunk cs"
  shows "concat (map2 (\<lambda>c r. take (nat (a_ret r)) (chunk_bytes c)) cs rs) = concat (map chunk_bytes cs) \<longleftrightarrow> all_accepted cs rs"
    (is "?l cs rs = _ \<longleftrightarrow> _")
proof -
  have len: "length (?l cs rs) \<le> length (concat (map chunk_bytes cs)) \<and>
      (length (?l cs rs) = length (concat (map chunk_bytes cs)) \<longrightarrow> all_accepted cs rs)"
    using assms
  proof (induction cs arbitrary: rs)
    case (Cons c cs)
    then obtain r rs' where "rs = r # rs'" by (cases rs) auto
    with Cons.prems Cons.IH [of rs'] list_chunk_bytes_length [of c] show ?case by (auto simp: all_accepted_def)
  qed (simp add: all_accepted_def)
  have "all_accepted cs rs \<Longrightarrow> ?l cs rs = concat (map chunk_bytes cs)"
    using assms
  proof (induction cs arbitrary: rs)
    case (Cons c cs)
    then obtain r rs' where "rs = r # rs'" by (cases rs) auto
    with Cons.prems Cons.IH [of rs'] list_chunk_bytes_length [of c] show ?case by (auto simp: all_accepted_def)
  qed simp
  with len show ?thesis by auto
qed

section \<open>The rounds are paths of the transition system\<close>

text \<open>Where the send thread is after a round, and what it has made of the flags.\<close>

definition thread_at :: "round \<Rightarrow> t_iemnet_sender \<Rightarrow> sys \<Rightarrow> bool" where
  "thread_at r s y \<longleftrightarrow> y_keep y = s_keepsending s \<and> y_run y = s_isrunning s \<and>
     (case r of Again \<Rightarrow> y_tpc y = T_loop \<and> y_mtx y = Some Thread \<and> s_queue s = Some (y_q y)
      | Parked \<Rightarrow> y_tpc y = T_waiting \<and> y_mtx y = None \<and> map_option queue_use_increment (s_queue s) = Some (y_q y)
      | Ended \<Rightarrow> y_tpc y = T_done \<and> y_mtx y = None \<and> s_queue s = Some (y_q y))"

text \<open>The thread attempted to send the chunks \<open>cs\<close> and the main thread stayed where it was.\<close>

definition attempts :: "sys \<Rightarrow> t_iemnet_chunk list \<Rightarrow> sys \<Rightarrow> bool" where
  "attempts y cs y' \<longleftrightarrow> tstep\<^sup>*\<^sup>* y y' \<and> y_mpc y' = y_mpc y \<and> y_sent y' @ y_failed y' = (y_sent y @ y_failed y) @ cs"

lemma attempts_trans: "attempts y cs y' \<Longrightarrow> attempts y' ds y'' \<Longrightarrow> attempts y (cs @ ds) y''"
  by (auto simp: attempts_def)

lemma tstep_pop:
  assumes "y_tpc y = T_loop" "y_keep y" "queue_pop_block_enter (queue_use_increment (y_q y)) = Inr (p, q)"
  shows "tstep\<^sup>*\<^sup>* y (y\<lparr>y_mtx := None, y_q := q, y_tpc := popped p\<rparr>)"
proof -
  let ?y1 = "y\<lparr>y_mtx := None, y_tpc := T_pop\<rparr>"
  let ?y2 = "?y1\<lparr>y_q := queue_use_increment (y_q ?y1), y_tpc := T_enter\<rparr>"
  have "tstep y ?y1" by (rule t_continue [OF assms(1,2)])
  moreover have "tstep ?y1 ?y2" by (rule t_pop) simp
  moreover have "tstep ?y2 (?y2\<lparr>y_q := q, y_tpc := popped p\<rparr>)" by (rule t_enter) (use assms(3) in simp_all)
  ultimately show ?thesis by (simp add: converse_rtranclp_into_rtranclp)
qed

lemma tstep_dispose:
  assumes "y_tpc y = T_leave (Some c)" "y_mtx y = None" "y_keep y" "y_run y" "y_failed y = []"
    and "queue_use_decrement (y_q y) = q"
  shows "\<exists>y'. attempts y [c] y' \<and> y_tpc y' = T_loop \<and> y_mtx y' = Some Thread \<and> y_run y' \<and> y_keep y' \<and> y_q y' = q \<and> y_failed y' = []"
    and "\<exists>y'. attempts y [c] y' \<and> y_tpc y' = T_done \<and> y_mtx y' = None \<and> \<not> y_run y' \<and> y_keep y' \<and> y_q y' = q"
proof -
  define y1 where "y1 = y\<lparr>y_q := queue_use_decrement (y_q y), y_tpc := T_got (Some c)\<rparr>"
  have s1: "tstep y y1" unfolding y1_def by (rule t_leave [OF assms(1)])
  have got: "y_tpc y1 = T_got (Some c)" by (simp add: y1_def)
  define y2 where "y2 = y1\<lparr>y_sent := y_sent y1 @ [c], y_tpc := T_relock,
    y_late := (if y_keep y1 then y_late y1 else Suc (y_late y1))\<rparr>"
  have s2: "tstep y1 y2" unfolding y2_def by (rule t_send [OF got])
  have s3: "tstep y2 (y2\<lparr>y_mtx := Some Thread, y_tpc := T_loop\<rparr>)"
    by (rule t_relock) (simp_all add: y2_def y1_def assms)
  show "\<exists>y'. attempts y [c] y' \<and> y_tpc y' = T_loop \<and> y_mtx y' = Some Thread \<and> y_run y' \<and> y_keep y' \<and> y_q y' = q \<and> y_failed y' = []"
    using s1 s2 s3 assms
    by (intro exI [of _ "y2\<lparr>y_mtx := Some Thread, y_tpc := T_loop\<rparr>"])
      (simp add: attempts_def y2_def y1_def converse_rtranclp_into_rtranclp)
  define y4 where "y4 = y1\<lparr>y_failed := y_failed y1 @ [c], y_tpc := T_break,
    y_late := (if y_keep y1 then y_late y1 else Suc (y_late y1))\<rparr>"
  have s4: "tstep y1 y4" unfolding y4_def by (rule t_fail [OF got])
  define y5 where "y5 = y4\<lparr>y_mtx := Some Thread, y_tpc := T_exit\<rparr>"
  have s5: "tstep y4 y5" unfolding y5_def by (rule t_break) (simp_all add: y4_def y1_def assms)
  have s6: "tstep y5 (y5\<lparr>y_run := False, y_mtx := None, y_tpc := T_done\<rparr>)" by (rule t_exit) (simp add: y5_def)
  show "\<exists>y'. attempts y [c] y' \<and> y_tpc y' = T_done \<and> y_mtx y' = None \<and> \<not> y_run y' \<and> y_keep y' \<and> y_q y' = q"
    using s1 s4 s5 s6 assms
    by (intro exI [of _ "y5\<lparr>y_run := False, y_mtx := None, y_tpc := T_done\<rparr>"])
      (simp add: attempts_def y5_def y4_def y1_def converse_rtranclp_into_rtranclp)
qed

text \<open>One round is a path; the attempt of the path is the call in the log.\<close>

lemma round_path_parked:
  assumes "sending s" "thread_at Again s y" "sender_pending s = []" "sendthread_round sf s w = Inr (r, s', w')"
  shows "\<exists>y'. attempts y [] y' \<and> thread_at r s' y' \<and> r = Parked \<and> s' = s \<and> w' = w"
proof -
  from assms(1,2) have inv: "queue_inv (y_q y)" "s_keepsending s" "s_isrunning s" "s_queue s = Some (y_q y)"
    by (auto simp: sending_def sender_inv_def thread_at_def)
  have y: "y_tpc y = T_loop" "y_keep y" "y_run y" "y_mtx y = Some Thread"
    using assms(2) inv by (simp_all add: thread_at_def)
  let ?q = "queue_use_increment (y_q y)"
  have "queue_inv ?q" "queue_content ?q = queue_content (y_q y)" using inv by (simp_all add: queue_use_increment_def)
  then have e: "queue_pop_block_enter ?q = Inr (Waiting, ?q)"
    using pop_block_enter_cases(1) [of ?q] inv assms(3) by (simp add: sender_pending_def)
  from round_parked [OF assms(1,3), of sf w] assms(4) have r: "r = Parked" "s' = s" "w' = w" by simp_all
  let ?y = "y\<lparr>y_mtx := None, y_q := ?q, y_tpc := T_waiting\<rparr>"
  have "attempts y [] ?y" using tstep_pop [OF y(1,2) e] by (simp add: attempts_def popped_def)
  moreover have "thread_at Parked s ?y" using inv y by (simp add: thread_at_def)
  ultimately show ?thesis using r by blast
qed

lemma round_path_sends:
  assumes "sending s" "thread_at Again s y" "y_failed y = []" "sender_pending s = c # cs"
    and "sendthread_round sf s w = Inr (r, s', w')"
  shows "\<exists>y'. attempts y [c] y' \<and> thread_at r s' y' \<and> (r = Again \<longrightarrow> y_failed y' = [] \<and> sending s') \<and>
    w_io w' = w_io w @ [send_event (s_sockfd s) c (next_ret (w_sys w))] \<and> s_sockfd s' = s_sockfd s"
proof -
  from assms(1,2) have inv: "queue_inv (y_q y)" "s_keepsending s" "s_isrunning s" "s_queue s = Some (y_q y)"
    by (auto simp: sending_def sender_inv_def thread_at_def)
  have y: "y_tpc y = T_loop" "y_keep y" "y_run y" "y_mtx y = Some Thread"
    using assms(2) inv by (simp_all add: thread_at_def)
  let ?q = "queue_use_increment (y_q y)"
  have "queue_inv ?q" "queue_content ?q = c # cs" using inv assms(4) by (simp_all add: queue_use_increment_def sender_pending_def)
  then obtain q1 where e: "queue_pop_block_enter ?q = Inr (Popped (Some c), q1)" using pop_block_enter_cases(2) by blast
  have q: "s_queue s' = Some (queue_use_decrement q1)"
    using assms(5) inv e by (auto simp: sendthread_round_def queue_pop_block_def res_simps Let_def split: if_splits)
  obtain s1 w1 where w1: "sendthread_round sf s w = Inr (if next_ret (w_sys w) < 0 then Ended else Again, s1, w1)"
    "sender_inv s1" "same_sender s s1" "s_queue s1 \<noteq> None"
    "s_isrunning s1 = (next_ret (w_sys w) \<ge> 0)" "w_io w1 = w_io w @ [send_event (s_sockfd s) c (next_ret (w_sys w))]"
    by (rule round_sends [OF assms(1,4)])
  with assms(5) have r: "r = (if next_ret (w_sys w) < 0 then Ended else Again)" "s1 = s'" "w1 = w'" by simp_all
  define y1 where "y1 = y\<lparr>y_mtx := None, y_q := q1, y_tpc := T_leave (Some c)\<rparr>"
  have y1: "y_tpc y1 = T_leave (Some c)" "y_mtx y1 = None" "y_keep y1" "y_run y1" "y_failed y1 = []"
    "queue_use_decrement (y_q y1) = queue_use_decrement q1"
    using y assms(3) by (simp_all add: y1_def)
  have a0: "attempts y [] y1" using tstep_pop [OF y(1,2) e] by (simp add: attempts_def popped_def y1_def)
  obtain y' where y': "attempts y1 [c] y'" "thread_at r s' y'" "r = Again \<longrightarrow> y_failed y' = []"
    using tstep_dispose [OF y1] r w1 q inv
    by (cases "next_ret (w_sys w) < 0") (auto simp: thread_at_def same_sender_def)
  moreover have "r = Again \<longrightarrow> sending s'"
    using r w1 assms(1) by (auto simp: sending_def same_sender_def split: if_splits)
  ultimately show ?thesis
    using attempts_trans [OF a0 y'(1)] y' w1 r by (intro exI [of _ y']) (simp add: same_sender_def)
qed

lemma round_path:
  assumes "sending s" "thread_at Again s y" "y_failed y = []" "sendthread_round sf s w = Inr (r, s', w')"
  shows "\<exists>y' cs rets. attempts y cs y' \<and> thread_at r s' y' \<and> (r = Again \<longrightarrow> y_failed y' = [] \<and> sending s') \<and>
    length rets = length cs \<and> w_io w' = w_io w @ map2 (send_event (s_sockfd s)) cs rets \<and> s_sockfd s' = s_sockfd s"
proof (cases "sender_pending s")
  case Nil
  from round_path_parked [OF assms(1,2) Nil assms(4)] show ?thesis by fastforce
next
  case (Cons c cs)
  from round_path_sends [OF assms(1-3) Cons assms(4)] obtain y' where
    "attempts y [c] y'" "thread_at r s' y'" "r = Again \<longrightarrow> y_failed y' = [] \<and> sending s'"
    "w_io w' = w_io w @ [send_event (s_sockfd s) c (next_ret (w_sys w))]" "s_sockfd s' = s_sockfd s" by blast
  then show ?thesis by (intro exI [of _ y'] exI [of _ "[c]"] exI [of _ "[next_ret (w_sys w)]"]) simp
qed

lemma sendthread_path:
  assumes "sending s" "thread_at Again s y" "y_failed y = []" "sendthread sf n s w = Inr (r, s', w')"
  shows "\<exists>y' cs rets. attempts y cs y' \<and> thread_at r s' y' \<and>
    length rets = length cs \<and> w_io w' = w_io w @ map2 (send_event (s_sockfd s)) cs rets"
  using assms
proof (induction n arbitrary: s w y)
  case 0
  then show ?case by (auto simp: attempts_def intro!: exI [of _ y] exI [of _ "[]"])
next
  case (Suc n)
  from Suc.prems(4) obtain r1 s1 w1 where w1: "sendthread_round sf s w = Inr (r1, s1, w1)"
    "(case r1 of Again \<Rightarrow> sendthread sf n s1 w1 | _ \<Rightarrow> Inr (r1, s1, w1)) = Inr (r, s', w')"
    by (auto simp: res_simps)
  obtain y1 cs rets where y1: "attempts y cs y1" "thread_at r1 s1 y1" "r1 = Again \<longrightarrow> y_failed y1 = [] \<and> sending s1"
    "length rets = length cs" "w_io w1 = w_io w @ map2 (send_event (s_sockfd s)) cs rets" "s_sockfd s1 = s_sockfd s"
    using round_path [OF Suc.prems(1-3) w1(1)] by blast
  show ?case
  proof (cases "r1 = Again")
    case True
    with Suc.IH [of s1 y1 w1] y1 w1(2) obtain y' ds rets' where
      "attempts y1 ds y'" "thread_at r s' y'" "length rets' = length ds"
      "w_io w' = w_io w1 @ map2 (send_event (s_sockfd s1)) ds rets'" by auto
    with y1 show ?thesis
      by (intro exI [of _ y'] exI [of _ "cs @ ds"] exI [of _ "rets @ rets'"]) (auto intro: attempts_trans)
  next
    case False
    then have "r1 = r" "s1 = s'" "w1 = w'" using w1(2) by (cases r1; simp)+
    with y1 show ?thesis by blast
  qed
qed

section \<open>Properties\<close>

text \<open>A sender with one chunk waiting, and the thread at the head of its loop.\<close>

definition queue_one :: "t_iemnet_chunk \<Rightarrow> t_iemnet_queue" where
  "queue_one c = queue_empty\<lparr>q_head := Some 1, q_tail := Some 1, q_size := of_nat (c_size c),
     q_nodes := [(1, \<lparr>n_next = None, n_data = Some c\<rparr>)]\<rparr>"

lemma queue_one_append: "queue_append c queue_empty = Inr (queue_one c)"
  by (simp add: queue_append_def queue_new_node_def queue_link_def queue_empty_def queue_one_def
      heap_fresh_def heap_put_def)

lemma queue_one_facts: "queue_inv (queue_one c)" "queue_content (queue_one c) = [c]" "q_used (queue_one c) = 0"
proof -
  obtain q where "queue_append c queue_empty = Inr q" "queue_inv q" "queue_content q = queue_content queue_empty @ [c]"
    "q_used q = q_used queue_empty"
    by (rule queue_inv_append [OF queue_empty_inv(1)])
  then show "queue_inv (queue_one c)" "queue_content (queue_one c) = [c]" "q_used (queue_one c) = 0"
    using queue_one_append [of c] by (simp_all add: queue_empty_def [THEN arg_cong, of q_used])
qed

definition sys_queued :: "t_iemnet_chunk \<Rightarrow> sys" where
  "sys_queued c = sys_init\<lparr>y_q := queue_one c, y_pushed := [c], y_mtx := Some Thread, y_tpc := T_loop\<rparr>"

lemma reach_queued: "reach (sys_queued c)"
proof -
  have "reach (sys_init\<lparr>y_mpc := M_push c\<rparr>)" (is "reach ?p")
    by (rule reach_mstep [OF reach_init]) (rule m_send, simp_all add: sys_init_def)
  then have "reach (wake (?p\<lparr>y_q := queue_one c, y_pushed := y_pushed ?p @ [c], y_mpc := M_idle\<rparr>))" (is "reach ?q")
    by (rule reach_mstep) (rule m_push, simp_all add: sys_init_def queue_one_append)
  then have "reach (?q\<lparr>y_mtx := Some Thread, y_tpc := T_loop\<rparr>)"
    by (rule reach_tstep) (rule t_start, simp_all add: wake_def sys_init_def)
  then show ?thesis by (simp add: sys_queued_def wake_def sys_init_def)
qed

definition sender_queued :: "t_iemnet_chunk \<Rightarrow> t_iemnet_sender" where
  "sender_queued c = sample_sender\<lparr>s_queue := Some (queue_one c)\<rparr>"

lemma sender_queued_facts:
  "wf_chunk c \<Longrightarrow> sending (sender_queued c)" "sender_pending (sender_queued c) = [c]" "s_sockfd (sender_queued c) = 5"
  "s_queue (sender_queued c) = Some (queue_one c)" "s_sendfun (sender_queued c) = None"
  by (simp_all add: sending_def sender_queued_def sample_sender_def sender_inv_def sender_pending_def queue_one_facts)

lemma tsteps_reach: "tstep\<^sup>*\<^sup>* y y' \<Longrightarrow> reach y \<Longrightarrow> reach y'"
  by (induction rule: rtranclp_induct) (auto intro: reach_tstep)

text \<open>
  C9. The loop of the send thread, run for any number of rounds from a reachable state of the interleaving model, is a path
  of that model: the thread stops where the model says (at the head of the loop, waiting in the pop, or
  terminated), and every chunk that the model counts as attempted is one call into the operating system, in order.
\<close>

theorem sendthread_is_path:
  assumes "reach y" "y_tpc y = T_loop" "y_keep y" "sender_inv s" "s_sendfun s = None"
    and "s_queue s = Some (y_q y)" "s_isrunning s = y_run y" "sendthread sf n s w = Inr (r, s', w')"
  shows "\<exists>y' cs rets. tstep\<^sup>*\<^sup>* y y' \<and> reach y' \<and> thread_at r s' y' \<and>
    y_sent y' @ y_failed y' = y_sent y @ cs \<and> length rets = length cs \<and>
    w_io w' = w_io w @ map2 (send_event (s_sockfd s)) cs rets"
proof -
  have "lock_inv y" "order_inv y" using reach_invs [OF assms(1)] by simp_all
  then have y: "y_run y" "y_mtx y = Some Thread" "y_failed y = []"
    using assms(2) by (auto simp: lock_inv_def order_inv_def)
  then have "sending s" "thread_at Again s y"
    using assms by (auto simp: sending_def thread_at_def sender_inv_def)
  from sendthread_path [OF this y(3) assms(8)] y(3) tsteps_reach [OF _ assms(1)] show ?thesis
    by (auto simp: attempts_def)
qed

theorem sendthread_is_path_witness:
  "\<exists>r s' w' y' cs rets. sendthread (\<lambda>_ _ _ _. Inl NullDeref) 2 (sender_queued (sample_chunk 7)) world0 = Inr (r, s', w') \<and>
    tstep\<^sup>*\<^sup>* (sys_queued (sample_chunk 7)) y' \<and> thread_at r s' y' \<and> y_sent y' @ y_failed y' = cs \<and>
    w_io w' = map2 (send_event 5) cs rets"
proof -
  let ?c = "sample_chunk 7" and ?sf = "\<lambda>_ _ _ _. Inl NullDeref"
  have s: "sending (sender_queued ?c)" by (rule sender_queued_facts(1)) simp
  obtain r es ds where "transmit 2 (s_sockfd (sender_queued ?c)) (sender_pending (sender_queued ?c)) (w_sys world0) = (r, es, ds)"
    by (rule prod_cases3)
  from sendthread_transmits [OF s this, of ?sf] obtain s' w' where
    run: "sendthread ?sf 2 (sender_queued ?c) world0 = Inr (r, s', w')" by blast
  have y: "y_tpc (sys_queued ?c) = T_loop" "y_keep (sys_queued ?c)" "y_run (sys_queued ?c)" "y_q (sys_queued ?c) = queue_one ?c"
    "y_sent (sys_queued ?c) = []"
    by (simp_all add: sys_queued_def sys_init_def)
  have i: "sender_inv (sender_queued ?c)" "s_isrunning (sender_queued ?c) = y_run (sys_queued ?c)"
    "s_queue (sender_queued ?c) = Some (y_q (sys_queued ?c))"
    using s y by (simp_all add: sending_def sender_queued_facts)
  from sendthread_is_path [OF reach_queued y(1,2) i(1) sender_queued_facts(5) i(3,2) run] run y(5) show ?thesis
    unfolding sender_queued_facts(3) by fastforce
qed

text \<open>
  C10. On a connected socket the send thread hands over all waiting chunks, frees them and waits for more. The bytes that the
  operating system accepted are complete exactly when it accepted every chunk as a whole: the thread takes
  a short count for success and does not send the rest.
\<close>

theorem short_counts_lose_bytes:
  assumes "sender_inv s" "s_isrunning s" "s_sendfun s = None" "s_queue s \<noteq> None" "list_all (\<lambda>c. c_port c = 0) (sender_pending s)"
    and "length (sender_pending s) < n" "accepts (sender_pending s) (w_sys w)"
  shows "\<exists>s' w'. sendthread sf n s w = Inr (Parked, s', w') \<and> sender_inv s' \<and> sender_pending s' = [] \<and> s_isrunning s' \<and>
    w_live w' = w_live w - 3 * int (length (sender_pending s)) \<and>
    (wire (s_sockfd s) (w_io w') = wire (s_sockfd s) (w_io w) @ concat (map chunk_bytes (sender_pending s)) \<longleftrightarrow>
     all_accepted (sender_pending s) (w_sys w))"
proof -
  have s: "sending s" using assms(1-4) by (simp add: sending_def)
  have wf: "list_all wf_chunk (sender_pending s)"
    using assms(1) by (auto simp: sender_inv_def sender_pending_def split: option.splits)
  obtain es where es: "transmit n (s_sockfd s) (sender_pending s) (w_sys w) = (Parked, es, [])"
    "wire (s_sockfd s) es = concat (map2 (\<lambda>c r. take (nat (a_ret r)) (chunk_bytes c)) (sender_pending s) (w_sys w))"
    using transmit_accepted [OF assms(6,7,5)] by blast
  then show ?thesis
    using sendthread_transmits [OF s es(1), of sf] concat_take_all [OF assms(7) wf] by auto
qed

text \<open>Two bytes, of which the operating system takes one.\<close>

definition two_bytes :: t_iemnet_chunk where
  "two_bytes = \<lparr>c_data = Some [1, 2], c_size = 2, c_addr = 0, c_port = 0, c_family = AF_INET\<rparr>"

theorem short_counts_lose_bytes_witness:
  "\<exists>s' w'. sendthread (\<lambda>_ _ _ _. Inl NullDeref) 2 (sender_queued two_bytes) (world0\<lparr>w_sys := [sys_ret 1]\<rparr>) = Inr (Parked, s', w') \<and>
    sender_pending s' = [] \<and> wire 5 (w_io w') \<noteq> [1, 2]"
proof -
  let ?s = "sender_queued two_bytes" and ?w = "world0\<lparr>w_sys := [sys_ret 1]\<rparr>"
  have s: "sending ?s" by (rule sender_queued_facts(1)) (simp add: wf_chunk_def two_bytes_def)
  have e: "list_all (\<lambda>c. c_port c = 0) (sender_pending ?s)" "length (sender_pending ?s) < 2" "accepts (sender_pending ?s) (w_sys ?w)"
    "\<not> all_accepted (sender_pending ?s) (w_sys ?w)" "concat (map chunk_bytes (sender_pending ?s)) = [1, 2]"
    by (simp_all add: sender_queued_facts two_bytes_def all_accepted_def chunk_bytes_def)
  from short_counts_lose_bytes [OF _ _ _ _ e(1-3), of "\<lambda>_ _ _ _. Inl NullDeref"] s e(4,5) show ?thesis
    by (auto simp: sending_def sender_queued_facts(3))
qed

end
