(* ===== verification/Tcp_Server.thy ===== *)
theory Tcp_Server
  imports Object_Common
begin

text \<open>
  The object of \<^verbatim>\<open>tcpserver.c\<close>: a listening socket and a table of connections. The connection
  structures live on a heap of their own, because broadcasting works on a copy of the pointer
  table while failing connections are removed from the original. Handlers are modelled from start
  to end; messages that an outlet call might send back into the object are not interleaved.
\<close>

unbundle bit_operations_syntax

section \<open>State\<close>

datatype t_tcpserver_event =
  ILLEGAL | SERVER_INFO | CLIENT_INFO | DISCONNECT | CONNECT | RECEIVE | SEND

record t_tcpserver_socketreceiver =
  sr_owner :: bool
  sr_host :: "32 word"
  sr_port :: "16 word"
  sr_fd :: int
  sr_client :: nat
  sr_sender :: "t_iemnet_sender option"
  sr_receiver :: "t_iemnet_receiver option"
  sr_hostname :: string

text \<open>
  The object together with the world. \<open>x_sr\<close> is the pointer table, \<open>srs\<close> the connection
  structures that the pointers lead to. The owner pointer of a connection is the object or NULL.
\<close>

record t_tcpserver = world +
  x_serialize :: int
  x_accepting :: int
  x_sr :: "ptr list"
  x_nconnections :: nat
  x_maxconnections :: nat
  x_connectsocket :: int
  x_port :: int
  x_defaulttarget :: int
  x_floatlist :: "t_iemnet_floatlist option"
  srs :: "t_tcpserver_socketreceiver heap"

section \<open>Information\<close>

fun event_name :: "t_tcpserver_event \<Rightarrow> string option" where
  "event_name SERVER_INFO = Some ''server''"
| "event_name CLIENT_INFO = Some ''client''"
| "event_name CONNECT = Some ''connect''"
| "event_name DISCONNECT = Some ''disconnect''"
| "event_name SEND = Some ''send''"
| "event_name RECEIVE = Some ''receive''"
| "event_name ILLEGAL = None"

definition tcpserver_info_event ::
    "t_tcpserver_event \<Rightarrow> 'w world_scheme \<Rightarrow> t_tcpserver_event \<times> 'w world_scheme" where
  "tcpserver_info_event event w = (case event_name event of
     None \<Rightarrow> (ILLEGAL, w)
   | Some s \<Rightarrow> (event, emit (Outlet_anything Statusout ''type'' [A_SYMBOL s]) w))"

definition tcpserver_socketreceiver_new ::
    "int \<Rightarrow> sockaddr_in \<Rightarrow> nat \<Rightarrow> t_tcpserver \<Rightarrow> (ptr \<times> t_tcpserver) res" where
  "tcpserver_socketreceiver_new sockfd addr client w =
     (let (ok, w) = malloc w in
      if \<not> ok then Inr (None, emit (Iemnet_log IEMNET_FATAL ''unable to allocate %d bytes'' []) w)
      else
        let a = heap_fresh (srs w); host = ntohl (sin_addr addr) in
        res_bind (iemnet__sender_create sockfd None None w) (\<lambda>(sender, w).
          let (receiver, w) = iemnet__receiver_create sockfd (Some a) False w;
              x = \<lparr>sr_owner = True, sr_host = host, sr_port = ntohs (sin_port addr), sr_fd = sockfd,
                   sr_client = client, sr_sender = sender, sr_receiver = receiver,
                   sr_hostname = dotted_quads host\<rparr>
          in Inr (Some a, w\<lparr>srs := heap_put (srs w) a x\<rparr>)))"

definition tcpserver_socketreceiver_free :: "ptr \<Rightarrow> t_tcpserver \<Rightarrow> t_tcpserver res" where
  "tcpserver_socketreceiver_free p w = (case p of None \<Rightarrow> Inr w
     | Some a \<Rightarrow> res_bind (heap_get (srs w) p) (\<lambda>x.
         let sockfd = sr_fd x;
             w = w\<lparr>srs := heap_put (srs w) a
                   (x\<lparr>sr_owner := False, sr_sender := None, sr_receiver := None, sr_fd := -1\<rparr>)\<rparr>
         in res_bind (case sr_sender x of None \<Rightarrow> Inr w | Some s \<Rightarrow> iemnet__sender_destroy s w) (\<lambda>w.
              let w = iemnet__receiver_destroy (sr_receiver x) False w;
                  w = iemnet__closesocket sockfd True w;
                  w = free w
              in Inr (w\<lparr>srs := heap_free (srs w) a\<rparr>))))"

text \<open>The connection that table entry \<open>i\<close> leads to.\<close>

definition sr_at :: "nat \<Rightarrow> t_tcpserver \<Rightarrow> t_tcpserver_socketreceiver res" where
  "sr_at i w = res_bind (arr_get (x_sr w) i) (heap_get (srs w))"

definition tcpserver_socket2index :: "int \<Rightarrow> t_tcpserver \<Rightarrow> int res" where
  "tcpserver_socket2index sockfd w =
     index_loop (\<lambda>i. res_bind (sr_at i w) (\<lambda>x. Inr (sr_fd x = sockfd))) [0..<x_nconnections w]"

definition tcpserver_fixindex :: "int \<Rightarrow> t_tcpserver \<Rightarrow> int \<times> t_tcpserver" where
  "tcpserver_fixindex client w =
     (if x_nconnections w \<le> 0 then (-1, emit (Iemnet_log IEMNET_ERROR ''no clients connected'' []) w)
      else if \<not> (client > 0 \<and> nat client \<le> x_nconnections w)
      then (-1, emit (Iemnet_log IEMNET_ERROR ''client:%d out of range [1..%d]''
                  [L_int client, L_int (int (x_nconnections w))]) w)
      else (client - 1, w))"

definition tcpserver_info_client :: "nat \<Rightarrow> t_tcpserver \<Rightarrow> t_tcpserver res" where
  "tcpserver_info_client client w =
     (if client < x_maxconnections w then
        res_bind (arr_get (x_sr w) client) (\<lambda>p.
          if p = None then Inr w
          else res_bind (heap_get (srs w) p) (\<lambda>x.
            let insize = iemnet__receiver_getsize (sr_receiver x);
                outsize = iemnet__sender_getsize (sr_sender x);
                w = snd (tcpserver_info_event CLIENT_INFO w);
                w = emit (Outlet_anything Statusout ''client''
                      [SETFLOAT (int client + 1), SETFLOAT (sr_fd x), A_SYMBOL (sr_hostname x),
                       SETFLOAT (uint (sr_port x))]) w
            in Inr (emit (Outlet_anything Statusout ''bufsize''
                      [SETFLOAT (int client + 1), SETFLOAT insize, SETFLOAT outsize]) w)))
      else Inr w)"

definition tcpserver_info :: "string \<Rightarrow> t_tcpserver \<Rightarrow> t_tcpserver" where
  "tcpserver_info junk w =
     (let sockfd = x_connectsocket w in
      if sockfd < 0 then emit (Iemnet_log IEMNET_ERROR ''no open socket'' []) w
      else
        let (ok, w) =
              (if x_port w \<le> 0 then
                 let (r, w) = sys_call ''getsockname'' [sockfd] w in
                 if a_ret r = 0 then (True, w\<lparr>x_port := uint (name_port (a_name r))\<rparr>)
                 else (False, emit (Sys_sockerror ''getsockname'')
                        (emit (Iemnet_log IEMNET_ERROR ''unable to get socket name for %d'' [L_int sockfd]) w))
               else (True, w))
        in if \<not> ok then w
           else
             let w = snd (tcpserver_info_event SERVER_INFO w);
                 w = iemnet__socket2addressout junk sockfd Statusout ''local_address'' w;
                 w = emit (Outlet_anything Statusout ''port'' [SETFLOAT (x_port w)]) w
             in emit (Outlet_anything Statusout ''maxconnections'' [SETFLOAT (int (x_maxconnections w))]) w)"

definition tcpserver_info_connection ::
    "t_tcpserver_socketreceiver \<Rightarrow> t_tcpserver_event \<Rightarrow> t_tcpserver \<Rightarrow> t_tcpserver" where
  "tcpserver_info_connection y event w =
     (let w = snd (tcpserver_info_event event w);
          w = emit (Outlet_anything Statusout ''client''
                [SETFLOAT (int (sr_client y) + 1), SETFLOAT (sr_fd y), A_SYMBOL (sr_hostname y),
                 SETFLOAT (uint (sr_port y))]) w;
          w = emit (Outlet_anything Statusout ''socket'' [SETFLOAT (sr_fd y)]) w;
          w = iemnet__addrout (Some Statusout) (Some Addrout) (sr_host y) (sr_port y) w
      in emit (Outlet_float Sockout (t_float_of_int (sr_fd y))) w)"

section \<open>Disconnecting\<close>

text \<open>One round of the loop that closes the gap in the table.\<close>

definition shift_left :: "nat \<Rightarrow> ptr list \<Rightarrow> ptr list res" where
  "shift_left k sr = res_bind (arr_get sr (k + 1)) (arr_set sr k)"

definition tcpserver_disconnect :: "nat \<Rightarrow> t_tcpserver \<Rightarrow> t_tcpserver res" where
  "tcpserver_disconnect client w =
     res_bind (arr_get (x_sr w) client) (\<lambda>p. res_bind (heap_get (srs w) p) (\<lambda>y.
       let w = tcpserver_info_connection y DISCONNECT w in
       res_bind (tcpserver_socketreceiver_free p w) (\<lambda>w.
       res_bind (arr_set (x_sr w) client None) (\<lambda>sr.
       res_bind (res_fold shift_left [client..<x_nconnections w] sr) (\<lambda>sr.
       let k = max client (x_nconnections w) in
       res_bind (arr_set sr (k + 1) None) (\<lambda>sr.
       let w = w\<lparr>x_sr := sr, x_nconnections := uint_dec (x_nconnections w)\<rparr> in
       Inr (iemnet__numconnout (Some Statusout) (Some Connectout) (int (x_nconnections w)) w)))))))"

definition tcpserver_disconnect_client :: "t_float \<Rightarrow> t_tcpserver \<Rightarrow> t_tcpserver res" where
  "tcpserver_disconnect_client fclient w =
     (let (client, w) = tcpserver_fixindex (c_int fclient) w in
      if client < 0 then Inr w else tcpserver_disconnect (nat client) w)"

definition tcpserver_disconnect_socket :: "t_float \<Rightarrow> t_tcpserver \<Rightarrow> t_tcpserver res" where
  "tcpserver_disconnect_socket fsocket w =
     res_bind (tcpserver_socket2index (c_int fsocket) w) (\<lambda>k.
       if k \<ge> 0 then tcpserver_disconnect_client (t_float_of_int (k + 1)) w else Inr w)"

lemma world_more_cong:
  assumes "world.more w' = world.more (w :: t_tcpserver)"
  shows "x_sr w' = x_sr w" "x_nconnections w' = x_nconnections w" "x_maxconnections w' = x_maxconnections w"
    "srs w' = srs w" "x_floatlist w' = x_floatlist w" "x_defaulttarget w' = x_defaulttarget w"
    "x_connectsocket w' = x_connectsocket w" "x_port w' = x_port w" "x_serialize w' = x_serialize w"
    "x_accepting w' = x_accepting w"
  using assms by (cases w; cases w'; simp)+

lemma info_event_frame [simp]:
  "world.more (snd (tcpserver_info_event e w)) = world.more w"
  by (simp add: tcpserver_info_event_def split: option.splits)

lemma info_connection_frame [simp]:
  "world.more (tcpserver_info_connection y e w) = world.more w"
  by (simp add: tcpserver_info_connection_def Let_def)

lemma socketreceiver_free_frame:
  assumes "tcpserver_socketreceiver_free p w = Inr w'"
  shows "x_sr w' = x_sr w" "x_nconnections w' = x_nconnections w" "x_maxconnections w' = x_maxconnections w"
    "x_floatlist w' = x_floatlist w" "x_defaulttarget w' = x_defaulttarget w"
    "x_connectsocket w' = x_connectsocket w" "x_port w' = x_port w" "x_serialize w' = x_serialize w"
    "x_accepting w' = x_accepting w"
proof -
  have "world.more (w'\<lparr>srs := s\<rparr>) = world.more (w\<lparr>srs := s\<rparr>)" for s
  proof (cases p)
    case None
    with assms show ?thesis by (simp add: tcpserver_socketreceiver_free_def)
  next
    case (Some a)
    with assms obtain x w1 where
      "(case sr_sender x of None \<Rightarrow> Inr (w\<lparr>srs := heap_put (srs w) a
          (x\<lparr>sr_owner := False, sr_sender := None, sr_receiver := None, sr_fd := -1\<rparr>)\<rparr>)
        | Some s \<Rightarrow> iemnet__sender_destroy s (w\<lparr>srs := heap_put (srs w) a
          (x\<lparr>sr_owner := False, sr_sender := None, sr_receiver := None, sr_fd := -1\<rparr>)\<rparr>)) = Inr w1"
      and w': "w' = (let w2 = free (iemnet__closesocket (sr_fd x) True
          (iemnet__receiver_destroy (sr_receiver x) False w1)) in w2\<lparr>srs := heap_free (srs w2) a\<rparr>)"
      by (auto simp: tcpserver_socketreceiver_free_def res_simps Let_def)
    then have "world.more w1 = world.more (w\<lparr>srs := heap_put (srs w) a
          (x\<lparr>sr_owner := False, sr_sender := None, sr_receiver := None, sr_fd := -1\<rparr>)\<rparr>)"
      by (auto split: option.splits dest: sender_destroy_frame)
    then have "world.more (w1\<lparr>srs := s\<rparr>) = world.more (w\<lparr>srs := s\<rparr>)"
      by (cases w; cases w1) simp
    moreover have "world.more (w'\<lparr>srs := s\<rparr>) = world.more (w1\<lparr>srs := s\<rparr>)"
    proof -
      define w2 where "w2 = free (iemnet__closesocket (sr_fd x) True
          (iemnet__receiver_destroy (sr_receiver x) False w1))"
      have "world.more w2 = world.more w1" by (simp add: w2_def)
      then show ?thesis unfolding w' w2_def [symmetric] by (cases w2; cases w1) simp
    qed
    ultimately show ?thesis by simp
  qed
  from world_more_cong [OF this [of "srs w"]]
  show "x_sr w' = x_sr w" "x_nconnections w' = x_nconnections w" "x_maxconnections w' = x_maxconnections w"
    "x_floatlist w' = x_floatlist w" "x_defaulttarget w' = x_defaulttarget w"
    "x_connectsocket w' = x_connectsocket w" "x_port w' = x_port w" "x_serialize w' = x_serialize w"
    "x_accepting w' = x_accepting w"
    by simp_all
qed

lemma disconnect_count:
  assumes "tcpserver_disconnect i w = Inr w'" "i < x_nconnections w"
  shows "x_nconnections w' = x_nconnections w - 1"
  using assms
  by (auto simp: tcpserver_disconnect_def res_simps Let_def world_more_cong(2) [OF numconnout_frame(1)]
      world_more_cong(2) [OF info_connection_frame] dest!: socketreceiver_free_frame(2))

text \<open>
  The loop of \<^verbatim>\<open>tcpserver_disconnect_all\<close>: the bound is read again in every round.
\<close>

function disconnect_all_from :: "nat \<Rightarrow> t_tcpserver \<Rightarrow> t_tcpserver res" where
  "disconnect_all_from k w =
     (if k < x_nconnections w
      then res_bind (tcpserver_disconnect k w) (disconnect_all_from (k + 1)) else Inr w)"
  by pat_completeness auto
termination
  by (relation "measure (\<lambda>(id, w). x_nconnections w - id)") (auto dest: disconnect_count)

declare disconnect_all_from.simps [simp del]

definition tcpserver_disconnect_all :: "t_tcpserver \<Rightarrow> t_tcpserver res" where
  "tcpserver_disconnect_all w = disconnect_all_from 0 w"

section \<open>Sending\<close>

definition tcpserver_send_bytes_client ::
    "ptr \<Rightarrow> int \<Rightarrow> t_iemnet_chunk option \<Rightarrow> t_tcpserver \<Rightarrow> t_tcpserver res" where
  "tcpserver_send_bytes_client sr client chunk w = (case sr of None \<Rightarrow> Inr w
     | Some a \<Rightarrow> res_bind (heap_get (srs w) (Some a)) (\<lambda>x.
         res_bind (case sr_sender x of None \<Rightarrow> Inr (-1, w)
             | Some s \<Rightarrow> res_bind (iemnet__sender_send s chunk w) (\<lambda>(sz, s, w).
                 Inr (sz, w\<lparr>srs := heap_put (srs w) a (x\<lparr>sr_sender := Some s\<rparr>)\<rparr>)))
           (\<lambda>(sz, w).
             let sockfd = sr_fd x;
                 w = snd (tcpserver_info_event SEND w);
                 w = emit (Outlet_anything Statusout ''sendbuffersize''
                       [SETFLOAT (client + 1), SETFLOAT sz, SETFLOAT sockfd]) w
             in if sz < 0 then tcpserver_disconnect_socket (t_float_of_int sockfd) w else Inr w)))"

definition tcpserver_send_bytes ::
    "nat \<Rightarrow> t_iemnet_chunk option \<Rightarrow> t_tcpserver \<Rightarrow> t_tcpserver res" where
  "tcpserver_send_bytes client chunk w =
     res_bind (if client < x_maxconnections w then arr_get (x_sr w) client else Inr None)
       (\<lambda>sr. tcpserver_send_bytes_client sr (int client) chunk w)"

definition tcpserver_send_bytes_clients ::
    "ptr list \<Rightarrow> nat \<Rightarrow> t_iemnet_chunk option \<Rightarrow> t_tcpserver \<Rightarrow> t_tcpserver res" where
  "tcpserver_send_bytes_clients sr nsr chunk =
     res_fold (\<lambda>i w. res_bind (arr_get sr i) (\<lambda>p. tcpserver_send_bytes_client p (int i) chunk w)) [0..<nsr]"

text \<open>The local copy of the table: \<^verbatim>\<open>calloc\<close> (its result is not checked) and a copying loop.\<close>

definition copy_table :: "t_tcpserver \<Rightarrow> (ptr list \<times> t_tcpserver) res" where
  "copy_table w = (let (ok, w) = malloc w in
     if \<not> ok then Inl NullDeref
     else res_bind (res_fold (\<lambda>i sr. res_bind (arr_get (x_sr w) i) (arr_set sr i))
            [0..<x_nconnections w] (replicate (x_nconnections w) None))
          (\<lambda>sr. Inr (sr, w)))"

definition tcpserver_send_butclient ::
    "getint \<Rightarrow> nat \<Rightarrow> t_atom list \<Rightarrow> t_tcpserver \<Rightarrow> t_tcpserver res" where
  "tcpserver_send_butclient gi but argv w =
     (if x_nconnections w = 0 then Inr w
      else res_bind (iemnet__chunk_create_list gi (int (length argv)) argv w) (\<lambda>(chunk, w).
        res_bind (copy_table w) (\<lambda>(sr, w).
        res_bind (if but < x_nconnections w then arr_set sr but None else Inr sr) (\<lambda>sr.
        res_bind (tcpserver_send_bytes_clients sr (x_nconnections w) chunk w) (\<lambda>w.
        Inr (iemnet__chunk_destroy chunk (free w)))))))"

definition tcpserver_send_toclient ::
    "getint \<Rightarrow> nat \<Rightarrow> t_atom list \<Rightarrow> t_tcpserver \<Rightarrow> t_tcpserver res" where
  "tcpserver_send_toclient gi client argv w =
     res_bind (iemnet__chunk_create_list gi (int (length argv)) argv w) (\<lambda>(chunk, w).
       res_bind (tcpserver_send_bytes client chunk w) (\<lambda>w. Inr (iemnet__chunk_destroy chunk w)))"

definition tcpserver_send_client ::
    "getint \<Rightarrow> t_atom list \<Rightarrow> t_tcpserver \<Rightarrow> t_tcpserver res" where
  "tcpserver_send_client gi argv w = (case argv of
     a # rest \<Rightarrow>
       (let (client, w) = tcpserver_fixindex (c_int_of_long (gi a)) w in
        if client < 0 then Inr w
        else if rest = [] then tcpserver_info_client (nat client) w
        else tcpserver_send_toclient gi (nat client) rest w)
   | [] \<Rightarrow> res_fold tcpserver_info_client [0..<x_nconnections w] w)"

definition tcpserver_broadcast :: "getint \<Rightarrow> t_atom list \<Rightarrow> t_tcpserver \<Rightarrow> t_tcpserver res" where
  "tcpserver_broadcast gi argv w =
     (if x_nconnections w = 0 then Inr w
      else res_bind (iemnet__chunk_create_list gi (int (length argv)) argv w) (\<lambda>(chunk, w).
        res_bind (copy_table w) (\<lambda>(sr, w).
        res_bind (tcpserver_send_bytes_clients sr (x_nconnections w) chunk w) (\<lambda>w.
        Inr (iemnet__chunk_destroy chunk (free w))))))"

definition tcpserver_defaultsend :: "getint \<Rightarrow> t_atom list \<Rightarrow> t_tcpserver \<Rightarrow> t_tcpserver res" where
  "tcpserver_defaultsend gi argv w =
     (let sockfd = x_defaulttarget w in
      if sockfd > 0 then
        res_bind (tcpserver_socket2index sockfd w) (\<lambda>client.
          if client \<ge> 0 then tcpserver_send_toclient gi (nat client) argv w
          else tcpserver_broadcast gi argv
            ((emit (Iemnet_log IEMNET_ERROR ''illegal socket:%d, switching to broadcast mode'' [L_int sockfd]) w)
             \<lparr>x_defaulttarget := 0\<rparr>))
      else if sockfd < 0 then
        res_bind (tcpserver_socket2index (c_neg sockfd) w) (\<lambda>client.
          if client \<ge> 0 then tcpserver_send_butclient gi (nat client) argv w
          else tcpserver_broadcast gi argv
            ((emit (Iemnet_log IEMNET_ERROR ''illegal socket:%d excluded, switching to broadcast mode'' [L_int sockfd]) w)
             \<lparr>x_defaulttarget := 0\<rparr>))
      else tcpserver_broadcast gi argv w)"

definition tcpserver_defaulttarget :: "t_float \<Rightarrow> t_tcpserver \<Rightarrow> t_tcpserver res" where
  "tcpserver_defaulttarget f w =
     (let rawclient = c_int f; client = nat \<bar>rawclient\<bar> in
      if client > x_nconnections w
      then Inr (emit (Iemnet_log IEMNET_ERROR ''target %d out of range [0..%d]''
                 [L_int (int client), L_int (int (x_nconnections w))]) w)
      else res_bind (if client > 0 then res_bind (sr_at (client - 1) w) (\<lambda>x. Inr (sr_fd x)) else Inr 0)
        (\<lambda>sockfd. Inr (w\<lparr>x_defaulttarget := (if rawclient < 0 then c_neg sockfd else sockfd)\<rparr>)))"

definition tcpserver_targetsocket :: "t_float \<Rightarrow> t_tcpserver \<Rightarrow> t_tcpserver" where
  "tcpserver_targetsocket f w = w\<lparr>x_defaulttarget := c_int f\<rparr>"

definition tcpserver_send_socket ::
    "getint \<Rightarrow> t_atom list \<Rightarrow> t_tcpserver \<Rightarrow> t_tcpserver res" where
  "tcpserver_send_socket gi argv w = (case argv of
     [] \<Rightarrow> Inr (emit (Iemnet_log IEMNET_ERROR ''no socket specified'' []) w)
   | a # rest \<Rightarrow> res_bind (tcpserver_socket2index (c_int_of_long (gi a)) w) (\<lambda>client.
       if client < 0 then Inr w
       else if is_float a then
         let sockfd = c_int_of_long (gi a) in
         res_bind (tcpserver_socket2index sockfd w) (\<lambda>client.
           if client < 0
           then Inr (emit (Iemnet_log IEMNET_ERROR ''no connection on socket %d'' [L_int sockfd]) w)
           else res_bind (iemnet__chunk_create_list gi (int (length rest)) rest w) (\<lambda>(chunk, w).
             res_bind (tcpserver_send_bytes (nat client) chunk w) (\<lambda>w.
             Inr (iemnet__chunk_destroy chunk w))))
       else Inr (emit (Iemnet_log IEMNET_ERROR ''only numeric sockets allowed'' []) w)))"

section \<open>Receiving and connecting\<close>

definition tcpserver_receive_callback :: "ptr \<Rightarrow> t_iemnet_chunk option \<Rightarrow> t_tcpserver \<Rightarrow> t_tcpserver res" where
  "tcpserver_receive_callback y0 c w = (case y0 of None \<Rightarrow> Inr w
     | Some a \<Rightarrow> res_bind (heap_get (srs w) (Some a)) (\<lambda>y.
         if \<not> sr_owner y then Inr w
         else case c of
           Some c \<Rightarrow>
             (let w = tcpserver_info_connection y RECEIVE w in
              res_bind (iemnet__chunk2list (Some c) (x_floatlist w) w) (\<lambda>(fl, w).
                let w = w\<lparr>x_floatlist := fl\<rparr> in
                case fl of None \<Rightarrow> Inl NullDeref
                | Some fl \<Rightarrow> iemnet__streamout (Some Msgout) (int (fl_argc fl))
                    (case fl_argv fl of None \<Rightarrow> [] | Some av \<Rightarrow> av) (x_serialize w \<noteq> 0) w))
         | None \<Rightarrow>
             (let sockfd = sr_fd y;
                  w = emit (Iemnet_log IEMNET_VERBOSE ''got disconnection for socket:%d'' [L_int sockfd]) w
              in tcpserver_disconnect_socket (t_float_of_int sockfd) w)))"

definition tcpserver_connectpoll :: "int \<Rightarrow> t_tcpserver \<Rightarrow> t_tcpserver res" where
  "tcpserver_connectpoll fd w =
     (if fd \<noteq> x_connectsocket w
      then Inr (emit (Iemnet_log IEMNET_FATAL ''callback received for socket:%d on listener for socket:%d''
                 [L_int fd, L_int (x_connectsocket w)]) w)
      else
        let (r, w) = sys_call ''accept'' [fd] w; fd = a_ret r;
            w = snd (tcpserver_info_event CONNECT w);
            numconnout = (\<lambda>w. iemnet__numconnout (Some Statusout) (Some Connectout) (int (x_nconnections w)) w)
        in if fd < 0 then Inr (numconnout (emit (Post ''tcpserver: accept failed'') w))
           else if x_accepting w = 0 then Inr (numconnout (iemnet__closesocket fd True w))
           else if x_nconnections w \<ge> x_maxconnections w
           then Inr (iemnet__closesocket fd True
                  (emit (Iemnet_log IEMNET_ERROR ''cannot handle more than %d connections, dropping!''
                     [L_int (int (x_nconnections w))]) w))
           else res_bind (tcpserver_socketreceiver_new fd (a_from r) (x_nconnections w) w) (\<lambda>(y, w).
             case y of None \<Rightarrow> Inr (iemnet__closesocket fd True w)
             | Some a \<Rightarrow> res_bind (arr_set (x_sr w) (x_nconnections w) y) (\<lambda>sr.
                 let w = w\<lparr>x_sr := sr, x_nconnections := x_nconnections w + 1\<rparr> in
                 res_bind (heap_get (srs w) y) (\<lambda>x.
                 Inr (numconnout (tcpserver_info_connection x ILLEGAL w))))))"

definition tcpserver_port :: "string \<Rightarrow> t_float \<Rightarrow> t_tcpserver \<Rightarrow> t_tcpserver" where
  "tcpserver_port junk fportno w =
     (let portno = c_int fportno; sockfd = x_connectsocket w; ap = [SETFLOAT (-1)];
          w = snd (tcpserver_info_event SERVER_INFO w)
      in if x_port w = portno then w
      else
        let w = (if sockfd \<ge> 0
                 then (iemnet__closesocket sockfd True (emit (Sys_rmpollfn sockfd) w))
                        \<lparr>x_connectsocket := -1, x_port := -1\<rparr>
                 else w);
            (r, w) = sys_call ''socket'' [AF_INET, SOCK_STREAM, 0] w; sockfd = a_ret r
        in if sockfd < 0
           then emit (Sys_sockerror ''socket'')
                  (emit (Iemnet_log IEMNET_ERROR ''unable to create TCP/IP socket'' []) w)
        else
          let w = enable_option sockfd 1 2 ''unable to enable address re-using'' ''setsockopt:SO_REUSEADDR'' w;
              w = enable_option sockfd 1 15 ''unable to enable port re-using'' ''setsockopt:SO_REUSEPORT'' w;
              w = enable_option sockfd 6 1 ''unable to enable immediate sending'' ''setsockopt:TCP_NODELAY'' w;
              (b, w) = sys_call ''bind'' [sockfd, 0, uint (word_of_int portno :: 16 word)] w
          in if a_ret b < 0
             then emit (Outlet_anything Statusout ''port'' ap) (iemnet__closesocket sockfd True
                    (emit (Sys_sockerror ''bind'')
                      (emit (Iemnet_log IEMNET_ERROR ''unable to bind to TCP/IP socket'' []) w)))
          else
            let (l, w) = sys_call ''listen'' [sockfd, 5] w
            in if a_ret l < 0
               then emit (Outlet_anything Statusout ''port'' ap) (iemnet__closesocket sockfd True
                      (emit (Sys_sockerror ''listen'')
                        (emit (Iemnet_log IEMNET_ERROR ''unable to listen on TCP/IP socket'' []) w)))
            else
              let w = emit (Sys_addpollfn sockfd) w;
                  w = w\<lparr>x_connectsocket := sockfd, x_port := portno\<rparr>;
                  (g, w) = sys_call ''getsockname'' [sockfd] w;
                  w = (if a_ret g = 0 then w\<lparr>x_port := uint (name_port (a_name g))\<rparr> else w);
                  w = iemnet__socket2addressout junk sockfd Statusout ''local_address'' w
              in emit (Outlet_anything Statusout ''port'' [SETFLOAT (x_port w)]) w)"

definition tcpserver_serialize :: "t_float \<Rightarrow> t_tcpserver \<Rightarrow> t_tcpserver" where
  "tcpserver_serialize doit w = w\<lparr>x_serialize := c_int doit\<rparr>"

definition tcpserver_accept :: "t_float \<Rightarrow> t_tcpserver \<Rightarrow> t_tcpserver" where
  "tcpserver_accept doit w = w\<lparr>x_accepting := c_int doit\<rparr>"

definition tcpserver_maxconnections :: "(nat \<Rightarrow> ptr) \<Rightarrow> t_float \<Rightarrow> t_tcpserver \<Rightarrow> t_tcpserver" where
  "tcpserver_maxconnections pad maxconnf w =
     (let maxconn = c_uint maxconnf in
      if maxconnf < 1 then emit (Pd_error ''maximum number of connections must be > 0'' []) w
      else if maxconn < x_nconnections w
      then emit (Pd_error ''maximum number of connections < number of currently connected clients [%d]''
             [L_int (int (x_nconnections w))]) w
      else if maxconn = x_maxconnections w then w
      else
        let (ok, w) = malloc w in
        if ok then (free w)\<lparr>x_sr := resize_cells pad (x_sr w) maxconn, x_maxconnections := maxconn\<rparr>
        else emit (Pd_error ''failed to set maximum number of connections'' []) w)"

section \<open>Creation and destruction\<close>

definition tcpserver_new :: "string \<Rightarrow> t_float \<Rightarrow> world \<Rightarrow> t_tcpserver res" where
  "tcpserver_new junk fportno w =
     (let (ok, w) = malloc w in
      if \<not> ok then Inl NullDeref
      else res_bind (iemnet__floatlist_create 1024 w) (\<lambda>(fl, w).
        Inr (tcpserver_port junk fportno
          \<lparr>w_io = w_io w, w_sys = w_sys w, w_malloc = w_malloc w, w_live = w_live w, w_errno = w_errno w,
           x_serialize = 1, x_accepting = 1, x_sr = replicate MAX_CONNECT None, x_nconnections = 0,
           x_maxconnections = MAX_CONNECT, x_connectsocket = -1, x_port = -1, x_defaulttarget = 0,
           x_floatlist = fl, srs = []\<rparr>)))"

definition free_entry :: "nat \<Rightarrow> t_tcpserver \<Rightarrow> t_tcpserver res" where
  "free_entry i w = res_bind (arr_get (x_sr w) i) (\<lambda>p.
     if p = None then Inr w
     else res_bind (tcpserver_socketreceiver_free p w) (\<lambda>w.
       res_bind (arr_set (x_sr w) i None) (\<lambda>sr. Inr (w\<lparr>x_sr := sr\<rparr>))))"

definition tcpserver_free :: "t_tcpserver \<Rightarrow> t_tcpserver res" where
  "tcpserver_free w =
     res_bind (res_fold free_entry [0..<x_maxconnections w] w) (\<lambda>w.
       let w = free w;
           w = (if x_connectsocket w \<ge> 0
                then iemnet__closesocket (x_connectsocket w) True (emit (Sys_rmpollfn (x_connectsocket w)) w)
                else w);
           w = iemnet__floatlist_destroy (x_floatlist w) w
       in Inr (w\<lparr>x_floatlist := None\<rparr>))"

end
