(* ===== verification/Client_Table.thy ===== *)
theory Client_Table
  imports Iemnet_Prelude
begin

text \<open>
  What the servers promise about their tables of clients: looking up a client finds the first
  entry with the key, and removing an entry closes the gap. The facts the handlers use are proved
  here once; the servers interpret the locale on their own lookup and removal functions.
\<close>

section \<open>The contract of a client table\<close>

text \<open>
  A table of clients, each identified by a key, in the order of their indices. \<open>inv\<close> says that the
  table is in order and that a client may be removed from it.
\<close>

locale client_table =
  fixes inv :: "'w \<Rightarrow> bool"
    and keys :: "'w \<Rightarrow> int list"
    and lookup :: "int \<Rightarrow> 'w \<Rightarrow> int res"
    and remove :: "nat \<Rightarrow> 'w \<Rightarrow> 'w res"
  assumes keys_distinct: "inv w \<Longrightarrow> distinct (keys w)"
    and lookup_first: "inv w \<Longrightarrow> lookup k w =
      Inr (case find (\<lambda>i. keys w ! i = k) [0..<length (keys w)] of None \<Rightarrow> -1 | Some i \<Rightarrow> int i)"
    and remove_one: "inv w \<Longrightarrow> i < length (keys w) \<Longrightarrow>
      \<exists>w'. remove i w = Inr w' \<and> inv w' \<and> keys w' = take i (keys w) @ drop (Suc i) (keys w)"
begin

lemma lookup_hit:
  assumes "inv w" "i < length (keys w)"
  shows "lookup (keys w ! i) w = Inr (int i)"
proof -
  have "find (\<lambda>j. keys w ! j = keys w ! i) [0..<length (keys w)] = Some i"
    using assms keys_distinct [OF assms(1)]
    by (auto simp: find_Some_iff nth_eq_iff_index_eq intro!: exI [of _ i])
  then show ?thesis by (simp add: lookup_first [OF assms(1)])
qed

lemma lookup_miss: "inv w \<Longrightarrow> k \<notin> set (keys w) \<Longrightarrow> lookup k w = Inr (-1)"
  by (subst lookup_first) (auto simp: find_None_iff in_set_conv_nth split: option.splits
      dest!: find_Some_iff [THEN iffD1])

lemma lookup_cases:
  assumes "inv w"
  obtains (hit) i where "i < length (keys w)" "keys w ! i = k" "lookup k w = Inr (int i)"
  | (miss) "k \<notin> set (keys w)" "lookup k w = Inr (-1)"
  using assms lookup_hit lookup_miss by (metis in_set_conv_nth)

text \<open>After a removal the key is gone, and every other client is still found.\<close>

lemma remove_keys:
  assumes "inv w" "i < length (keys w)"
  shows "\<exists>w'. remove i w = Inr w' \<and> inv w' \<and> lookup (keys w ! i) w' = Inr (-1) \<and>
    (\<forall>j<length (keys w). j \<noteq> i \<longrightarrow> lookup (keys w ! j) w' = Inr (int (if j < i then j else j - 1)))"
proof -
  obtain w' where w': "remove i w = Inr w'" "inv w'" "keys w' = take i (keys w) @ drop (Suc i) (keys w)"
    using remove_one [OF assms] by blast
  note d = keys_distinct [OF assms(1)]
  have "keys w ! i \<notin> set (keys w')"
    unfolding w'(3) by (rule distinct_remove(2) [OF d assms(2)])
  moreover have "lookup (keys w ! j) w' = Inr (int (if j < i then j else j - 1))"
    if j: "j < length (keys w)" "j \<noteq> i" for j
  proof -
    let ?j = "if j < i then j else j - 1"
    have "?j < length (keys w')" "keys w' ! ?j = keys w ! j"
      using j assms(2) by (auto simp: w'(3) nth_remove)
    with lookup_hit [OF w'(2)] show ?thesis by metis
  qed
  ultimately show ?thesis using w' lookup_miss by blast
qed

end

end
