(* ===== verification/Tcp_Server_Table.thy ===== *)
theory Tcp_Server_Table
  imports Tcp_Server Client_Table
begin

text \<open>
  The connection table of the TCP server: its invariant, the abstract list of clients it stands
  for, looking up a connection by socket, and removing one, which implements \<open>client_table\<close>.
\<close>

section \<open>Invariant and abstraction\<close>

lemmas [simp] = world_more_cong [OF emit_sel(5)] world_more_cong [OF free_sel(5)]
  world_more_cong [OF malloc_snd(3)] world_more_cong [OF sys_call_snd(4)]
  world_more_cong [OF closesocket_frame(1)] world_more_cong [OF numconnout_frame(1)]
  world_more_cong [OF addrout_frame(1)] world_more_cong [OF info_event_frame]
  world_more_cong [OF info_connection_frame] world_more_cong [OF chunk_destroy_frame(1)]
  world_more_cong [OF receiver_destroy_frame]

text \<open>
  A connection at address \<open>a\<close>: it belongs to the server, its sender can be used, its receiver hands
  the address back to the callback, and its socket number survives the passage through a float.
\<close>

definition sr_ok :: "nat \<Rightarrow> t_tcpserver_socketreceiver \<Rightarrow> bool" where
  "sr_ok a x \<longleftrightarrow> sr_owner x \<and> 0 \<le> sr_fd x \<and> sr_fd x \<le> 16777216
     \<and> (case sr_sender x of None \<Rightarrow> True | Some s \<Rightarrow> sender_inv s \<and> s_sockfd s = sr_fd x)
     \<and> (case sr_receiver x of None \<Rightarrow> True | Some r \<Rightarrow> r_userdata r = Some a \<and> r_sockfd r = sr_fd x)"

definition tcp_addrs :: "t_tcpserver \<Rightarrow> nat list" where
  "tcp_addrs w = map the (take (x_nconnections w) (x_sr w))"

definition tcp_conns :: "t_tcpserver \<Rightarrow> t_tcpserver_socketreceiver list" where
  "tcp_conns w = map (\<lambda>a. the (map_of (srs w) a)) (tcp_addrs w)"

definition tcp_fds :: "t_tcpserver \<Rightarrow> int list" where
  "tcp_fds w = map sr_fd (tcp_conns w)"

text \<open>The entries \<open>as\<close> are the connections, in this order; the rest of the table is empty.\<close>

definition table_ok :: "t_tcpserver \<Rightarrow> nat list \<Rightarrow> bool" where
  "table_ok w as \<longleftrightarrow> x_sr w = map Some as @ replicate (x_maxconnections w - length as) None
     \<and> length as = x_nconnections w \<and> x_nconnections w \<le> x_maxconnections w
     \<and> x_maxconnections w \<le> 16777216
     \<and> distinct as \<and> heap_dom (srs w) = set as
     \<and> list_all (\<lambda>a. case map_of (srs w) a of None \<Rightarrow> False | Some x \<Rightarrow> sr_ok a x) as
     \<and> distinct (map (\<lambda>a. sr_fd (the (map_of (srs w) a))) as)
     \<and> (case x_floatlist w of None \<Rightarrow> True | Some fl \<Rightarrow> wf_floatlist fl)"

definition tcp_inv :: "t_tcpserver \<Rightarrow> bool" where
  "tcp_inv w \<longleftrightarrow> table_ok w (tcp_addrs w)"

text \<open>A connection can be removed without leaving the table.\<close>

definition tcp_room :: "t_tcpserver \<Rightarrow> bool" where
  "tcp_room w \<longleftrightarrow> tcp_inv w \<and> x_nconnections w + 1 < x_maxconnections w"

text \<open>What a client of the server is, seen from outside.\<close>

record client =
  cl_fd :: int
  cl_host :: "32 word"
  cl_port :: "16 word"
  cl_alive :: bool
  cl_pending :: "t_iemnet_chunk list"

definition abs_client :: "t_tcpserver_socketreceiver \<Rightarrow> client" where
  "abs_client x = \<lparr>cl_fd = sr_fd x, cl_host = sr_host x, cl_port = sr_port x,
     cl_alive = (case sr_sender x of None \<Rightarrow> False | Some s \<Rightarrow> s_isrunning s \<and> s_queue s \<noteq> None),
     cl_pending = (case sr_sender x of None \<Rightarrow> [] | Some s \<Rightarrow> sender_pending s)\<rparr>"

definition tcp_clients :: "t_tcpserver \<Rightarrow> client list" where
  "tcp_clients w = map abs_client (tcp_conns w)"

lemma table_ok_addrs: "table_ok w as \<Longrightarrow> tcp_addrs w = as"
  by (simp add: table_ok_def tcp_addrs_def)

lemma tcp_invI: "table_ok w as \<Longrightarrow> tcp_inv w"
  by (simp add: tcp_inv_def table_ok_addrs)

lemma tcp_more_cong:
  assumes "world.more w' = world.more (w :: t_tcpserver)"
  shows "table_ok w' as = table_ok w as" "tcp_inv w' = tcp_inv w" "tcp_addrs w' = tcp_addrs w"
    "tcp_conns w' = tcp_conns w" "tcp_clients w' = tcp_clients w" "tcp_fds w' = tcp_fds w"
  using world_more_cong [OF assms]
  by (simp_all add: table_ok_def tcp_inv_def tcp_addrs_def tcp_conns_def tcp_clients_def tcp_fds_def)

lemma tcp_inv_length:
  assumes "tcp_inv w"
  shows "length (tcp_addrs w) = x_nconnections w" "length (tcp_conns w) = x_nconnections w"
    "length (tcp_clients w) = x_nconnections w" "length (tcp_fds w) = x_nconnections w"
    "length (x_sr w) = x_maxconnections w"
  using assms by (simp_all add: tcp_inv_def table_ok_def tcp_conns_def tcp_clients_def tcp_fds_def)

lemma tcp_inv_entry:
  assumes "tcp_inv w" "i < x_nconnections w"
  shows "x_sr w ! i = Some (tcp_addrs w ! i)" "map_of (srs w) (tcp_addrs w ! i) = Some (tcp_conns w ! i)"
    "sr_ok (tcp_addrs w ! i) (tcp_conns w ! i)" "i < length (x_sr w)"
proof -
  have ok: "table_ok w (tcp_addrs w)" and len: "i < length (tcp_addrs w)"
    using assms by (simp_all add: tcp_inv_def tcp_inv_length)
  then have "(case map_of (srs w) (tcp_addrs w ! i) of None \<Rightarrow> False | Some x \<Rightarrow> sr_ok (tcp_addrs w ! i) x)"
    by (simp add: table_ok_def list_all_length)
  then show "map_of (srs w) (tcp_addrs w ! i) = Some (tcp_conns w ! i)"
    "sr_ok (tcp_addrs w ! i) (tcp_conns w ! i)"
    using len by (auto simp: tcp_conns_def split: option.splits)
  have "x_sr w = map Some (tcp_addrs w) @ replicate (x_maxconnections w - length (tcp_addrs w)) None"
    using ok unfolding table_ok_def by blast
  then show "x_sr w ! i = Some (tcp_addrs w ! i)" using len by (metis length_map nth_append nth_map)
  show "i < length (x_sr w)" using assms ok by (simp add: tcp_inv_length table_ok_def)
qed

lemma tcp_fds_distinct: "tcp_inv w \<Longrightarrow> distinct (tcp_fds w)"
  by (simp add: tcp_inv_def table_ok_def tcp_fds_def tcp_conns_def comp_def)

section \<open>Lookup\<close>

lemma socket2index_result:
  assumes "tcp_inv w"
  shows "tcpserver_socket2index fd w =
    Inr (case find (\<lambda>i. tcp_fds w ! i = fd) [0..<length (tcp_fds w)] of None \<Rightarrow> -1 | Some i \<Rightarrow> int i)"
proof -
  have "res_bind (sr_at i w) (\<lambda>x. Inr (sr_fd x = fd)) = Inr (tcp_fds w ! i = fd)"
    if "i \<in> set [0..<x_nconnections w]" for i
    using tcp_inv_entry [OF assms, of i] that
    by (simp add: sr_at_def tcp_fds_def tcp_inv_length [OF assms])
  then show ?thesis
    unfolding tcpserver_socket2index_def tcp_inv_length(4) [OF assms] by (rule index_loop_found)
qed

section \<open>Removing a connection\<close>

text \<open>The blocks of memory that a connection holds: itself, its receiver, its sender with its queue.\<close>

definition sr_blocks :: "t_tcpserver_socketreceiver \<Rightarrow> int" where
  "sr_blocks x = 1 + sender_blocks (sr_sender x) + (if sr_receiver x = None then 0 else 1)"

lemma mem_ok_tcp [simp]:
  "mem_ok (w\<lparr>srs := h\<rparr>) = mem_ok w" "mem_ok (w\<lparr>x_sr := t\<rparr>) = mem_ok w"
  "mem_ok (w\<lparr>x_nconnections := n\<rparr>) = mem_ok w" "mem_ok (w\<lparr>x_floatlist := fl\<rparr>) = mem_ok w"
  by (simp_all add: mem_ok_def)

lemma info_connection_facts:
  "mem_ok (tcpserver_info_connection y e w) = mem_ok w"
  "w_live (tcpserver_info_connection y e w) = w_live w"
  "closed_fds (w_io (tcpserver_info_connection y e w)) = closed_fds (w_io w)"
  by (simp_all add: tcpserver_info_connection_def tcpserver_info_event_def mem_ok_def out_defs Let_def
      split: option.splits)

lemma socketreceiver_free_ok:
  assumes "map_of (srs w) a = Some x" "sr_ok a x"
  obtains w' where "tcpserver_socketreceiver_free (Some a) w = Inr w'"
    "map_of (srs w') = (map_of (srs w))(a := None)"
    "closed_fds (w_io w') = closed_fds (w_io w) @ [sr_fd x]" "w_live w' = w_live w - sr_blocks x"
    "mem_ok w \<longrightarrow> mem_ok w'"
proof -
  let ?x = "x\<lparr>sr_owner := False, sr_sender := None, sr_receiver := None, sr_fd := -1\<rparr>"
  define w0 where "w0 = w\<lparr>srs := heap_put (srs w) a ?x\<rparr>"
  have w0: "w_io w0 = w_io w" "w_live w0 = w_live w" "mem_ok w0 = mem_ok w"
    by (simp_all add: w0_def mem_ok_def)
  obtain w1 where w1: "(case sr_sender x of None \<Rightarrow> Inr w0 | Some s \<Rightarrow> iemnet__sender_destroy s w0) = Inr w1"
    "world.more w1 = world.more w0" "w_live w1 = w_live w0 - sender_blocks (sr_sender x)"
    "mem_ok w0 \<longrightarrow> mem_ok w1" "closed_fds (w_io w1) = closed_fds (w_io w0)"
  proof (cases "sr_sender x")
    case None
    then show ?thesis using that by (simp add: sender_blocks_def)
  next
    case (Some s)
    with assms(2) have "sender_inv s" by (simp add: sr_ok_def)
    from sender_destroy_blocks [OF this, of w0] Some show ?thesis using that by auto
  qed
  define w2 where "w2 = free (iemnet__closesocket (sr_fd x) True (iemnet__receiver_destroy (sr_receiver x) False w1))"
  have "tcpserver_socketreceiver_free (Some a) w = Inr (w2\<lparr>srs := heap_free (srs w2) a\<rparr>)"
    unfolding tcpserver_socketreceiver_free_def
    by (simp add: assms(1) Let_def w1(1) [unfolded w0_def] w2_def)
  moreover have "srs w2 = heap_put (srs w) a ?x"
    using world_more_cong(4) [OF w1(2)] by (simp add: w2_def w0_def)
  ultimately show thesis
    using that [of "w2\<lparr>srs := heap_free (srs w2) a\<rparr>"] assms(2) w0 w1
    by (simp add: w2_def receiver_destroy_facts closesocket_facts sr_ok_def sr_blocks_def)
qed

text \<open>The loop that closes the gap.\<close>

lemma shift_left_loop:
  assumes "i \<le> j" "j < length sr"
  shows "res_fold shift_left [i..<j] sr = Inr (take i sr @ take (j - i) (drop (Suc i) sr) @ drop j sr)"
  using assms
proof (induction j)
  case 0
  then show ?case by simp
next
  case (Suc j)
  show ?case
  proof (cases "i \<le> j")
    case True
    let ?s = "take i sr @ take (j - i) (drop (Suc i) sr) @ drop j sr"
    have len: "length (take i sr @ take (j - i) (drop (Suc i) sr)) = j" using True Suc.prems by simp
    have d: "drop j sr = sr ! j # sr ! Suc j # drop (Suc (Suc j)) sr"
      using Suc.prems by (simp add: Cons_nth_drop_Suc)
    have "arr_get (p @ x # y # zs) (Suc (length p)) = Inr y" for p and x y :: ptr and zs
      by (simp add: nth_append)
    moreover have "arr_set (p @ x # zs) (length p) y = Inr (p @ y # zs)" for p and x y :: ptr and zs
      by simp
    ultimately have "shift_left (length p) (p @ x # y # zs) = Inr (p @ y # y # zs)" for p and x y :: ptr and zs
      by (simp add: shift_left_def)
    from this [of "take i sr @ take (j - i) (drop (Suc i) sr)" "sr ! j" "sr ! Suc j" "drop (Suc (Suc j)) sr"]
    have "shift_left j ?s = Inr (take i sr @ take (j - i) (drop (Suc i) sr) @ sr ! Suc j # drop (Suc j) sr)"
      unfolding len d using Suc.prems by (simp add: Cons_nth_drop_Suc)
    moreover have "take (Suc j - i) (drop (Suc i) sr) = take (j - i) (drop (Suc i) sr) @ [sr ! Suc j]"
      using True Suc.prems by (simp add: Suc_diff_le take_Suc_conv_app_nth)
    moreover have "[i..<Suc j] = [i..<j] @ [j]" using True by simp
    ultimately show ?thesis using Suc.IH True Suc.prems by (simp only: res_fold_append) simp
  next
    case False
    with Suc.prems have "i = Suc j" by simp
    then show ?thesis by simp
  qed
qed


text \<open>
  The table after a removal. With fewer than two free cells the code runs over the end of the
  table: it reads or writes the cell behind the last one.
\<close>

lemma gap_closed:
  assumes "length as = n" "i < n" "n + 1 < m"
  shows "res_bind (res_fold shift_left [i..<n] ((map Some as @ replicate (m - n) None)[i := None]))
      (\<lambda>sr. arr_set sr (n + 1) None) =
    Inr (map Some (take i as @ drop (Suc i) as) @ replicate (m - (n - 1)) None)"
proof -
  let ?t = "(map Some as @ replicate (m - n) None)[i := None]"
  have len: "length ?t = m" using assms by simp
  have "res_fold shift_left [i..<n] ?t = Inr (take i ?t @ take (n - i) (drop (Suc i) ?t) @ drop n ?t)"
    using assms len by (intro shift_left_loop) auto
  also have "take i ?t @ take (n - i) (drop (Suc i) ?t) @ drop n ?t =
      map Some (take i as @ drop (Suc i) as) @ replicate (m - (n - 1)) None" (is "?l = ?r")
  proof (rule nth_equalityI)
    show "length ?l = length ?r" using assms by simp
    fix k
    assume "k < length ?l"
    then show "?l ! k = ?r ! k" using assms
      by (auto simp: nth_append nth_list_update min_def)
  qed
  finally have l: "res_fold shift_left [i..<n] ?t = Inr ?r" .
  have "?r[n + 1 := None] = ?r"
    using assms by (intro list_update_same_conv [THEN iffD2]) (auto simp: nth_append)
  moreover have "n + 1 < length ?r" using assms by simp
  ultimately show ?thesis by (simp add: l)
qed

lemma gap_overrun:
  assumes "length as = n" "i < n" "n \<le> m" "m \<le> n + 1"
  shows "res_bind (res_fold shift_left [i..<n] ((map Some as @ replicate (m - n) None)[i := None]))
      (\<lambda>sr. arr_set sr (n + 1) None) = Inl (OutOfBounds m)"
proof (cases "m = n")
  case False
  with assms have m: "m = n + 1" by simp
  then have "res_fold shift_left [i..<n] ((map Some as @ replicate (m - n) None)[i := None]) =
    Inr (let t = (map Some as @ replicate (m - n) None)[i := None] in
      take i t @ take (n - i) (drop (Suc i) t) @ drop n t)"
    using assms by (simp add: shift_left_loop Let_def)
  with m assms show ?thesis by (simp add: Let_def)
next
  case True
  obtain n' where n: "n = Suc n'" using assms(2) by (cases n) auto
  have "[i..<n] = [i..<n'] @ [n']" using assms n by simp
  moreover have "res_fold shift_left [i..<n'] ((map Some as)[i := None]) =
    Inr (let t = (map Some as)[i := None] in take i t @ take (n' - i) (drop (Suc i) t) @ drop n' t)"
    using assms n by (simp add: shift_left_loop Let_def)
  ultimately show ?thesis using True assms n by (simp add: res_fold_append shift_left_def Let_def)
qed


text \<open>What \<^verbatim>\<open>tcpserver_disconnect\<close> does up to the loop, for any table in order.\<close>

lemma disconnect_unfold:
  assumes "tcp_inv w" "i < x_nconnections w"
  obtains w1 where "tcpserver_disconnect i w =
      res_bind (res_bind (res_fold shift_left [i..<x_nconnections w] ((x_sr w)[i := None]))
        (\<lambda>sr. arr_set sr (x_nconnections w + 1) None))
      (\<lambda>sr. Inr (iemnet__numconnout (Some Statusout) (Some Connectout) (int (x_nconnections w - 1))
        (w1\<lparr>x_sr := sr, x_nconnections := x_nconnections w - 1\<rparr>)))"
    "map_of (srs w1) = (map_of (srs w))(tcp_addrs w ! i := None)"
    "x_maxconnections w1 = x_maxconnections w" "x_floatlist w1 = x_floatlist w"
    "closed_fds (w_io w1) = closed_fds (w_io w) @ [tcp_fds w ! i]"
    "w_live w1 = w_live w - sr_blocks (tcp_conns w ! i)" "mem_ok w \<longrightarrow> mem_ok w1"
    "x_defaulttarget w1 = x_defaulttarget w" "x_serialize w1 = x_serialize w" "x_accepting w1 = x_accepting w"
    "x_connectsocket w1 = x_connectsocket w" "x_port w1 = x_port w"
proof -
  note e = tcp_inv_entry [OF assms]
  define w0 where "w0 = tcpserver_info_connection (tcp_conns w ! i) DISCONNECT w"
  obtain w1 where w1: "tcpserver_socketreceiver_free (Some (tcp_addrs w ! i)) w0 = Inr w1"
    "map_of (srs w1) = (map_of (srs w))(tcp_addrs w ! i := None)"
    "closed_fds (w_io w1) = closed_fds (w_io w0) @ [sr_fd (tcp_conns w ! i)]"
    "w_live w1 = w_live w0 - sr_blocks (tcp_conns w ! i)" "mem_ok w0 \<longrightarrow> mem_ok w1"
    using socketreceiver_free_ok [of w0 "tcp_addrs w ! i" "tcp_conns w ! i"] e by (auto simp: w0_def)
  note f = socketreceiver_free_frame [OF w1(1)]
  have "tcpserver_disconnect i w =
      res_bind (res_bind (res_fold shift_left [i..<x_nconnections w] ((x_sr w)[i := None]))
        (\<lambda>sr. arr_set sr (x_nconnections w + 1) None))
      (\<lambda>sr. Inr (iemnet__numconnout (Some Statusout) (Some Connectout) (int (x_nconnections w - 1))
        (w1\<lparr>x_sr := sr, x_nconnections := x_nconnections w - 1\<rparr>)))"
    using assms e w1(1) f
    by (simp add: tcpserver_disconnect_def w0_def [symmetric] res_bind_assoc max_def Let_def)
      (simp add: w0_def)
  then show thesis using that w1 f e
    by (simp add: w0_def info_connection_facts tcp_fds_def tcp_inv_length [OF assms(1)] assms(2))
qed

lemma table_ok_shrink:
  assumes "tcp_inv w" "i < x_nconnections w"
    and "x_sr w' = map Some (take i (tcp_addrs w) @ drop (Suc i) (tcp_addrs w)) @
      replicate (x_maxconnections w - (x_nconnections w - 1)) None"
    and "x_nconnections w' = x_nconnections w - 1" "x_maxconnections w' = x_maxconnections w"
    and "x_floatlist w' = x_floatlist w" "map_of (srs w') = (map_of (srs w))(tcp_addrs w ! i := None)"
  shows "table_ok w' (take i (tcp_addrs w) @ drop (Suc i) (tcp_addrs w))" (is "table_ok w' ?as")
    and "tcp_conns w' = take i (tcp_conns w) @ drop (Suc i) (tcp_conns w)"
proof -
  let ?a = "tcp_addrs w ! i"
  have ok: "table_ok w (tcp_addrs w)" and len: "i < length (tcp_addrs w)" "length (tcp_addrs w) = x_nconnections w"
    using assms(1,2) by (simp_all add: tcp_inv_def tcp_inv_length)
  have "distinct (tcp_addrs w)" using ok unfolding table_ok_def by blast
  note dist = distinct_remove [OF this len(1)]
  have same: "map_of (srs w') a = map_of (srs w) a" if "a \<in> set ?as" for a
    using that dist(2) assms(7) by auto
  have "heap_dom (srs w') = heap_dom (srs w) - {?a}"
    by (auto simp: heap_dom_map_of assms(7))
  then have dom: "heap_dom (srs w') = set ?as"
    using ok dist by (auto simp: table_ok_def)
  have fds: "map (\<lambda>a. sr_fd (the (map_of (srs w') a))) ?as =
      take i (tcp_fds w) @ drop (Suc i) (tcp_fds w)"
    using same by (simp add: tcp_fds_def tcp_conns_def take_map drop_map)
  have "distinct (take i (tcp_fds w) @ drop (Suc i) (tcp_fds w))"
    using tcp_fds_distinct [OF assms(1)] len by (intro distinct_remove) (simp_all add: tcp_inv_length [OF assms(1)])
  moreover have "list_all (\<lambda>a. case map_of (srs w') a of None \<Rightarrow> False | Some x \<Rightarrow> sr_ok a x) ?as"
    using ok same dist(3) by (auto simp: table_ok_def list_all_iff)
  moreover have "x_nconnections w \<le> x_maxconnections w" "x_maxconnections w \<le> 16777216"
    "case x_floatlist w of None \<Rightarrow> True | Some fl \<Rightarrow> wf_floatlist fl"
    using ok unfolding table_ok_def by blast+
  ultimately show "table_ok w' ?as"
    unfolding table_ok_def using assms(2-6) dist(1) dom len fds by simp
  then have "tcp_addrs w' = ?as" by (rule table_ok_addrs)
  then show "tcp_conns w' = take i (tcp_conns w) @ drop (Suc i) (tcp_conns w)"
    using same by (simp add: tcp_conns_def take_map drop_map)
qed

lemma disconnect_ok:
  assumes "tcp_room w" "i < x_nconnections w"
  obtains w' where "tcpserver_disconnect i w = Inr w'" "tcp_room w'"
    "tcp_addrs w' = take i (tcp_addrs w) @ drop (Suc i) (tcp_addrs w)"
    "tcp_conns w' = take i (tcp_conns w) @ drop (Suc i) (tcp_conns w)"
    "x_nconnections w' = x_nconnections w - 1" "x_maxconnections w' = x_maxconnections w"
    "closed_fds (w_io w') = closed_fds (w_io w) @ [tcp_fds w ! i]"
    "w_live w' = w_live w - sr_blocks (tcp_conns w ! i)" "mem_ok w \<longrightarrow> mem_ok w'"
    "x_defaulttarget w' = x_defaulttarget w" "x_serialize w' = x_serialize w" "x_accepting w' = x_accepting w"
    "x_connectsocket w' = x_connectsocket w" "x_port w' = x_port w"
proof -
  let ?n = "x_nconnections w" and ?m = "x_maxconnections w"
  from assms(1) have inv: "tcp_inv w" and room: "?n + 1 < ?m" by (simp_all add: tcp_room_def)
  obtain w1 where d: "tcpserver_disconnect i w =
      res_bind (res_bind (res_fold shift_left [i..<?n] ((x_sr w)[i := None]))
        (\<lambda>sr. arr_set sr (?n + 1) None))
      (\<lambda>sr. Inr (iemnet__numconnout (Some Statusout) (Some Connectout) (int (?n - 1))
        (w1\<lparr>x_sr := sr, x_nconnections := ?n - 1\<rparr>)))"
    and w1: "map_of (srs w1) = (map_of (srs w))(tcp_addrs w ! i := None)"
    "x_maxconnections w1 = x_maxconnections w" "x_floatlist w1 = x_floatlist w"
    "closed_fds (w_io w1) = closed_fds (w_io w) @ [tcp_fds w ! i]"
    "w_live w1 = w_live w - sr_blocks (tcp_conns w ! i)" "mem_ok w \<longrightarrow> mem_ok w1"
    "x_defaulttarget w1 = x_defaulttarget w" "x_serialize w1 = x_serialize w" "x_accepting w1 = x_accepting w"
    "x_connectsocket w1 = x_connectsocket w" "x_port w1 = x_port w"
    by (rule disconnect_unfold [OF inv assms(2)])
  let ?as = "take i (tcp_addrs w) @ drop (Suc i) (tcp_addrs w)"
  let ?sr = "map Some ?as @ replicate (?m - (?n - 1)) None"
  have x_sr: "x_sr w = map Some (tcp_addrs w) @ replicate (?m - ?n) None" and len: "length (tcp_addrs w) = ?n"
    using inv by (simp_all add: tcp_inv_def table_ok_def)
  define w' where "w' = iemnet__numconnout (Some Statusout) (Some Connectout) (int (?n - 1))
        (w1\<lparr>x_sr := ?sr, x_nconnections := ?n - 1\<rparr>)"
  have run: "tcpserver_disconnect i w = Inr w'"
    unfolding d x_sr gap_closed [OF len assms(2) room] w'_def by simp
  have t: "table_ok w' ?as" "tcp_conns w' = take i (tcp_conns w) @ drop (Suc i) (tcp_conns w)"
    by (rule table_ok_shrink [OF inv assms(2)]; simp add: w'_def w1)+
  have "tcp_room w'" "tcp_addrs w' = ?as"
    using t room table_ok_addrs by (auto simp: tcp_room_def w'_def w1 intro: tcp_invI)
  with run t show thesis using that w1
    by (simp add: w'_def numconnout_facts)
qed

lemma disconnect_overrun:
  assumes "tcp_inv w" "i < x_nconnections w" "x_maxconnections w \<le> x_nconnections w + 1"
  shows "tcpserver_disconnect i w = Inl (OutOfBounds (x_maxconnections w))"
proof -
  have x_sr: "x_sr w = map Some (tcp_addrs w) @ replicate (x_maxconnections w - x_nconnections w) None"
    and len: "length (tcp_addrs w) = x_nconnections w" and le: "x_nconnections w \<le> x_maxconnections w"
    using assms(1) by (simp_all add: tcp_inv_def table_ok_def)
  show ?thesis
    by (rule disconnect_unfold [OF assms(1,2)])
      (simp only: x_sr gap_overrun [OF len assms(2) le assms(3)] res_bind_simps)
qed

interpretation tct: client_table tcp_room tcp_fds tcpserver_socket2index tcpserver_disconnect
proof (unfold_locales, goal_cases)
  case (1 w)
  then show ?case by (simp add: tcp_room_def tcp_fds_distinct)
next
  case (2 w k)
  then show ?case by (simp add: tcp_room_def socket2index_result)
next
  case (3 w i)
  then have "i < x_nconnections w" by (simp add: tcp_room_def tcp_inv_length)
  with 3(1) obtain w' where "tcpserver_disconnect i w = Inr w'" "tcp_room w'"
    "tcp_conns w' = take i (tcp_conns w) @ drop (Suc i) (tcp_conns w)"
    by (rule disconnect_ok)
  then show ?case by (auto simp: tcp_fds_def take_map drop_map)
qed

end
