(* ===== verification/Tcp_Server_Send.thy ===== *)
theory Tcp_Server_Send
  imports Tcp_Server_Table
begin

text \<open>
  Sending from the TCP server: what a message does to the abstract list of clients. A client whose
  send thread has gone is removed, every other one gets the chunk appended to its queue.
\<close>

section \<open>Disconnecting by socket\<close>

lemma tcp_fd_range: "tcp_inv w \<Longrightarrow> i < x_nconnections w \<Longrightarrow> 0 \<le> tcp_fds w ! i \<and> tcp_fds w ! i \<le> 16777216"
  using tcp_inv_entry(3) [of w i] tcp_inv_length(2) [of w] by (simp add: tcp_fds_def sr_ok_def)

lemma fixindex_valid:
  "0 < k \<Longrightarrow> nat k \<le> x_nconnections w \<Longrightarrow> tcpserver_fixindex k w = (k - 1, w)"
  by (simp add: tcpserver_fixindex_def)

lemma disconnect_socket_hit:
  assumes "tcp_room w" "i < x_nconnections w"
  shows "tcpserver_disconnect_socket (t_float_of_int (tcp_fds w ! i)) w = tcpserver_disconnect i w"
proof -
  from assms(1) have inv: "tcp_inv w" by (simp add: tcp_room_def)
  have "\<bar>tcp_fds w ! i\<bar> \<le> 16777216" using tcp_fd_range [OF inv assms(2)] by simp
  moreover have "x_nconnections w \<le> 16777216" using inv by (simp add: tcp_inv_def table_ok_def)
  moreover have "tcpserver_socket2index (tcp_fds w ! i) w = Inr (int i)"
    using assms by (intro tct.lookup_hit) (simp_all add: tcp_inv_length [OF inv])
  ultimately show ?thesis
    using assms(2) fixindex_valid [of "int i + 1" w]
    by (simp add: tcpserver_disconnect_socket_def tcpserver_disconnect_client_def c_int_of_t_float_of_int)
qed

lemma disconnect_socket_miss:
  "tcp_room w \<Longrightarrow> \<bar>fd\<bar> \<le> 16777216 \<Longrightarrow> fd \<notin> set (tcp_fds w) \<Longrightarrow>
   tcpserver_disconnect_socket (t_float_of_int fd) w = Inr w"
  by (simp add: tcpserver_disconnect_socket_def c_int_of_t_float_of_int tct.lookup_miss)

section \<open>Changing one connection\<close>

lemma tcp_update:
  assumes "tcp_inv w" "i < x_nconnections w" "sr_ok (tcp_addrs w ! i) x" "sr_fd x = tcp_fds w ! i"
    and "x_sr w' = x_sr w" "x_nconnections w' = x_nconnections w" "x_maxconnections w' = x_maxconnections w"
    and "x_floatlist w' = x_floatlist w" "srs w' = heap_put (srs w) (tcp_addrs w ! i) x"
  shows "tcp_inv w'" "tcp_addrs w' = tcp_addrs w" "tcp_conns w' = (tcp_conns w)[i := x]"
proof -
  let ?as = "tcp_addrs w"
  have ok: "table_ok w ?as" and len: "i < length ?as" and n: "length ?as = x_nconnections w"
    using assms(1,2) by (simp_all add: tcp_inv_def tcp_inv_length)
  have d: "distinct ?as" using ok unfolding table_ok_def by blast
  have get: "map_of (srs w') (?as ! j) = Some (if j = i then x else tcp_conns w ! j)"
    if "j < length ?as" for j
    using that d len n tcp_inv_entry(2) [OF assms(1), of j]
    by (auto simp: assms(9) nth_eq_iff_index_eq)
  have conns: "map (\<lambda>a. the (map_of (srs w') a)) ?as = (tcp_conns w)[i := x]"
  proof (rule nth_equalityI)
    show "length (map (\<lambda>a. the (map_of (srs w') a)) ?as) = length ((tcp_conns w)[i := x])"
      by (simp add: tcp_conns_def)
    fix j
    assume "j < length (map (\<lambda>a. the (map_of (srs w') a)) ?as)"
    then show "map (\<lambda>a. the (map_of (srs w') a)) ?as ! j = (tcp_conns w)[i := x] ! j"
      using get [of j] by (auto simp: tcp_conns_def nth_list_update)
  qed
  have "map (\<lambda>a. sr_fd (the (map_of (srs w') a))) ?as = map sr_fd ((tcp_conns w)[i := x])"
    by (simp only: conns [symmetric] map_map comp_def)
  also have "\<dots> = tcp_fds w"
    by (simp add: map_update assms(4)) (simp add: tcp_fds_def)
  finally have fds: "map (\<lambda>a. sr_fd (the (map_of (srs w') a))) ?as = tcp_fds w" .
  have all: "list_all (\<lambda>a. case map_of (srs w') a of None \<Rightarrow> False | Some x \<Rightarrow> sr_ok a x) ?as"
    unfolding list_all_length
  proof (intro allI impI)
    fix j
    assume "j < length ?as"
    with get [of j] n assms(3) tcp_inv_entry(3) [OF assms(1), of j]
    show "case map_of (srs w') (?as ! j) of None \<Rightarrow> False | Some x \<Rightarrow> sr_ok (?as ! j) x" by simp
  qed
  have "heap_dom (srs w) = set ?as" using ok unfolding table_ok_def by blast
  then have "heap_dom (srs w') = set ?as" using len by (simp add: assms(9) insert_absorb)
  with fds all tcp_fds_distinct [OF assms(1)] have t: "table_ok w' ?as"
    using ok unfolding table_ok_def assms(5-8) by metis
  then show "tcp_inv w'" "tcp_addrs w' = tcp_addrs w" by (auto intro: tcp_invI simp: table_ok_addrs)
  then show "tcp_conns w' = (tcp_conns w)[i := x]" using conns by (simp add: tcp_conns_def)
qed

section \<open>Sending to one connection\<close>

text \<open>The effect on a client that is alive: the chunk is queued behind those already waiting.\<close>

definition client_send :: "t_iemnet_chunk \<Rightarrow> client \<Rightarrow> client" where
  "client_send c cl = cl\<lparr>cl_pending := cl_pending cl @ [c]\<rparr>"

text \<open>The fill state, a 32-bit number of bytes, stays non-negative when the chunk is queued.\<close>

definition client_fits :: "t_iemnet_chunk \<Rightarrow> client \<Rightarrow> bool" where
  "client_fits c cl \<longleftrightarrow> (cl_alive cl \<longrightarrow> chunks_size (cl_pending cl) + c_size c < 2147483648)"

lemma tcp_clients_nth:
  "tcp_inv w \<Longrightarrow> i < x_nconnections w \<Longrightarrow> tcp_clients w ! i = abs_client (tcp_conns w ! i)"
  by (simp add: tcp_clients_def tcp_inv_length)

lemma sr_sender_same: "sr_sender x = Some s \<Longrightarrow> x\<lparr>sr_sender := Some s\<rparr> = x"
  by (cases x) simp

lemma mem_step_tcp: "mem_step w d w' \<Longrightarrow> world.more w' = world.more w \<and> w_io w' = w_io w \<and> (mem_ok w \<longrightarrow> mem_ok w')"
  by (simp add: mem_step_def)

text \<open>
  The first part of \<^verbatim>\<open>tcpserver_send_bytes_client\<close>, before anything is reported: the chunk goes to the sender of the
  connection, if there is one.
\<close>

abbreviation (input) queue_chunk ::
    "nat \<Rightarrow> t_tcpserver_socketreceiver \<Rightarrow> t_iemnet_chunk option \<Rightarrow> t_tcpserver \<Rightarrow> (int \<times> t_tcpserver) res" where
  "queue_chunk a x c w \<equiv> (case sr_sender x of None \<Rightarrow> Inr (-1, w)
     | Some s \<Rightarrow> res_bind (iemnet__sender_send s c w) (\<lambda>(sz, s, w).
         Inr (sz, w\<lparr>srs := heap_put (srs w) a (x\<lparr>sr_sender := Some s\<rparr>)\<rparr>)))"

text \<open>To send to a client whose thread is gone is refused, and leaves its entry as it is.\<close>

lemma queue_dead:
  assumes "tcp_inv w" "i < x_nconnections w" "\<not> cl_alive (tcp_clients w ! i)"
  obtains w' where "queue_chunk (tcp_addrs w ! i) (tcp_conns w ! i) c w = Inr (-1, w')" "tcp_inv w'"
    "tcp_addrs w' = tcp_addrs w" "tcp_conns w' = tcp_conns w" "x_maxconnections w' = x_maxconnections w"
    "x_nconnections w' = x_nconnections w" "w_io w' = w_io w" "mem_ok w' = mem_ok w"
proof (cases "sr_sender (tcp_conns w ! i)")
  case None
  then show ?thesis using that [of w] assms(1) by simp
next
  case (Some s)
  let ?x = "tcp_conns w ! i" and ?a = "tcp_addrs w ! i"
  let ?w = "w\<lparr>srs := heap_put (srs w) ?a ?x\<rparr>"
  from assms(3) Some have "\<not> s_isrunning s \<or> s_queue s = None"
    by (auto simp: tcp_clients_nth [OF assms(1,2)] abs_client_def)
  then have "iemnet__sender_send s c w = Inr (-1, s, w)"
    by (auto simp: iemnet__sender_send_def)
  then have run: "queue_chunk ?a ?x c w = Inr (-1, ?w)" by (simp add: Some sr_sender_same [OF Some])
  have fd: "sr_fd ?x = tcp_fds w ! i" using assms(2) by (simp add: tcp_fds_def tcp_inv_length [OF assms(1)])
  have u: "tcp_inv ?w" "tcp_addrs ?w = tcp_addrs w" "tcp_conns ?w = (tcp_conns w)[i := ?x]"
    by (rule tcp_update [OF assms(1,2) tcp_inv_entry(3) [OF assms(1,2)] fd]; simp)+
  show ?thesis by (rule that [OF run u(1,2)]) (use u(3) in \<open>simp_all add: mem_ok_def\<close>)
qed

text \<open>A running client gets the chunk at the end of its queue.\<close>

lemma queue_alive:
  assumes "tcp_inv w" "i < x_nconnections w" "cl_alive (tcp_clients w ! i)" "mem_ok w"
    and c: "wf_chunk c" "c_family c = AF_INET" "client_fits c (tcp_clients w ! i)"
  obtains sz w' where "queue_chunk (tcp_addrs w ! i) (tcp_conns w ! i) (Some c) w = Inr (sz, w')" "0 \<le> sz" "tcp_inv w'"
    "tcp_addrs w' = tcp_addrs w" "tcp_clients w' = (tcp_clients w)[i := client_send c (tcp_clients w ! i)]"
    "x_maxconnections w' = x_maxconnections w" "x_nconnections w' = x_nconnections w" "w_io w' = w_io w" "mem_ok w'"
proof -
  note e = tcp_inv_entry [OF assms(1,2)]
  let ?x = "tcp_conns w ! i" and ?a = "tcp_addrs w ! i"
  from assms(3) obtain s q where s: "sr_sender ?x = Some s" "s_isrunning s" "s_queue s = Some q"
    by (auto simp: tcp_clients_nth [OF assms(1,2)] abs_client_def split: option.splits)
  with e(3) have inv: "sender_inv s" "s_sockfd s = sr_fd ?x" by (simp_all add: sr_ok_def)
  have cf: "c\<lparr>c_family := AF_INET\<rparr> = c" using c(2) by (cases c) simp
  obtain q' w1 where send: "iemnet__sender_send s (Some c) w = Inr (sint (q_size q'), s\<lparr>s_queue := Some q'\<rparr>, w1)"
    and q': "sender_inv (s\<lparr>s_queue := Some q'\<rparr>)" "queue_content q' = queue_content q @ [c]"
      "q_size q' = of_nat (chunks_size (queue_content q'))" and m: "mem_step w 3 w1"
    using sender_send_chunk [OF inv(1) s(2,3) c(1) assms(4)] unfolding cf by blast
  have "chunks_size (queue_content q') < 2147483648"
    using c(3) s by (simp add: q' client_fits_def tcp_clients_nth [OF assms(1,2)] abs_client_def sender_pending_def)
  then have sz: "0 \<le> sint (q_size q')" unfolding q'(3) by (simp only: sint_of_nat_32)
  let ?x' = "?x\<lparr>sr_sender := Some (s\<lparr>s_queue := Some q'\<rparr>)\<rparr>"
  let ?w = "w1\<lparr>srs := heap_put (srs w1) ?a ?x'\<rparr>"
  note m' = mem_step_tcp [OF m]
  note w1 = world_more_cong [OF m' [THEN conjunct1]]
  have ok: "sr_ok ?a ?x'" "sr_fd ?x' = tcp_fds w ! i"
    using e(3) q'(1) inv assms(2) by (simp_all add: sr_ok_def s(1) tcp_fds_def tcp_inv_length [OF assms(1)] split: option.splits)
  have u: "tcp_inv ?w" "tcp_addrs ?w = tcp_addrs w" "tcp_conns ?w = (tcp_conns w)[i := ?x']"
    by (rule tcp_update [OF assms(1,2) ok]; simp add: w1)+
  have "abs_client ?x' = client_send c (tcp_clients w ! i)"
    by (simp add: tcp_clients_nth [OF assms(1,2)] abs_client_def client_send_def sender_pending_def s q')
  with u(3) have "tcp_clients ?w = (tcp_clients w)[i := client_send c (tcp_clients w ! i)]"
    by (simp add: tcp_clients_def map_update)
  then show thesis using that [OF _ sz u(1,2)] m' assms(4) w1 by (simp add: s(1) send mem_ok_def)
qed

lemma send_client_dead:
  assumes "tcp_room w" "i < x_nconnections w" "\<not> cl_alive (tcp_clients w ! i)"
  obtains w' where "tcpserver_send_bytes_client (Some (tcp_addrs w ! i)) k c w = Inr w'" "tcp_room w'"
    "tcp_addrs w' = take i (tcp_addrs w) @ drop (Suc i) (tcp_addrs w)"
    "tcp_clients w' = take i (tcp_clients w) @ drop (Suc i) (tcp_clients w)"
    "x_maxconnections w' = x_maxconnections w" "mem_ok w \<longrightarrow> mem_ok w'"
    "closed_fds (w_io w') = closed_fds (w_io w) @ [tcp_fds w ! i]"
proof -
  from assms(1) have inv: "tcp_inv w" by (simp add: tcp_room_def)
  let ?x = "tcp_conns w ! i" and ?a = "tcp_addrs w ! i"
  obtain w0 where w0: "queue_chunk ?a ?x c w = Inr (-1, w0)" "tcp_inv w0"
    "tcp_addrs w0 = tcp_addrs w" "tcp_conns w0 = tcp_conns w" "x_maxconnections w0 = x_maxconnections w"
    "x_nconnections w0 = x_nconnections w" "w_io w0 = w_io w" "mem_ok w0 = mem_ok w"
    by (rule queue_dead [OF inv assms(2,3)])
  define w1 where "w1 = emit (Outlet_anything Statusout ''sendbuffersize''
    [SETFLOAT (k + 1), SETFLOAT (- 1), SETFLOAT (sr_fd ?x)]) (snd (tcpserver_info_event SEND w0))"
  have m: "world.more w1 = world.more w0" by (simp add: w1_def)
  note f = world_more_cong [OF m] tcp_more_cong [OF m]
  have r1: "tcp_room w1" using assms(1) w0 f by (simp add: tcp_room_def)
  have i1: "i < x_nconnections w1" "tcp_fds w1 ! i = sr_fd ?x" "tcp_fds w1 = tcp_fds w"
    using assms(2) w0 f by (simp_all add: tcp_fds_def tcp_inv_length [OF inv])
  have io: "closed_fds (w_io w1) = closed_fds (w_io w)" "mem_ok w1 = mem_ok w"
    using w0 by (simp_all add: w1_def tcpserver_info_event_def)
  have run: "tcpserver_send_bytes_client (Some ?a) k c w = tcpserver_disconnect i w1"
    using disconnect_socket_hit [OF r1 i1(1), unfolded i1(2)]
    by (simp add: tcpserver_send_bytes_client_def tcp_inv_entry(2) [OF inv assms(2)] w0(1) w1_def)
  show thesis
    by (rule disconnect_ok [OF r1 i1(1)], rule that)
      (use run io i1 w0 f in \<open>simp_all add: tcp_clients_def take_map drop_map\<close>)
qed

lemma send_client_alive:
  assumes "tcp_inv w" "i < x_nconnections w" "cl_alive (tcp_clients w ! i)" "mem_ok w"
    and "wf_chunk c" "c_family c = AF_INET" "client_fits c (tcp_clients w ! i)"
  obtains w' where "tcpserver_send_bytes_client (Some (tcp_addrs w ! i)) k (Some c) w = Inr w'" "tcp_inv w'"
    "tcp_addrs w' = tcp_addrs w" "tcp_clients w' = (tcp_clients w)[i := client_send c (tcp_clients w ! i)]"
    "x_maxconnections w' = x_maxconnections w" "x_nconnections w' = x_nconnections w" "mem_ok w'"
    "closed_fds (w_io w') = closed_fds (w_io w)"
proof -
  let ?x = "tcp_conns w ! i"
  obtain sz w0 where w0: "queue_chunk (tcp_addrs w ! i) ?x (Some c) w = Inr (sz, w0)" "0 \<le> sz" "tcp_inv w0"
    "tcp_addrs w0 = tcp_addrs w" "tcp_clients w0 = (tcp_clients w)[i := client_send c (tcp_clients w ! i)]"
    "x_maxconnections w0 = x_maxconnections w" "x_nconnections w0 = x_nconnections w" "w_io w0 = w_io w" "mem_ok w0"
    by (rule queue_alive [OF assms])
  define w' where "w' = emit (Outlet_anything Statusout ''sendbuffersize''
    [SETFLOAT (k + 1), SETFLOAT sz, SETFLOAT (sr_fd ?x)]) (snd (tcpserver_info_event SEND w0))"
  have m: "world.more w' = world.more w0" by (simp add: w'_def)
  note f = world_more_cong [OF m] tcp_more_cong [OF m]
  have "tcpserver_send_bytes_client (Some (tcp_addrs w ! i)) k (Some c) w = Inr w'"
    using w0(1,2) by (simp add: tcpserver_send_bytes_client_def tcp_inv_entry(2) [OF assms(1,2)] w'_def Let_def)
  moreover have "mem_ok w'" "closed_fds (w_io w') = closed_fds (w_io w)"
    using w0 by (simp_all add: w'_def tcpserver_info_event_def)
  ultimately show thesis using that w0 f by simp
qed

section \<open>Sending to several connections\<close>

text \<open>The abstract effect: dead clients are dropped, the others get the chunk.\<close>

definition clients_send :: "t_iemnet_chunk \<Rightarrow> client list \<Rightarrow> client list" where
  "clients_send c cls = map (client_send c) (filter cl_alive cls)"

lemma clients_send_simps [simp]:
  "clients_send c [] = []"
  "clients_send c (cl # cls) = (if cl_alive cl then client_send c cl # clients_send c cls else clients_send c cls)"
  "clients_send c (cls @ cls') = clients_send c cls @ clients_send c cls'"
  by (simp_all add: clients_send_def)

text \<open>
  One round of the loop over the copied table: the connections before the current one have been
  dealt with.
\<close>

lemma send_client_step:
  assumes "tcp_room w" "mem_ok w" "wf_chunk c" "c_family c = AF_INET" "client_fits c cl"
    and "tcp_addrs w = as @ a # bs" "tcp_clients w = done @ cl # rest" "length as = length done"
  shows "\<exists>w' as'. tcpserver_send_bytes_client (Some a) k (Some c) w = Inr w' \<and> tcp_room w' \<and> mem_ok w' \<and>
    tcp_addrs w' = as' @ bs \<and> tcp_clients w' = (done @ clients_send c [cl]) @ rest \<and>
    length as' = length (done @ clients_send c [cl]) \<and> x_maxconnections w' = x_maxconnections w"
proof -
  let ?i = "length as"
  from assms(1) have inv: "tcp_inv w" by (simp add: tcp_room_def)
  have i: "?i < x_nconnections w" using tcp_inv_length(1) [OF inv] assms(6) by simp
  have at: "tcp_addrs w ! ?i = a" "tcp_clients w ! ?i = cl"
    unfolding assms(6) nth_append_length using assms(7,8) by simp_all
  show ?thesis
  proof (cases "cl_alive cl")
    case True
    then obtain w' where "tcpserver_send_bytes_client (Some a) k (Some c) w = Inr w'" "tcp_inv w'"
      "tcp_addrs w' = tcp_addrs w" "tcp_clients w' = (tcp_clients w)[?i := client_send c cl]"
      "x_maxconnections w' = x_maxconnections w" "x_nconnections w' = x_nconnections w" "mem_ok w'"
      using send_client_alive [OF inv i, unfolded at, OF _ assms(2-5)] by metis
    with True assms show ?thesis
      by (intro exI [of _ w'] exI [of _ "as @ [a]"]) (simp add: tcp_room_def)
  next
    case False
    then obtain w' where "tcpserver_send_bytes_client (Some a) k (Some c) w = Inr w'" "tcp_room w'"
      "tcp_addrs w' = take ?i (tcp_addrs w) @ drop (Suc ?i) (tcp_addrs w)"
      "tcp_clients w' = take ?i (tcp_clients w) @ drop (Suc ?i) (tcp_clients w)"
      "x_maxconnections w' = x_maxconnections w" "mem_ok w \<longrightarrow> mem_ok w'"
      using send_client_dead [OF assms(1) i, unfolded at] by metis
    with False assms show ?thesis
      by (intro exI [of _ w'] exI [of _ as]) simp
  qed
qed


text \<open>The same when some of the copied pointers have been set to NULL: those clients are skipped.\<close>

definition clients_send_but :: "(nat \<Rightarrow> bool) \<Rightarrow> t_iemnet_chunk \<Rightarrow> client list \<Rightarrow> client list" where
  "clients_send_but skip c cls =
     concat (map (\<lambda>i. if skip i then [cls ! i] else clients_send c [cls ! i]) [0..<length cls])"

lemma clients_send_but_none: "clients_send_but (\<lambda>_. False) c cls = clients_send c cls"
proof -
  have "clients_send c cls = concat (map (\<lambda>cl. clients_send c [cl]) cls)"
    by (induction cls) auto
  also have "\<dots> = concat (map (\<lambda>i. clients_send c [cls ! i]) [0..<length cls])"
    by (metis (no_types, lifting) map_nth map_map comp_def map_eq_conv)
  finally show ?thesis by (simp add: clients_send_but_def)
qed

lemma clients_send_range:
  "n \<le> length cls \<Longrightarrow> concat (map (\<lambda>i. clients_send c [cls ! i]) [m..<n]) = clients_send c (drop m (take n cls))"
proof (induction n)
  case 0
  show ?case by simp
next
  case (Suc n)
  then show ?case by (cases "m \<le> n") (simp_all add: take_Suc_conv_app_nth del: clients_send_simps(2))
qed

lemma clients_send_but_one:
  assumes "but < length cls"
  shows "clients_send_but (\<lambda>i. i = but) c cls =
    clients_send c (take but cls) @ cls ! but # clients_send c (drop (Suc but) cls)"
proof -
  let ?f = "\<lambda>i. if i = but then [cls ! i] else clients_send c [cls ! i]"
  have part: "map ?f [m..<n] = map (\<lambda>i. clients_send c [cls ! i]) [m..<n]" if "but < m \<or> n \<le> but" for m n
    using that by (intro map_cong) auto
  have "[0..<length cls] = [0..<but] @ but # [Suc but..<length cls]"
    using assms upt_add_eq_append [of 0 but "length cls - but"] by (simp add: upt_conv_Cons)
  then have "clients_send_but (\<lambda>i. i = but) c cls =
      concat (map ?f [0..<but]) @ cls ! but # concat (map ?f [Suc but..<length cls])"
    by (simp add: clients_send_but_def)
  also have "\<dots> = clients_send c (take but cls) @ cls ! but # clients_send c (drop (Suc but) cls)"
    using assms by (simp add: part clients_send_range del: clients_send_simps(2))
  finally show ?thesis .
qed

text \<open>
  The contract of an operation that sends a chunk to one connection, and the loop over a copied table for any
  operation that keeps it: NULL pointers are skipped, and one round deals with one client, whether it stays or goes.
\<close>

locale client_send_loop =
  fixes send :: "t_iemnet_chunk \<Rightarrow> ptr \<Rightarrow> int \<Rightarrow> t_tcpserver \<Rightarrow> t_tcpserver res"
  assumes send_null: "send c None k w = Inr w"
    and send_step: "tcp_room w \<Longrightarrow> mem_ok w \<Longrightarrow> wf_chunk c \<Longrightarrow> c_family c = AF_INET \<Longrightarrow> client_fits c cl \<Longrightarrow>
      tcp_addrs w = as @ a # bs \<Longrightarrow> tcp_clients w = done @ cl # rest \<Longrightarrow> length as = length done \<Longrightarrow>
      \<exists>w' as'. send c (Some a) k w = Inr w' \<and> tcp_room w' \<and> mem_ok w' \<and>
        tcp_addrs w' = as' @ bs \<and> tcp_clients w' = (done @ clients_send c [cl]) @ rest \<and>
        length as' = length (done @ clients_send c [cl]) \<and> x_maxconnections w' = x_maxconnections w"
begin

lemma loop_ok:
  assumes "tcp_room w" "mem_ok w" "wf_chunk c" "c_family c = AF_INET" "list_all (client_fits c) (tcp_clients w)"
    and "n = x_nconnections w" "sr = map (\<lambda>i. if skip i then None else x_sr w ! i) [0..<n]"
  shows "\<exists>w'. res_fold (\<lambda>i w. res_bind (arr_get sr i) (\<lambda>p. send c p (int i) w)) [0..<n] w = Inr w' \<and>
    tcp_room w' \<and> mem_ok w' \<and> tcp_clients w' = clients_send_but skip c (tcp_clients w) \<and>
    x_maxconnections w' = x_maxconnections w"
proof -
  from assms(1) have inv: "tcp_inv w" by (simp add: tcp_room_def)
  let ?as = "tcp_addrs w" and ?cls = "tcp_clients w"
  let ?body = "\<lambda>i w. res_bind (arr_get sr i) (\<lambda>p. send c p (int i) w)"
  let ?sel = "\<lambda>i. if skip i then [?cls ! i] else clients_send c [?cls ! i]"
  have len: "length ?as = n" "length ?cls = n" using tcp_inv_length [OF inv] assms(6) by simp_all
  have "\<exists>w' as'. res_fold ?body [0..<m] w = Inr w' \<and> tcp_room w' \<and> mem_ok w' \<and>
      tcp_addrs w' = as' @ drop m ?as \<and> tcp_clients w' = concat (map ?sel [0..<m]) @ drop m ?cls \<and>
      length as' = length (concat (map ?sel [0..<m])) \<and> x_maxconnections w' = x_maxconnections w"
    if "m \<le> n" for m
    using that
  proof (induction m)
    case 0
    show ?case using assms by simp
  next
    case (Suc m)
    then obtain w1 as1 where w1: "res_fold ?body [0..<m] w = Inr w1" "tcp_room w1" "mem_ok w1"
      "tcp_addrs w1 = as1 @ ?as ! m # drop (Suc m) ?as"
      "tcp_clients w1 = concat (map ?sel [0..<m]) @ ?cls ! m # drop (Suc m) ?cls"
      "length as1 = length (concat (map ?sel [0..<m]))" "x_maxconnections w1 = x_maxconnections w"
      using len by (auto simp: Cons_nth_drop_Suc)
    have sr: "arr_get sr m = Inr (if skip m then None else Some (?as ! m))"
      using Suc.prems tcp_inv_entry(1) [OF inv, of m] by (simp add: assms(6,7))
    have fits: "client_fits c (?cls ! m)" using assms(5) Suc.prems len by (simp add: list_all_length)
    show ?case
    proof (cases "skip m")
      case True
      then show ?thesis using w1 sr
        by (intro exI [of _ w1] exI [of _ "as1 @ [?as ! m]"]) (simp add: res_fold_append send_null)
    next
      case False
      with send_step [OF w1(2,3) assms(3,4) fits w1(4,5,6), of "int m"] w1 sr show ?thesis
        by (auto simp: res_fold_append)
    qed
  qed
  from this [of n] len show ?thesis by (auto simp: clients_send_but_def)
qed

end

interpretation plain_send: client_send_loop "\<lambda>c p k. tcpserver_send_bytes_client p k (Some c)"
proof
  show "tcpserver_send_bytes_client None k (Some c) w = Inr w" for c k w
    by (simp add: tcpserver_send_bytes_client_def)
qed (rule send_client_step)

lemma send_bytes_clients_ok:
  assumes "tcp_room w" "mem_ok w" "wf_chunk c" "c_family c = AF_INET" "list_all (client_fits c) (tcp_clients w)"
    and "n = x_nconnections w" "sr = map (\<lambda>i. if skip i then None else x_sr w ! i) [0..<n]"
  shows "\<exists>w'. tcpserver_send_bytes_clients sr n (Some c) w = Inr w' \<and> tcp_room w' \<and> mem_ok w' \<and>
    tcp_clients w' = clients_send_but skip c (tcp_clients w) \<and> x_maxconnections w' = x_maxconnections w"
  unfolding tcpserver_send_bytes_clients_def by (rule plain_send.loop_ok [OF assms])

section \<open>The handlers\<close>

lemma copy_table_ok:
  assumes "tcp_inv w" "mem_ok w"
  obtains w' where "copy_table w = Inr (map (\<lambda>i. x_sr w ! i) [0..<x_nconnections w], w')" "mem_step w 1 w'"
proof -
  obtain ok w' where m: "malloc w = (ok, w')" by fastforce
  from mem_ok_malloc [OF assms(2)] mem_step_malloc [of w] m have ok: ok "mem_step w 1 w'" by auto
  note f = world_more_cong [OF mem_step_tcp [OF ok(2), THEN conjunct1]]
  have le: "x_nconnections w \<le> length (x_sr w)"
    using assms(1) by (simp add: tcp_inv_length) (simp add: tcp_inv_def table_ok_def)
  have "res_fold (\<lambda>i sr. res_bind (arr_get (x_sr w) i) (arr_set sr i)) [0..<k] ys =
      res_fold (\<lambda>i sr. arr_set sr i (x_sr w ! i)) [0..<k] ys" if "k \<le> length (x_sr w)" for k ys
    using that by (induction k) (auto simp: res_fold_append intro!: res_bind_cong)
  then have "copy_table w = Inr (map (\<lambda>i. x_sr w ! i) [0..<x_nconnections w], w')"
    using le by (simp add: copy_table_def m ok f res_fold_arr_set)
  then show thesis using ok that by blast
qed

text \<open>The common part of broadcasting to all clients and to all but some: the chunk, the copy of the table, the loop.\<close>

lemma broadcast_prepare:
  assumes "tcp_room w" "mem_ok w" "argv \<noteq> []"
  obtains w1 w2 where
    "iemnet__chunk_create_list gi (int (length argv)) argv w = Inr (Some (list_chunk gi argv), w1)"
    "copy_table w1 = Inr (map (\<lambda>i. x_sr w ! i) [0..<x_nconnections w], w2)"
    "world.more w1 = world.more w" "world.more w2 = world.more w" "tcp_room w2" "mem_ok w2"
proof -
  obtain w1 where w1: "iemnet__chunk_create_list gi (int (length argv)) argv w = Inr (Some (list_chunk gi argv), w1)"
    "mem_step w 2 w1"
    by (rule create_list_ok [OF assms(2,3)])
  note m1 = mem_step_tcp [OF w1(2)]
  note f1 = world_more_cong [OF m1 [THEN conjunct1]] and g1 = tcp_more_cong [OF m1 [THEN conjunct1]]
  from assms(1) have inv: "tcp_inv w" by (simp add: tcp_room_def)
  obtain w2 where w2: "copy_table w1 = Inr (map (\<lambda>i. x_sr w1 ! i) [0..<x_nconnections w1], w2)" "mem_step w1 1 w2"
    using copy_table_ok [of w1] inv assms(2) m1 g1(2) by blast
  note m2 = mem_step_tcp [OF w2(2)]
  note f2 = world_more_cong [OF m2 [THEN conjunct1]] and g2 = tcp_more_cong [OF m2 [THEN conjunct1]]
  show thesis
    by (rule that [OF w1(1), of w2]) (use w2(1) assms(1,2) m1 m2 in \<open>simp_all add: tcp_room_def f1 f2 g1 g2\<close>)
qed

lemma broadcast_core:
  assumes "tcp_room w" "mem_ok w" "argv \<noteq> []" "length argv < 2147483648"
    and "list_all (client_fits (list_chunk gi argv)) (tcp_clients w)"
  obtains w1 w2 w3 where
    "iemnet__chunk_create_list gi (int (length argv)) argv w = Inr (Some (list_chunk gi argv), w1)"
    "copy_table w1 = Inr (map (\<lambda>i. x_sr w ! i) [0..<x_nconnections w], w2)"
    "x_nconnections w1 = x_nconnections w" "x_nconnections w2 = x_nconnections w"
    "tcpserver_send_bytes_clients (map (\<lambda>i. if skip i then None else x_sr w ! i) [0..<x_nconnections w])
       (x_nconnections w) (Some (list_chunk gi argv)) w2 = Inr w3"
    "tcp_room w3" "mem_ok w3" "x_maxconnections w3 = x_maxconnections w"
    "tcp_clients w3 = clients_send_but skip (list_chunk gi argv) (tcp_clients w)"
proof -
  let ?c = "list_chunk gi argv"
  obtain w1 w2 where w: "iemnet__chunk_create_list gi (int (length argv)) argv w = Inr (Some ?c, w1)"
    "copy_table w1 = Inr (map (\<lambda>i. x_sr w ! i) [0..<x_nconnections w], w2)"
    "world.more w1 = world.more w" "world.more w2 = world.more w" "tcp_room w2" "mem_ok w2"
    by (rule broadcast_prepare [OF assms(1-3)])
  note f = world_more_cong [OF w(3)] world_more_cong [OF w(4)] tcp_more_cong [OF w(4)]
  have "list_all (client_fits ?c) (tcp_clients w2)" using assms(5) by (simp add: f)
  from send_bytes_clients_ok [OF w(5,6) wf_list_chunk [OF assms(3,4)] _ this refl refl, of skip, unfolded f]
  obtain w3 where "tcpserver_send_bytes_clients (map (\<lambda>i. if skip i then None else x_sr w ! i) [0..<x_nconnections w])
       (x_nconnections w) (Some ?c) w2 = Inr w3" "tcp_room w3" "mem_ok w3" "x_maxconnections w3 = x_maxconnections w"
    "tcp_clients w3 = clients_send_but skip ?c (tcp_clients w)"
    by (auto simp: f)
  with w show thesis using that by (simp add: f)
qed

lemma free_destroy_more: "world.more (iemnet__chunk_destroy c (free w)) = world.more w"
  by simp

lemma broadcast_ok:
  assumes "tcp_room w" "mem_ok w" "argv \<noteq> []" "length argv < 2147483648"
    and "list_all (client_fits (list_chunk gi argv)) (tcp_clients w)"
  shows "\<exists>w'. tcpserver_broadcast gi argv w = Inr w' \<and> tcp_room w' \<and> mem_ok w' \<and>
    tcp_clients w' = clients_send (list_chunk gi argv) (tcp_clients w)"
proof (cases "x_nconnections w = 0")
  case True
  then have "tcp_clients w = []" by (simp add: tcp_clients_def tcp_conns_def tcp_addrs_def)
  with True assms show ?thesis by (simp add: tcpserver_broadcast_def)
next
  case False
  obtain w1 w2 w3 where c: "iemnet__chunk_create_list gi (int (length argv)) argv w = Inr (Some (list_chunk gi argv), w1)"
    "copy_table w1 = Inr (map (\<lambda>i. x_sr w ! i) [0..<x_nconnections w], w2)" "x_nconnections w2 = x_nconnections w"
    "tcpserver_send_bytes_clients (map (\<lambda>i. if False then None else x_sr w ! i) [0..<x_nconnections w])
       (x_nconnections w) (Some (list_chunk gi argv)) w2 = Inr w3"
    and r: "tcp_room w3" "mem_ok w3" "x_maxconnections w3 = x_maxconnections w"
    "tcp_clients w3 = clients_send_but (\<lambda>_. False) (list_chunk gi argv) (tcp_clients w)"
    using broadcast_core [OF assms, of "\<lambda>_. False"] by blast
  let ?w = "iemnet__chunk_destroy (Some (list_chunk gi argv)) (free w3)"
  have "tcpserver_broadcast gi argv w = Inr ?w"
    using False c by (simp add: tcpserver_broadcast_def)
  with r show ?thesis
    by (simp add: tcp_room_def tcp_more_cong [OF free_destroy_more] clients_send_but_none)
qed

lemma butclient_ok:
  assumes "tcp_room w" "mem_ok w" "argv \<noteq> []" "length argv < 2147483648" "but < x_nconnections w"
    and "list_all (client_fits (list_chunk gi argv)) (tcp_clients w)"
  shows "\<exists>w'. tcpserver_send_butclient gi but argv w = Inr w' \<and> tcp_room w' \<and> mem_ok w' \<and>
    tcp_clients w' = clients_send_but (\<lambda>i. i = but) (list_chunk gi argv) (tcp_clients w)"
proof -
  obtain w1 w2 w3 where c: "iemnet__chunk_create_list gi (int (length argv)) argv w = Inr (Some (list_chunk gi argv), w1)"
    "copy_table w1 = Inr (map (\<lambda>i. x_sr w ! i) [0..<x_nconnections w], w2)" "x_nconnections w2 = x_nconnections w"
    "tcpserver_send_bytes_clients (map (\<lambda>i. if i = but then None else x_sr w ! i) [0..<x_nconnections w])
       (x_nconnections w) (Some (list_chunk gi argv)) w2 = Inr w3"
    and r: "tcp_room w3" "mem_ok w3" "x_maxconnections w3 = x_maxconnections w"
    "tcp_clients w3 = clients_send_but (\<lambda>i. i = but) (list_chunk gi argv) (tcp_clients w)"
    using broadcast_core [OF assms(1-4,6), of "\<lambda>i. i = but"] by blast
  let ?w = "iemnet__chunk_destroy (Some (list_chunk gi argv)) (free w3)"
  have "(map (\<lambda>i. x_sr w ! i) [0..<x_nconnections w])[but := None] =
      map (\<lambda>i. if i = but then None else x_sr w ! i) [0..<x_nconnections w]"
    using assms(5) by (auto intro!: nth_equalityI simp: nth_list_update)
  then have "tcpserver_send_butclient gi but argv w = Inr ?w"
    using c assms(5) by (simp add: tcpserver_send_butclient_def)
  with r show ?thesis
    by (simp add: tcp_room_def tcp_more_cong [OF free_destroy_more])
qed

end
