(* ===== verification/Tcp_Server_Handlers.thy ===== *)
theory Tcp_Server_Handlers
  imports Tcp_Server_Send
begin

text \<open>
  The remaining handlers of the TCP server over the invariant of its table: sending to one client,
  accepting, receiving, resizing, creating and freeing the object.
\<close>

section \<open>Sending to one client\<close>

lemma toclient_alive:
  assumes "tcp_inv w" "mem_ok w" "i < x_nconnections w" "cl_alive (tcp_clients w ! i)"
    and "argv \<noteq> []" "length argv < 2147483648" "client_fits (list_chunk gi argv) (tcp_clients w ! i)"
  shows "\<exists>w'. tcpserver_send_toclient gi i argv w = Inr w' \<and> tcp_inv w' \<and>
    tcp_clients w' = (tcp_clients w)[i := client_send (list_chunk gi argv) (tcp_clients w ! i)]"
proof -
  let ?c = "list_chunk gi argv"
  obtain w1 where w1: "iemnet__chunk_create_list gi (int (length argv)) argv w = Inr (Some ?c, w1)" "mem_step w 2 w1"
    by (rule create_list_ok [OF assms(2,5)])
  note m1 = mem_step_tcp [OF w1(2)]
  note f1 = world_more_cong [OF m1 [THEN conjunct1]] and g1 = tcp_more_cong [OF m1 [THEN conjunct1]]
  have pre: "tcp_inv w1" "i < x_nconnections w1" "cl_alive (tcp_clients w1 ! i)" "mem_ok w1"
    "client_fits ?c (tcp_clients w1 ! i)"
    using assms m1 by (simp_all add: f1 g1)
  obtain w2 where w2: "tcpserver_send_bytes_client (Some (tcp_addrs w1 ! i)) (int i) (Some ?c) w1 = Inr w2"
    "tcp_inv w2" "tcp_clients w2 = (tcp_clients w1)[i := client_send ?c (tcp_clients w1 ! i)]"
    by (rule send_client_alive [OF pre(1-4) wf_list_chunk [OF assms(5,6)] list_chunk_sel(1) pre(5), of "int i"])
  have "i < x_maxconnections w1" using tcp_inv_entry(4) [OF pre(1,2)] tcp_inv_length(5) [OF pre(1)] by simp
  then have "tcpserver_send_bytes i (Some ?c) w1 = Inr w2"
    using tcp_inv_entry [OF pre(1,2)] w2(1) by (simp add: tcpserver_send_bytes_def)
  then have "tcpserver_send_toclient gi i argv w = Inr (iemnet__chunk_destroy (Some ?c) w2)"
    by (simp add: tcpserver_send_toclient_def w1(1))
  with w2 show ?thesis by (simp add: tcp_more_cong [OF chunk_destroy_frame(1)] g1)
qed

section \<open>Accepting connections\<close>

text \<open>A connection appended to the table.\<close>

lemma table_ok_grow:
  assumes "tcp_inv w" "x_nconnections w < x_maxconnections w" "a \<notin> heap_dom (srs w)"
    and "sr_ok a x" "sr_fd x \<notin> set (tcp_fds w)"
    and "x_sr w' = (x_sr w)[x_nconnections w := Some a]" "x_nconnections w' = x_nconnections w + 1"
    and "x_maxconnections w' = x_maxconnections w" "x_floatlist w' = x_floatlist w"
    and "srs w' = heap_put (srs w) a x"
  shows "tcp_inv w'" "tcp_conns w' = tcp_conns w @ [x]"
proof -
  let ?as = "tcp_addrs w"
  have ok: "table_ok w ?as" and n: "length ?as = x_nconnections w"
    using assms(1) by (simp_all add: tcp_inv_def tcp_inv_length)
  have dom: "heap_dom (srs w) = set ?as" and le: "x_maxconnections w \<le> 16777216" and d: "distinct ?as"
    and fl: "case x_floatlist w of None \<Rightarrow> True | Some fl \<Rightarrow> wf_floatlist fl"
    and all: "list_all (\<lambda>a. case map_of (srs w) a of None \<Rightarrow> False | Some x \<Rightarrow> sr_ok a x) ?as"
    and sr: "x_sr w = map Some ?as @ replicate (x_maxconnections w - x_nconnections w) None"
    using ok n unfolding table_ok_def by simp_all
  obtain m where m: "x_maxconnections w - x_nconnections w = Suc m"
    using assms(2) by (cases "x_maxconnections w - x_nconnections w") auto
  have "x_sr w' = map Some (?as @ [a]) @ replicate (x_maxconnections w - (x_nconnections w + 1)) None"
    using n m by (simp add: assms(6) sr list_update_append)
  moreover have same: "map_of (srs w') b = map_of (srs w) b" if "b \<in> set ?as" for b
    using that assms(3) by (auto simp: dom assms(10))
  then have fds: "map (\<lambda>b. sr_fd (the (map_of (srs w') b))) (?as @ [a]) = tcp_fds w @ [sr_fd x]"
    by (simp add: tcp_fds_def tcp_conns_def assms(10))
  moreover have "list_all (\<lambda>b. case map_of (srs w') b of None \<Rightarrow> False | Some x \<Rightarrow> sr_ok b x) (?as @ [a])"
    using all same assms(4) by (simp add: list_all_iff assms(10))
  moreover have "heap_dom (srs w') = set (?as @ [a])" by (simp add: assms(10) dom)
  moreover have "distinct (?as @ [a])" using d assms(3) dom by simp
  moreover have "distinct (tcp_fds w @ [sr_fd x])" using assms(5) tcp_fds_distinct [OF assms(1)] by simp
  ultimately have t: "table_ok w' (?as @ [a])"
    unfolding table_ok_def assms(7-9) using n le fl assms(2) by simp
  then show "tcp_inv w'" by (rule tcp_invI)
  from t show "tcp_conns w' = tcp_conns w @ [x]"
    using same by (simp add: tcp_conns_def table_ok_addrs) (simp add: assms(10))
qed

text \<open>
  The client that an accepted connection becomes: it can be sent to iff its send thread was started.
\<close>

definition new_client :: "sysret \<Rightarrow> bool \<Rightarrow> client" where
  "new_client r alive = \<lparr>cl_fd = a_ret r, cl_host = ntohl (sin_addr (a_from r)),
     cl_port = ntohs (sin_port (a_from r)), cl_alive = alive, cl_pending = []\<rparr>"

lemma socketreceiver_new_ok:
  assumes "mem_ok w" "w_sys w = r2 # rs" "0 \<le> a_ret r" "a_ret r \<le> 16777216"
  obtains a x w' where "tcpserver_socketreceiver_new (a_ret r) (a_from r) k w = Inr (Some a, w')"
    "a \<notin> heap_dom (srs w)" "srs w' = heap_put (srs w) a x" "sr_ok a x" "sr_fd x = a_ret r"
    "abs_client x = new_client r (a_ret r2 = 0)" "mem_ok w'"
    "x_sr w' = x_sr w" "x_nconnections w' = x_nconnections w" "x_maxconnections w' = x_maxconnections w"
    "x_floatlist w' = x_floatlist w" "closed_fds (w_io w') = closed_fds (w_io w)"
proof -
  obtain o1 w1 where m1: "malloc w = (o1, w1)" by fastforce
  have ok: o1 "mem_step w 1 w1" using mem_ok_malloc [OF assms(1)] mem_step_malloc [of w] by (auto simp: m1)
  note s1 = ok(2) [unfolded mem_step_def]
  let ?a = "heap_fresh (srs w)"
  have srs1: "srs w1 = srs w" using s1 world_more_cong(4) by blast
  obtain s w2 where w2: "iemnet__sender_create (a_ret r) None None w1 = Inr (s, w2)" "world.more w2 = world.more w1"
    "mem_ok w2" "w_io w2 = w_io w1 @ [Syscall ''pthread_create'' [] (a_ret r2)]" "(s = None) = (a_ret r2 \<noteq> 0)"
    "\<forall>s'. s = Some s' \<longrightarrow> sender_inv s' \<and> s_isrunning s' \<and> s_sockfd s' = a_ret r \<and> s_queue s' = Some queue_empty"
    using sender_create_result [of w1 r2 rs "a_ret r" None None] s1 assms(1,2) by auto
  obtain w3 where w3: "iemnet__receiver_create (a_ret r) (Some ?a) False w2 = (Some \<lparr>r_sockfd = a_ret r, r_userdata = Some ?a\<rparr>, w3)"
    "world.more w3 = world.more w2" "mem_ok w3" "w_io w3 = w_io w2 @ [Sys_addpollfn (a_ret r)]"
    by (rule receiver_create_ok [OF w2(3)])
  have more: "world.more w3 = world.more w" using w3 w2 s1 by simp
  let ?h = "ntohl (sin_addr (a_from r))"
  define x where "x = \<lparr>sr_owner = True, sr_host = ?h, sr_port = ntohs (sin_port (a_from r)), sr_fd = a_ret r,
    sr_client = k, sr_sender = s, sr_receiver = Some \<lparr>r_sockfd = a_ret r, r_userdata = Some ?a\<rparr>,
    sr_hostname = dotted_quads ?h\<rparr>"
  have run: "tcpserver_socketreceiver_new (a_ret r) (a_from r) k w =
      Inr (Some ?a, w3\<lparr>srs := heap_put (srs w) ?a x\<rparr>)"
    using ok(1) world_more_cong(4) [OF more]
    by (simp add: tcpserver_socketreceiver_new_def m1 srs1 w2(1) w3(1) Let_def x_def)
  have "sr_ok ?a x" "abs_client x = new_client r (a_ret r2 = 0)"
    using assms(3,4) w2(5,6) unfolding x_def sr_ok_def abs_client_def new_client_def
    by (auto simp: sender_pending_def split: option.splits)
  moreover have "sr_fd x = a_ret r" by (simp add: x_def)
  moreover have "closed_fds (w_io w3) = closed_fds (w_io w)" using s1 by (simp add: w3 w2)
  ultimately show thesis
    using that [OF run heap_fresh_notin _ _ _ _ _ _ _ _ _ _, of x] w3(3) world_more_cong [OF more] by simp
qed


text \<open>
  The poll function of the listening socket, for every answer of the operating system: the new
  client is appended at the end when there is room and the server accepts; otherwise the table is
  unchanged and the new socket, if there is one, is closed again.
\<close>

text \<open>
  The poll function of the listening socket: the state it gets from the system call and the status message, the
  refused connections, and the accepted ones.
\<close>

lemma accept_call:
  assumes "mem_ok w" "w_sys w = r # rs"
  obtains w0 where "sys_call ''accept'' [fd] w = (r, w0)" "world.more w0 = world.more w"
    "world.more (snd (tcpserver_info_event CONNECT w0)) = world.more w"
    "w_sys (snd (tcpserver_info_event CONNECT w0)) = rs" "mem_ok (snd (tcpserver_info_event CONNECT w0))"
    "closed_fds (w_io (snd (tcpserver_info_event CONNECT w0))) = closed_fds (w_io w)"
  using assms by (intro that [of "snd (sys_call ''accept'' [fd] w)"])
    (simp_all add: sys_call_def sys_answer_def mem_ok_def tcpserver_info_event_def)

lemma connectpoll_refuses:
  assumes "tcp_inv w" "mem_ok w" "w_sys w = r # rs"
    and "\<not> (0 \<le> a_ret r \<and> x_accepting w \<noteq> 0 \<and> x_nconnections w < x_maxconnections w)"
  shows "\<exists>w'. tcpserver_connectpoll (x_connectsocket w) w = Inr w' \<and> tcp_inv w' \<and>
    x_maxconnections w' = x_maxconnections w \<and> tcp_clients w' = tcp_clients w \<and>
    closed_fds (w_io w') = closed_fds (w_io w) @ (if 0 \<le> a_ret r then [a_ret r] else [])"
proof -
  obtain w0 where w0: "sys_call ''accept'' [x_connectsocket w] w = (r, w0)" "world.more w0 = world.more w"
    "world.more (snd (tcpserver_info_event CONNECT w0)) = world.more w"
    "closed_fds (w_io (snd (tcpserver_info_event CONNECT w0))) = closed_fds (w_io w)"
    by (rule accept_call [OF assms(2,3)])
  define w1 where "w1 = snd (tcpserver_info_event CONNECT w0)"
  note w1 = w0(3,4) [folded w1_def]
  note run = tcpserver_connectpoll_def w0(1) w1_def [symmetric] Let_def world_more_cong [OF w1(1)] world_more_cong [OF w0(2)]
  let ?out = "\<lambda>w. iemnet__numconnout (Some Statusout) (Some Connectout) (int (x_nconnections w)) w"
  have unchanged: "tcp_inv v \<and> x_maxconnections v = x_maxconnections w \<and> tcp_clients v = tcp_clients w"
    if "world.more v = world.more w" for v
    using tcp_more_cong [OF that] world_more_cong [OF that] assms(1) by simp
  consider "a_ret r < 0" | "0 \<le> a_ret r" "x_accepting w = 0"
    | "0 \<le> a_ret r" "x_accepting w \<noteq> 0" "x_maxconnections w \<le> x_nconnections w" using assms(4) by linarith
  then show ?thesis
  proof cases
    case 1
    with unchanged [of "?out (emit (Post ''tcpserver: accept failed'') w1)"] w1 show ?thesis
      by (simp add: run numconnout_facts)
  next
    case 2
    with unchanged [of "?out (iemnet__closesocket (a_ret r) True w1)"] w1 show ?thesis
      by (simp add: run numconnout_facts closesocket_facts)
  next
    case 3
    with unchanged [of "iemnet__closesocket (a_ret r) True (emit (Iemnet_log IEMNET_ERROR
        ''cannot handle more than %d connections, dropping!'' [L_int (int (x_nconnections w))]) w1)"] w1 show ?thesis
      by (simp add: run closesocket_facts)
  qed
qed

lemma connectpoll_accepts:
  assumes "tcp_inv w" "mem_ok w" "w_sys w = r # r2 # rs" "a_ret r \<le> 16777216" "a_ret r \<notin> set (tcp_fds w)"
    and "0 \<le> a_ret r" "x_accepting w \<noteq> 0" "x_nconnections w < x_maxconnections w"
  shows "\<exists>w'. tcpserver_connectpoll (x_connectsocket w) w = Inr w' \<and> tcp_inv w' \<and>
    x_maxconnections w' = x_maxconnections w \<and> tcp_clients w' = tcp_clients w @ [new_client r (a_ret r2 = 0)] \<and>
    closed_fds (w_io w') = closed_fds (w_io w)"
proof -
  obtain w0 where w0: "sys_call ''accept'' [x_connectsocket w] w = (r, w0)" "world.more w0 = world.more w"
    "world.more (snd (tcpserver_info_event CONNECT w0)) = world.more w"
    "w_sys (snd (tcpserver_info_event CONNECT w0)) = r2 # rs" "mem_ok (snd (tcpserver_info_event CONNECT w0))"
    "closed_fds (w_io (snd (tcpserver_info_event CONNECT w0))) = closed_fds (w_io w)"
    by (rule accept_call [OF assms(2,3)])
  define w1 where "w1 = snd (tcpserver_info_event CONNECT w0)"
  note w1 = w0(3-6) [folded w1_def]
  note f = world_more_cong [OF w1(1)] world_more_cong [OF w0(2)]
  obtain a x w2 where w2: "tcpserver_socketreceiver_new (a_ret r) (a_from r) (x_nconnections w1) w1 = Inr (Some a, w2)"
    "a \<notin> heap_dom (srs w1)" "srs w2 = heap_put (srs w1) a x" "sr_ok a x" "sr_fd x = a_ret r"
    "abs_client x = new_client r (a_ret r2 = 0)" "mem_ok w2"
    "x_sr w2 = x_sr w1" "x_nconnections w2 = x_nconnections w1" "x_maxconnections w2 = x_maxconnections w1"
    "x_floatlist w2 = x_floatlist w1" "closed_fds (w_io w2) = closed_fds (w_io w1)"
    by (rule socketreceiver_new_ok [OF w1(3,2) assms(6,4)])
  let ?w = "w2\<lparr>x_sr := (x_sr w)[x_nconnections w := Some a], x_nconnections := x_nconnections w + 1\<rparr>"
  define w3 where "w3 = iemnet__numconnout (Some Statusout) (Some Connectout) (int (x_nconnections w + 1))
    (tcpserver_info_connection x ILLEGAL ?w)"
  have "tcpserver_connectpoll (x_connectsocket w) w = Inr w3"
    using assms(6-8) tcp_inv_length(5) [OF assms(1)]
    by (simp add: tcpserver_connectpoll_def w0(1) w1_def [symmetric] Let_def w3_def f
        w2(1) [unfolded f] w2(3,8,9))
  moreover have "tcp_inv w3" "tcp_conns w3 = tcp_conns w @ [x]"
    using assms(5-8) w2 f
    by (intro table_ok_grow [OF assms(1), of a x]; simp add: w3_def)+
  ultimately show ?thesis using w2 f w1(4)
    by (simp add: tcp_clients_def w3_def numconnout_facts info_connection_facts)
qed

lemma connectpoll_result:
  assumes "tcp_inv w" "mem_ok w" "w_sys w = r # r2 # rs"
    and "a_ret r \<le> 16777216" "a_ret r \<notin> set (tcp_fds w)"
  shows "\<exists>w'. tcpserver_connectpoll (x_connectsocket w) w = Inr w' \<and> tcp_inv w' \<and>
    x_maxconnections w' = x_maxconnections w \<and>
    (if 0 \<le> a_ret r \<and> x_accepting w \<noteq> 0 \<and> x_nconnections w < x_maxconnections w
     then tcp_clients w' = tcp_clients w @ [new_client r (a_ret r2 = 0)] \<and>
       closed_fds (w_io w') = closed_fds (w_io w)
     else tcp_clients w' = tcp_clients w \<and>
       closed_fds (w_io w') = closed_fds (w_io w) @ (if 0 \<le> a_ret r then [a_ret r] else []))"
  using connectpoll_accepts [OF assms] connectpoll_refuses [OF assms(1-3)]
  by (cases "0 \<le> a_ret r \<and> x_accepting w \<noteq> 0 \<and> x_nconnections w < x_maxconnections w") auto


section \<open>Receiving\<close>

lemma info_connection_messages [simp]:
  "messages (w_io (tcpserver_info_connection y e w)) = messages (w_io w)"
  by (simp add: tcpserver_info_connection_def tcpserver_info_event_def out_defs Let_def split: option.splits)

lemma receive_data_ok:
  assumes "tcp_inv w" "i < x_nconnections w" "wf_chunk c" "mem_ok w"
  shows "\<exists>w'. tcpserver_receive_callback (Some (tcp_addrs w ! i)) (Some c) w = Inr w' \<and> tcp_inv w' \<and>
    tcp_clients w' = tcp_clients w \<and> mem_ok w' \<and>
    messages (w_io w') = messages (w_io w) @ stream_messages (x_serialize w \<noteq> 0) (byte_atoms (chunk_bytes c))"
proof -
  note e = tcp_inv_entry [OF assms(1,2)]
  have own: "sr_owner (tcp_conns w ! i)" using e(3) by (simp add: sr_ok_def)
  define w1 where "w1 = tcpserver_info_connection (tcp_conns w ! i) RECEIVE w"
  have more: "world.more w1 = world.more w" and ok1: "mem_ok w1"
    using assms(4) by (simp_all add: w1_def info_connection_facts)
  note f1 = world_more_cong [OF more]
  have ok: "table_ok w (tcp_addrs w)" using assms(1) by (simp add: tcp_inv_def)
  have wf: "\<And>cl. x_floatlist w = Some cl \<Longrightarrow> wf_floatlist cl"
    using ok by (auto simp: table_ok_def)
  obtain fl w2 where w2: "iemnet__chunk2list (Some c) (x_floatlist w) w1 = Inr (Some fl, w2)"
    "world.more w2 = world.more w1" "w_io w2 = w_io w1" "mem_ok w2"
    "wf_floatlist fl" "floatlist_atoms fl = byte_atoms (chunk_bytes c)"
    using chunk2list_result [where dest = "x_floatlist w" and w = w1, OF assms(3) wf] ok1 unfolding mem_step_def byte_atoms_def by auto
  obtain w3 where w3: "iemnet__streamout (Some Msgout) (int (fl_argc fl))
      (case fl_argv fl of None \<Rightarrow> [] | Some av \<Rightarrow> av) (x_serialize w \<noteq> 0) (w2\<lparr>x_floatlist := Some fl\<rparr>) = Inr w3"
    "world.more w3 = world.more (w2\<lparr>x_floatlist := Some fl\<rparr>)" "w_malloc w3 = w_malloc w2"
    "messages (w_io w3) = messages (w_io w2) @ stream_messages (x_serialize w \<noteq> 0) (floatlist_atoms fl)"
    using streamout_floatlist [OF w2(5), of "x_serialize w \<noteq> 0" "w2\<lparr>x_floatlist := Some fl\<rparr>"] by auto
  note f2 = world_more_cong [OF w2(2)] and f3 = world_more_cong [OF w3(2)]
  have run: "tcpserver_receive_callback (Some (tcp_addrs w ! i)) (Some c) w = Inr w3"
    using w3(1) by (simp add: tcpserver_receive_callback_def e(2) own w1_def [symmetric] f1 f2 w2(1) Let_def)
  have "table_ok w3 (tcp_addrs w)"
    using ok w2(5) by (simp add: table_ok_def f1 f2 f3)
  then have inv: "tcp_inv w3" "tcp_addrs w3 = tcp_addrs w" by (auto intro: tcp_invI simp: table_ok_addrs)
  moreover have "tcp_clients w3 = tcp_clients w"
    by (simp add: tcp_clients_def tcp_conns_def inv(2) f1 f2 f3)
  ultimately show ?thesis using run w2 w3 by (simp add: w1_def mem_ok_def)
qed

text \<open>
  When the list for the received bytes cannot be enlarged, \<^verbatim>\<open>iemnet__chunk2list\<close> returns NULL, which replaces the list
  and is dereferenced.
\<close>

lemma receive_out_of_memory:
  assumes "tcp_inv w" "i < x_nconnections w" "x_floatlist w = Some fl" "fl_size fl < c_size c" "c_size c < 4294967296"
    and "w_malloc w = False # bs"
  shows "tcpserver_receive_callback (Some (tcp_addrs w ! i)) (Some c) w = Inl NullDeref"
proof -
  note e = tcp_inv_entry [OF assms(1,2)]
  let ?w = "tcpserver_info_connection (tcp_conns w ! i) RECEIVE w"
  have m: "world.more ?w = world.more w" by simp
  have fl: "x_floatlist ?w = Some fl" "w_malloc ?w = False # bs"
    using world_more_cong(5) [OF m] assms(3,6)
    by (simp_all add: tcpserver_info_connection_def tcpserver_info_event_def out_defs Let_def)
  then have "iemnet__chunk2list (Some c) (x_floatlist ?w) ?w = Inr (None, snd (malloc ?w))"
    using assms(4,5) by (simp add: iemnet__chunk2list_def iemnet__floatlist_resize_def malloc_def)
  then show ?thesis using e(2,3) by (simp add: tcpserver_receive_callback_def sr_ok_def Let_def)
qed

lemma receive_close_ok:
  assumes "tcp_room w" "i < x_nconnections w"
  shows "\<exists>w'. tcpserver_receive_callback (Some (tcp_addrs w ! i)) None w = Inr w' \<and> tcp_room w' \<and>
    tcp_clients w' = take i (tcp_clients w) @ drop (Suc i) (tcp_clients w) \<and>
    closed_fds (w_io w') = closed_fds (w_io w) @ [tcp_fds w ! i]"
proof -
  from assms(1) have inv: "tcp_inv w" by (simp add: tcp_room_def)
  note e = tcp_inv_entry [OF inv assms(2)]
  have x: "sr_owner (tcp_conns w ! i)" "sr_fd (tcp_conns w ! i) = tcp_fds w ! i"
    using e(3) assms(2) by (simp_all add: sr_ok_def tcp_fds_def tcp_inv_length [OF inv])
  define w1 where "w1 = emit (Iemnet_log IEMNET_VERBOSE ''got disconnection for socket:%d''
    [L_int (tcp_fds w ! i)]) w"
  have more: "world.more w1 = world.more w" by (simp add: w1_def)
  note f1 = world_more_cong [OF more] and g1 = tcp_more_cong [OF more]
  have pre: "tcp_room w1" "i < x_nconnections w1" using assms by (simp_all add: tcp_room_def f1 g1)
  have run: "tcpserver_receive_callback (Some (tcp_addrs w ! i)) None w = tcpserver_disconnect i w1"
    using disconnect_socket_hit [OF pre]
    by (simp add: tcpserver_receive_callback_def e(2) x w1_def [symmetric] g1)
  have io: "closed_fds (w_io w1) = closed_fds (w_io w)" by (simp add: w1_def)
  show ?thesis
    by (rule disconnect_ok [OF pre]) (auto simp: run io g1 tcp_clients_def take_map drop_map)
qed


section \<open>Resizing the table\<close>

lemma c_uint_le:
  assumes "1 \<le> f" "f \<le> 16777216"
  shows "c_uint f \<le> 16777216"
proof -
  have "\<lfloor>f\<rfloor> \<le> 16777216" "f < 4294967296" using assms(2) by linarith+
  with c_uint_pos [OF assms(1)] show ?thesis by linarith
qed

lemma maxconnections_result:
  assumes "tcp_inv w" "f \<le> 16777216" "\<And>i. pad i = None"
  defines "w' \<equiv> tcpserver_maxconnections pad f w"
  shows "tcp_inv w'" "tcp_clients w' = tcp_clients w" "x_nconnections w' \<le> x_maxconnections w'"
    "x_maxconnections w' = (if 1 \<le> f \<and> x_nconnections w \<le> c_uint f \<and> fst (malloc w) then c_uint f
       else x_maxconnections w)"
    "tcp_addrs w' = tcp_addrs w"
proof -
  obtain ok w1 where m: "malloc w = (ok, w1)" by fastforce
  have f1: "world.more (free w1) = world.more w" "world.more w1 = world.more w"
    using malloc_snd(3) [of w] by (simp_all add: m)
  have inv: "table_ok w (tcp_addrs w)" and n: "length (tcp_addrs w) = x_nconnections w"
    using assms(1) by (simp_all add: tcp_inv_def tcp_inv_length)
  let ?new = "1 \<le> f \<and> x_nconnections w \<le> c_uint f \<and> c_uint f \<noteq> x_maxconnections w \<and> ok"
  have same: "world.more w' = world.more w" if "\<not> ?new"
    using that f1 by (auto simp: w'_def tcpserver_maxconnections_def m Let_def)
  have new: "w' = (free w1)\<lparr>x_sr := resize_cells pad (x_sr w) (c_uint f), x_maxconnections := c_uint f\<rparr>" if ?new
    using that world_more_cong(1) [OF f1(2)] by (simp add: w'_def tcpserver_maxconnections_def m Let_def)
  have le: "x_nconnections w \<le> x_maxconnections w"
    and sr: "x_sr w = map Some (tcp_addrs w) @ replicate (x_maxconnections w - length (tcp_addrs w)) None"
    using inv unfolding table_ok_def by blast+
  have t: "table_ok w' (tcp_addrs w)"
  proof (cases ?new)
    case True
    have "x_sr w' = map Some (tcp_addrs w) @ replicate (c_uint f - length (tcp_addrs w)) None"
      using resize_cells_table [of "tcp_addrs w" _ "c_uint f" pad] True n le assms(3)
      by (simp add: new sr del: replicate_append_same)
    with True c_uint_le [OF _ assms(2)] inv show ?thesis
      by (simp add: table_ok_def new world_more_cong [OF f1(2)])
  next
    case False
    from tcp_more_cong(1) [OF same [OF this]] inv show ?thesis by simp
  qed
  then show "tcp_inv w'" "tcp_addrs w' = tcp_addrs w" by (rule tcp_invI, rule table_ok_addrs)
  have srs: "srs w' = srs w"
    using world_more_cong(4) [OF same] world_more_cong(4) [OF f1(2)] by (cases ?new) (simp_all add: new)
  from t srs show "tcp_clients w' = tcp_clients w"
    by (simp add: tcp_clients_def tcp_conns_def table_ok_addrs)
  from t show "x_nconnections w' \<le> x_maxconnections w'" by (simp add: table_ok_def)
  show "x_maxconnections w' = (if 1 \<le> f \<and> x_nconnections w \<le> c_uint f \<and> fst (malloc w) then c_uint f
       else x_maxconnections w)"
    using world_more_cong(3) [OF same] by (cases ?new) (auto simp: new m)
qed


section \<open>Freeing the object\<close>

lemma free_entry_loop:
  assumes "tcp_inv w" "m \<le> x_nconnections w"
  shows "\<exists>w'. res_fold free_entry [0..<m] w = Inr w' \<and>
    x_sr w' = replicate m None @ drop m (x_sr w) \<and>
    map_of (srs w') = (\<lambda>a. if a \<in> set (take m (tcp_addrs w)) then None else map_of (srs w) a) \<and>
    closed_fds (w_io w') = closed_fds (w_io w) @ take m (tcp_fds w) \<and>
    w_live w' = w_live w - sum_list (map sr_blocks (take m (tcp_conns w))) \<and>
    x_connectsocket w' = x_connectsocket w \<and> x_floatlist w' = x_floatlist w"
  using assms(2)
proof (induction m)
  case 0
  show ?case by simp
next
  case (Suc m)
  then have m: "m < x_nconnections w" by simp
  note e = tcp_inv_entry [OF assms(1) m] and len = tcp_inv_length [OF assms(1)]
  have d: "distinct (tcp_addrs w)" using assms(1) by (simp add: tcp_inv_def table_ok_def)
  then have notin: "tcp_addrs w ! m \<notin> set (take m (tcp_addrs w))"
    using m len by (auto simp: in_set_conv_nth nth_eq_iff_index_eq)
  from Suc obtain w1 where w1: "res_fold free_entry [0..<m] w = Inr w1"
    "x_sr w1 = replicate m None @ drop m (x_sr w)"
    "map_of (srs w1) = (\<lambda>a. if a \<in> set (take m (tcp_addrs w)) then None else map_of (srs w) a)"
    "closed_fds (w_io w1) = closed_fds (w_io w) @ take m (tcp_fds w)"
    "w_live w1 = w_live w - sum_list (map sr_blocks (take m (tcp_conns w)))"
    "x_connectsocket w1 = x_connectsocket w" "x_floatlist w1 = x_floatlist w" by auto
  have at: "x_sr w1 ! m = Some (tcp_addrs w ! m)" "m < length (x_sr w1)"
    using e by (simp_all add: w1(2) nth_append)
  obtain w2 where w2: "tcpserver_socketreceiver_free (Some (tcp_addrs w ! m)) w1 = Inr w2"
    "map_of (srs w2) = (map_of (srs w1))(tcp_addrs w ! m := None)"
    "closed_fds (w_io w2) = closed_fds (w_io w1) @ [sr_fd (tcp_conns w ! m)]"
    "w_live w2 = w_live w1 - sr_blocks (tcp_conns w ! m)"
    using socketreceiver_free_ok [of w1 "tcp_addrs w ! m" "tcp_conns w ! m"] e w1(3) notin by auto
  note f2 = socketreceiver_free_frame [OF w2(1)]
  have x2: "(x_sr w1)[m := None] = replicate (Suc m) None @ drop (Suc m) (x_sr w)"
    using e(4) Cons_nth_drop_Suc [of m "x_sr w"]
    by (simp add: w1(2) list_update_append replicate_append_same [symmetric] flip: Cons_nth_drop_Suc)
  have "free_entry m w1 = Inr (w2\<lparr>x_sr := (x_sr w1)[m := None]\<rparr>)"
    using at w2(1) f2 by (simp add: free_entry_def)
  then have run: "res_fold free_entry [0..<Suc m] w = Inr (w2\<lparr>x_sr := (x_sr w1)[m := None]\<rparr>)"
    by (simp add: res_fold_append w1(1))
  have ml: "m < length (tcp_addrs w)" "m < length (tcp_conns w)" "m < length (tcp_fds w)" using m len by simp_all
  have "sr_fd (tcp_conns w ! m) = tcp_fds w ! m" using ml by (simp add: tcp_fds_def)
  with run x2 w1 w2 f2 show ?case
    by (auto simp: take_Suc_conv_app_nth [OF ml(1)] take_Suc_conv_app_nth [OF ml(2)]
        take_Suc_conv_app_nth [OF ml(3)] fun_eq_iff)
qed

text \<open>The blocks of memory that the object holds, the table and the float list included.\<close>

definition tcp_blocks :: "t_tcpserver \<Rightarrow> int" where
  "tcp_blocks w = sum_list (map sr_blocks (tcp_conns w)) + 1 + (if x_floatlist w = None then 0 else 2)"

lemma free_ok:
  assumes "tcp_inv w"
  shows "\<exists>w'. tcpserver_free w = Inr w' \<and> heap_dom (srs w') = {} \<and> w_live w' = w_live w - tcp_blocks w \<and>
    closed_fds (w_io w') = closed_fds (w_io w) @ tcp_fds w @
      (if 0 \<le> x_connectsocket w then [x_connectsocket w] else [])"
proof -
  let ?n = "x_nconnections w" and ?m = "x_maxconnections w"
  note len = tcp_inv_length [OF assms]
  have ok: "table_ok w (tcp_addrs w)" using assms by (simp add: tcp_inv_def)
  then have le: "?n \<le> ?m" and dom: "heap_dom (srs w) = set (tcp_addrs w)"
    and fl: "case x_floatlist w of None \<Rightarrow> True | Some cl \<Rightarrow> wf_floatlist cl"
    and sr: "x_sr w = map Some (tcp_addrs w) @ replicate (?m - ?n) None"
    unfolding table_ok_def by simp_all
  obtain w1 where w1: "res_fold free_entry [0..<?n] w = Inr w1" "x_sr w1 = replicate ?n None @ drop ?n (x_sr w)"
    "map_of (srs w1) = (\<lambda>a. if a \<in> set (tcp_addrs w) then None else map_of (srs w) a)"
    "closed_fds (w_io w1) = closed_fds (w_io w) @ tcp_fds w"
    "w_live w1 = w_live w - sum_list (map sr_blocks (tcp_conns w))"
    "x_connectsocket w1 = x_connectsocket w" "x_floatlist w1 = x_floatlist w"
    using free_entry_loop [OF assms le_refl] len by auto
  have "map_of (srs w1) a = None" for a using dom by (auto simp: w1(3) heap_dom_map_of domIff)
  then have dom1: "heap_dom (srs w1) = {}" unfolding heap_dom_map_of dom_def by simp
  have x1: "x_sr w1 = replicate ?m None" using le len by (simp add: w1(2) sr flip: replicate_add)
  have "res_fold free_entry [?n..<k] w1 = Inr w1" if "?n \<le> k" "k \<le> ?m" for k
    using that by (induction k rule: nat_induct_at_least) (simp_all add: res_fold_append free_entry_def x1)
  then have "res_fold free_entry [0..<?m] w = Inr w1"
    using le w1(1) upt_add_eq_append [of 0 ?n "?m - ?n"] by (simp add: res_fold_append)
  then show ?thesis
    using w1 dom1 fl
    by (simp add: tcpserver_free_def Let_def floatlist_destroy_blocks tcp_blocks_def closesocket_facts
        world_more_cong(4) [OF floatlist_destroy_blocks(3)])
qed

section \<open>Frames\<close>

lemmas [simp] = world_more_cong [OF socket2addressout_frame(1)] world_more_cong [OF enable_option_frame(1)]

lemma info_event_live [simp]: "w_live (snd (tcpserver_info_event e w)) = w_live w"
  by (simp add: tcpserver_info_event_def split: option.splits)

end
