(* ===== verification/Tcp_Server_Properties.thy ===== *)
theory Tcp_Server_Properties
  imports Tcp_Server_Handlers
begin

text \<open>
  What the TCP server guarantees, stated over its handlers and the abstract list of its clients
  (index order, socket, peer address, whether its send thread runs, chunks waiting to be sent).
\<close>

section \<open>Disconnecting all\<close>

text \<open>Every second element, starting with the second.\<close>

fun every_other :: "'a list \<Rightarrow> 'a list" where
  "every_other [] = []"
| "every_other [x] = []"
| "every_other (x # y # zs) = y # every_other zs"

lemma disconnect_all_from_keeps:
  "tcp_room w \<Longrightarrow> tcp_clients w = done @ rest \<Longrightarrow>
   \<exists>w'. disconnect_all_from (length done) w = Inr w' \<and> tcp_room w' \<and> tcp_clients w' = done @ every_other rest"
proof (induction rest arbitrary: "done" w rule: every_other.induct)
  case 1
  then have "x_nconnections w = length done" using tcp_inv_length(3) [of w] by (simp add: tcp_room_def)
  with 1 show ?case by (simp add: disconnect_all_from.simps)
next
  case (2 x)
  then have n: "x_nconnections w = Suc (length done)" using tcp_inv_length(3) [of w] by (simp add: tcp_room_def)
  then obtain w' where w': "tcpserver_disconnect (length done) w = Inr w'" "tcp_room w'"
    "tcp_conns w' = take (length done) (tcp_conns w) @ drop (Suc (length done)) (tcp_conns w)"
    "x_nconnections w' = x_nconnections w - 1"
    using disconnect_ok [OF 2(1), of "length done"] by (metis lessI)
  have "disconnect_all_from (length done) w = Inr w'"
    using n w' by (simp add: disconnect_all_from.simps [of "length done"] disconnect_all_from.simps [of "Suc (length done)"])
  moreover have "tcp_clients w' = done"
    using w'(3) 2(2) by (simp add: tcp_clients_def take_map drop_map)
      (metis append_eq_conv_conj append_Nil2 drop_map length_Cons list.size(3) drop_eq_Nil length_append_singleton le_refl map_eq_conv take_map)
  ultimately show ?case using w' by simp
next
  case (3 x y zs)
  have n: "length done < x_nconnections w"
    using 3(2,3) tcp_inv_length(3) [of w] by (simp add: tcp_room_def)
  then obtain w' where w': "tcpserver_disconnect (length done) w = Inr w'" "tcp_room w'"
    "tcp_conns w' = take (length done) (tcp_conns w) @ drop (Suc (length done)) (tcp_conns w)"
    using disconnect_ok [OF 3(2)] by metis
  have "tcp_clients w' = take (length done) (tcp_clients w) @ drop (Suc (length done)) (tcp_clients w)"
    using w'(3) by (simp add: tcp_clients_def take_map drop_map)
  then have c: "tcp_clients w' = (done @ [y]) @ zs" using 3(3) by simp
  show ?case
    using 3(1) [OF w'(2) c] w'(1) n by (auto simp: disconnect_all_from.simps [of "length done"])
qed

section \<open>A server with two clients\<close>

definition sample_sr :: "nat \<Rightarrow> int \<Rightarrow> bool \<Rightarrow> t_tcpserver_socketreceiver" where
  "sample_sr a fd alive = \<lparr>sr_owner = True, sr_host = 2130706433, sr_port = 5000, sr_fd = fd, sr_client = a - 1,
     sr_sender = Some (sample_sender\<lparr>s_sockfd := fd, s_isrunning := alive\<rparr>),
     sr_receiver = Some \<lparr>r_sockfd = fd, r_userdata = Some a\<rparr>, sr_hostname = ''127.0.0.1''\<rparr>"

definition sample_server :: "nat \<Rightarrow> bool \<Rightarrow> t_tcpserver" where
  "sample_server m alive = \<lparr>w_io = [], w_sys = [], w_malloc = [], w_live = 0, w_errno = 0, x_serialize = 1,
     x_accepting = 1, x_sr = map Some [1, 2] @ replicate (m - 2) None, x_nconnections = 2, x_maxconnections = m,
     x_connectsocket = 3, x_port = 5000, x_defaulttarget = 0,
     x_floatlist = Some \<lparr>fl_argv = Some [], fl_argc = 0, fl_size = 0\<rparr>,
     srs = [(1, sample_sr 1 7 alive), (2, sample_sr 2 8 True)]\<rparr>"

lemma sample_sr_ok: "0 \<le> fd \<Longrightarrow> fd \<le> 16777216 \<Longrightarrow> sr_ok a (sample_sr a fd alive)"
  by (simp add: sr_ok_def sample_sr_def sender_inv_def sample_sender_def queue_empty_def [THEN arg_cong, of q_used])

lemma sample_client: "abs_client (sample_sr a fd alive) = \<lparr>cl_fd = fd, cl_host = 2130706433, cl_port = 5000,
    cl_alive = alive, cl_pending = []\<rparr>"
  by (simp add: abs_client_def sample_sr_def sample_sender_def sender_pending_def)

lemma sample_server_addrs: "tcp_addrs (sample_server m alive) = [1, 2]"
  by (simp add: tcp_addrs_def sample_server_def)

lemma sample_server_facts:
  assumes "2 \<le> m" "m \<le> 16777216"
  shows "tcp_inv (sample_server m alive)" "mem_ok (sample_server m alive)"
    "tcp_clients (sample_server m alive) = map abs_client [sample_sr 1 7 alive, sample_sr 2 8 True]"
    "tcp_fds (sample_server m alive) = [7, 8]"
    "x_nconnections (sample_server m alive) = 2" "x_maxconnections (sample_server m alive) = m"
proof -
  show "x_nconnections (sample_server m alive) = 2" "x_maxconnections (sample_server m alive) = m"
    "mem_ok (sample_server m alive)"
    by (simp_all add: sample_server_def mem_ok_def)
  show "tcp_inv (sample_server m alive)"
    unfolding tcp_inv_def sample_server_addrs table_ok_def using assms
    by (simp add: sample_server_def sample_sr_ok heap_dom_def wf_floatlist_def)
      (simp add: sample_sr_def)
  show "tcp_clients (sample_server m alive) = map abs_client [sample_sr 1 7 alive, sample_sr 2 8 True]"
    "tcp_fds (sample_server m alive) = [7, 8]"
    unfolding tcp_clients_def tcp_fds_def tcp_conns_def sample_server_addrs
    by (simp_all add: sample_server_def) (simp_all add: sample_sr_def)
qed

lemma sample_server_room: "3 < m \<Longrightarrow> m \<le> 16777216 \<Longrightarrow> tcp_room (sample_server m alive)"
  by (simp add: tcp_room_def sample_server_facts)

section \<open>Properties\<close>

text \<open>
  C1. Broadcasting: while the table has room for a removal, a message reaches every client whose send
  thread runs exactly once, behind what is already waiting for it, and every client whose thread has
  gone is disconnected, although the table changes under the loop. Order and all other
  clients are untouched.
\<close>

theorem broadcast_reaches_all:
  assumes "tcp_room w" "mem_ok w" "argv \<noteq> []" "length argv < 2147483648"
    and "list_all (client_fits (list_chunk gi argv)) (tcp_clients w)"
  shows "\<exists>w'. tcpserver_broadcast gi argv w = Inr w' \<and> tcp_inv w' \<and>
    tcp_clients w' = map (client_send (list_chunk gi argv)) (filter cl_alive (tcp_clients w))"
  using broadcast_ok [OF assms] by (auto simp: clients_send_def tcp_room_def)

theorem broadcast_reaches_all_witness:
  "\<exists>w'. tcpserver_broadcast sample_getint [A_FLOAT 65] (sample_server 32 False) = Inr w' \<and> tcp_inv w' \<and>
    map cl_fd (tcp_clients w') = [8] \<and> map cl_pending (tcp_clients w') = [[list_chunk sample_getint [A_FLOAT 65]]]"
  using broadcast_reaches_all [of "sample_server 32 False" "[A_FLOAT 65]" sample_getint]
  by (auto simp: sample_server_room sample_server_facts sample_client client_fits_def client_send_def)

text \<open>
  Sending to all clients but one (a negative target): the excluded client keeps its place and
  receives nothing; the others are treated as in a broadcast.
\<close>

lemma butclient_skips_one:
  assumes "tcp_room w" "mem_ok w" "argv \<noteq> []" "length argv < 2147483648" "but < x_nconnections w"
    and "list_all (client_fits (list_chunk gi argv)) (tcp_clients w)"
  shows "\<exists>w'. tcpserver_send_butclient gi but argv w = Inr w' \<and> tcp_inv w' \<and>
    tcp_clients w' = clients_send (list_chunk gi argv) (take but (tcp_clients w)) @ tcp_clients w ! but #
      clients_send (list_chunk gi argv) (drop (Suc but) (tcp_clients w))"
proof -
  obtain w' where w': "tcpserver_send_butclient gi but argv w = Inr w'" "tcp_room w'"
    "tcp_clients w' = clients_send_but (\<lambda>i. i = but) (list_chunk gi argv) (tcp_clients w)"
    using butclient_ok [OF assms] by blast
  have "but < length (tcp_clients w)" using assms(1,5) by (simp add: tcp_room_def tcp_inv_length)
  then show ?thesis using w' clients_send_but_one by (auto simp: tcp_room_def)
qed

text \<open>
  Sending to one client appends the message to the queue of that client and to no other.
\<close>

lemma toclient_reaches_one:
  assumes "tcp_inv w" "mem_ok w" "i < x_nconnections w" "cl_alive (tcp_clients w ! i)"
    and "argv \<noteq> []" "length argv < 2147483648" "client_fits (list_chunk gi argv) (tcp_clients w ! i)"
  shows "\<exists>w'. tcpserver_send_toclient gi i argv w = Inr w' \<and> tcp_inv w' \<and>
    tcp_clients w' = (tcp_clients w)[i := client_send (list_chunk gi argv) (tcp_clients w ! i)]"
  by (rule toclient_alive [OF assms])

text \<open>
  C5. While at least two cells of the table are free, disconnecting a client removes exactly this client, closes its socket, gives back all the memory
  it held and closes the gap: the later clients move down by one, all keep their queues, and looking
  up a socket afterwards finds the remaining clients at their new indices and the removed one no
  more.
\<close>

theorem disconnect_removes_one:
  assumes "tcp_room w" "i < x_nconnections w"
  shows "\<exists>w'. tcpserver_disconnect i w = Inr w' \<and> tcp_inv w' \<and>
    tcp_clients w' = take i (tcp_clients w) @ drop (Suc i) (tcp_clients w) \<and>
    closed_fds (w_io w') = closed_fds (w_io w) @ [tcp_fds w ! i] \<and>
    w_live w' = w_live w - sr_blocks (tcp_conns w ! i) \<and>
    tcpserver_socket2index (tcp_fds w ! i) w' = Inr (-1) \<and>
    (\<forall>j<x_nconnections w. j \<noteq> i \<longrightarrow>
      tcpserver_socket2index (tcp_fds w ! j) w' = Inr (int (if j < i then j else j - 1)))"
proof -
  from assms(1) have len: "length (tcp_fds w) = x_nconnections w" by (simp add: tcp_room_def tcp_inv_length)
  obtain w' where w': "tcpserver_disconnect i w = Inr w'" "tcp_room w'"
    "tcp_conns w' = take i (tcp_conns w) @ drop (Suc i) (tcp_conns w)"
    "closed_fds (w_io w') = closed_fds (w_io w) @ [tcp_fds w ! i]"
    "w_live w' = w_live w - sr_blocks (tcp_conns w ! i)"
    using disconnect_ok [OF assms] by blast
  moreover have "tcp_clients w' = take i (tcp_clients w) @ drop (Suc i) (tcp_clients w)"
    using w'(3) by (simp add: tcp_clients_def take_map drop_map)
  ultimately show ?thesis
    using tct.remove_keys [OF assms(1), of i] assms(2) len by (auto simp: tcp_room_def)
qed

theorem disconnect_removes_one_witness:
  "\<exists>w'. tcpserver_disconnect 0 (sample_server 32 True) = Inr w' \<and> map cl_fd (tcp_clients w') = [8] \<and>
    tcpserver_socket2index 7 w' = Inr (-1) \<and> tcpserver_socket2index 8 w' = Inr 0"
  using disconnect_removes_one [of "sample_server 32 True" 0]
  by (auto simp: sample_server_room sample_server_facts sample_client less_Suc_eq numeral_2_eq_2)

text \<open>
  C16. With fewer than two free cells in the table, every disconnect runs over the end of the table: it
  accesses the cell behind the last one. With the default size this happens as soon as 31 of the 32
  connections are in use.
\<close>

theorem disconnect_runs_over_table:
  assumes "tcp_inv w" "i < x_nconnections w" "x_maxconnections w \<le> x_nconnections w + 1"
  shows "tcpserver_disconnect i w = Inl (OutOfBounds (x_maxconnections w))"
  by (rule disconnect_overrun [OF assms])

theorem disconnect_runs_over_table_witness:
  "tcpserver_disconnect 0 (sample_server 3 True) = Inl (OutOfBounds 3)"
  using disconnect_runs_over_table [of "sample_server 3 True" 0] by (simp add: sample_server_facts)

text \<open>
  C33. While at least two cells of the table are free, disconnecting all clients does not disconnect all of them: the loop index advances while the table
  shrinks, so that every second client stays connected.
\<close>

theorem disconnect_all_skips:
  assumes "tcp_room w"
  shows "\<exists>w'. tcpserver_disconnect_all w = Inr w' \<and> tcp_clients w' = every_other (tcp_clients w)"
  using disconnect_all_from_keeps [OF assms, of "[]"] by (auto simp: tcpserver_disconnect_all_def)

theorem disconnect_all_skips_witness:
  "\<exists>w'. tcpserver_disconnect_all (sample_server 32 True) = Inr w' \<and> map cl_fd (tcp_clients w') = [8]"
  using disconnect_all_skips [OF sample_server_room [of 32 True]]
  by (auto simp: sample_server_facts sample_client)

text \<open>
  C12. Accepting connections, for every answer of the operating system: a new client is appended behind
  the existing ones iff accept succeeded, the server accepts connections and the limit is not
  reached; otherwise the clients are unchanged and the new socket is closed again. The number of
  clients never exceeds the limit.
\<close>

theorem accept_respects_limit:
  assumes "tcp_inv w" "mem_ok w" "w_sys w = r # r2 # rs"
    and "a_ret r \<le> 16777216" "a_ret r \<notin> set (tcp_fds w)"
  shows "\<exists>w'. tcpserver_connectpoll (x_connectsocket w) w = Inr w' \<and> tcp_inv w' \<and>
    length (tcp_clients w') \<le> x_maxconnections w \<and>
    (if 0 \<le> a_ret r \<and> x_accepting w \<noteq> 0 \<and> length (tcp_clients w) < x_maxconnections w
     then tcp_clients w' = tcp_clients w @ [new_client r (a_ret r2 = 0)] \<and>
       closed_fds (w_io w') = closed_fds (w_io w)
     else tcp_clients w' = tcp_clients w \<and>
       closed_fds (w_io w') = closed_fds (w_io w) @ (if 0 \<le> a_ret r then [a_ret r] else []))"
proof -
  obtain w' where w': "tcpserver_connectpoll (x_connectsocket w) w = Inr w'" "tcp_inv w'"
    "x_maxconnections w' = x_maxconnections w"
    "if 0 \<le> a_ret r \<and> x_accepting w \<noteq> 0 \<and> x_nconnections w < x_maxconnections w
     then tcp_clients w' = tcp_clients w @ [new_client r (a_ret r2 = 0)] \<and>
       closed_fds (w_io w') = closed_fds (w_io w)
     else tcp_clients w' = tcp_clients w \<and>
       closed_fds (w_io w') = closed_fds (w_io w) @ (if 0 \<le> a_ret r then [a_ret r] else [])"
    using connectpoll_result [OF assms] by blast
  have "x_nconnections w' \<le> x_maxconnections w'" using w'(2) by (simp add: tcp_inv_def table_ok_def)
  then show ?thesis using w' by (simp add: tcp_inv_length [OF assms(1)] tcp_inv_length [OF w'(2)])
qed

definition sample_accept :: t_tcpserver where
  "sample_accept = (sample_server 32 True)\<lparr>w_sys := [sample_recv\<lparr>a_ret := 9\<rparr>, sys_ret 0]\<rparr>"

lemma sample_accept_facts:
  "tcp_inv sample_accept" "mem_ok sample_accept" "tcp_fds sample_accept = [7, 8]"
  "tcp_clients sample_accept = map abs_client [sample_sr 1 7 True, sample_sr 2 8 True]"
  "x_connectsocket sample_accept = 3" "x_accepting sample_accept = 1" "x_maxconnections sample_accept = 32"
  "w_sys sample_accept = [sample_recv\<lparr>a_ret := 9\<rparr>, sys_ret 0]"
proof -
  have m: "world.more sample_accept = world.more (sample_server 32 True)" by (simp add: sample_accept_def)
  show "tcp_inv sample_accept" "tcp_fds sample_accept = [7, 8]"
    "tcp_clients sample_accept = map abs_client [sample_sr 1 7 True, sample_sr 2 8 True]"
    "x_maxconnections sample_accept = 32"
    using tcp_more_cong [OF m] world_more_cong(3) [OF m] sample_server_facts [of 32 True] by simp_all
  show "mem_ok sample_accept" "x_connectsocket sample_accept = 3" "x_accepting sample_accept = 1"
    "w_sys sample_accept = [sample_recv\<lparr>a_ret := 9\<rparr>, sys_ret 0]"
    by (simp_all add: sample_accept_def sample_server_def mem_ok_def)
qed

theorem accept_respects_limit_witness:
  "\<exists>w'. tcpserver_connectpoll 3 sample_accept = Inr w' \<and> map cl_fd (tcp_clients w') = [7, 8, 9]"
  using accept_respects_limit [OF sample_accept_facts(1,2,8)]
  by (auto simp: sample_accept_facts sample_client new_client_def)

text \<open>
  Changing the maximum number of connections, provided the memory that the table grows by is
  cleared: the limit changes only to a value of at least one that still holds all clients, and no
  client is lost.
\<close>

lemma maxconnections_keeps_clients:
  assumes "tcp_inv w" "f \<le> 16777216" "\<forall>i. pad i = None"
  shows "tcp_inv (tcpserver_maxconnections pad f w) \<and>
    tcp_clients (tcpserver_maxconnections pad f w) = tcp_clients w \<and>
    x_maxconnections (tcpserver_maxconnections pad f w) =
      (if 1 \<le> f \<and> length (tcp_clients w) \<le> c_uint f \<and> fst (malloc w) then c_uint f else x_maxconnections w)"
  using maxconnections_result [OF assms(1,2), of pad] assms(3) tcp_inv_length(3) [OF assms(1)] by simp

text \<open>
  Deleting the object closes the sockets of all its clients and then the listening socket, each
  exactly once, and frees every block of memory it held: the connections with their senders, queues,
  waiting chunks and receivers, the table and the float list.
\<close>

lemma free_releases_everything:
  assumes "tcp_inv w"
  shows "\<exists>w'. tcpserver_free w = Inr w' \<and> heap_dom (srs w') = {} \<and>
    w_live w' = w_live w - (sum_list (map sr_blocks (tcp_conns w)) + 1 + (if x_floatlist w = None then 0 else 2)) \<and>
    closed_fds (w_io w') = closed_fds (w_io w) @ tcp_fds w @
      (if 0 \<le> x_connectsocket w then [x_connectsocket w] else [])"
  using free_ok [OF assms] by (simp add: tcp_blocks_def)

end
