(* ===== verification/Tcp_Server_Reentry.thy ===== *)
theory Tcp_Server_Reentry
  imports Tcp_Server_Properties
begin

text \<open>
  Messages that come back. An outlet of Pd calls the objects connected to it before it returns, so that a patch can
  send a message into the TCP server while a handler of the server is still running. This theory has the broadcast
  of \<^verbatim>\<open>tcpserver.c\<close> once more, with the patch as a parameter: what it does at every outlet call the broadcast makes,
  before the call returns. These are the reports about sending and, for a client that has to be dropped, the messages of
  \<^verbatim>\<open>tcpserver_disconnect\<close>. A patch that leaves the clients alone does not disturb the broadcast; a patch that
  disconnects a client that is still to come makes it use a connection that has been freed.
\<close>

section \<open>Sending under a patch\<close>

type_synonym patch = "event \<Rightarrow> t_tcpserver \<Rightarrow> t_tcpserver res"

definition outlet_call :: "patch \<Rightarrow> event \<Rightarrow> t_tcpserver \<Rightarrow> t_tcpserver res" where
  "outlet_call patch e w = patch e (emit e w)"

definition info_event_in :: "patch \<Rightarrow> t_tcpserver_event \<Rightarrow> t_tcpserver \<Rightarrow> t_tcpserver res" where
  "info_event_in patch event w = (case event_name event of
     None \<Rightarrow> Inr w
   | Some s \<Rightarrow> outlet_call patch (Outlet_anything Statusout ''type'' [A_SYMBOL s]) w)"

text \<open>
  The messages of \<^verbatim>\<open>iemnet__addrout\<close> and \<^verbatim>\<open>iemnet__numconnout\<close> with both outlets given. Both messages of the first one
  have the address it was called with: the static array in which the code keeps it is not shared with calls that the patch
  makes in between.
\<close>

definition addrout_in :: "patch \<Rightarrow> 32 word \<Rightarrow> 16 word \<Rightarrow> t_tcpserver \<Rightarrow> t_tcpserver res" where
  "addrout_in patch address port w =
     (let addr = map (\<lambda>q. SETFLOAT (uint q)) (addr_quads address) @ [SETFLOAT (uint port)] in
      res_bind (outlet_call patch (Outlet_anything Statusout ''address'' addr) w)
        (outlet_call patch (Outlet_list Addrout ''list'' addr)))"

definition numconnout_in :: "patch \<Rightarrow> int \<Rightarrow> t_tcpserver \<Rightarrow> t_tcpserver res" where
  "numconnout_in patch numconnections w =
     res_bind (outlet_call patch (Outlet_anything Statusout ''connections'' [SETFLOAT numconnections]) w)
       (outlet_call patch (Outlet_float Connectout (t_float_of_int numconnections)))"

text \<open>The connection is read again for every message, since a message may change it.\<close>

definition info_connection_in :: "patch \<Rightarrow> ptr \<Rightarrow> t_tcpserver_event \<Rightarrow> t_tcpserver \<Rightarrow> t_tcpserver res" where
  "info_connection_in patch p event w =
     res_bind (info_event_in patch event w) (\<lambda>w.
     res_bind (heap_get (srs w) p) (\<lambda>y.
     res_bind (outlet_call patch (Outlet_anything Statusout ''client''
        [SETFLOAT (int (sr_client y) + 1), SETFLOAT (sr_fd y), A_SYMBOL (sr_hostname y), SETFLOAT (uint (sr_port y))]) w) (\<lambda>w.
     res_bind (heap_get (srs w) p) (\<lambda>y.
     res_bind (outlet_call patch (Outlet_anything Statusout ''socket'' [SETFLOAT (sr_fd y)]) w) (\<lambda>w.
     res_bind (heap_get (srs w) p) (\<lambda>y.
     res_bind (addrout_in patch (sr_host y) (sr_port y) w) (\<lambda>w.
     res_bind (heap_get (srs w) p) (\<lambda>y.
     outlet_call patch (Outlet_float Sockout (t_float_of_int (sr_fd y))) w))))))))"

text \<open>The part of \<^verbatim>\<open>tcpserver_disconnect\<close> between its messages: it reads the table again and makes no outlet call.\<close>

definition remove_entry :: "nat \<Rightarrow> t_tcpserver \<Rightarrow> t_tcpserver res" where
  "remove_entry client w =
     res_bind (arr_get (x_sr w) client) (\<lambda>p.
     res_bind (tcpserver_socketreceiver_free p w) (\<lambda>w.
     res_bind (arr_set (x_sr w) client None) (\<lambda>sr.
     res_bind (res_fold shift_left [client..<x_nconnections w] sr) (\<lambda>sr.
     let k = max client (x_nconnections w) in
     res_bind (arr_set sr (k + 1) None) (\<lambda>sr.
     Inr (w\<lparr>x_sr := sr, x_nconnections := uint_dec (x_nconnections w)\<rparr>))))))"

definition disconnect_in :: "patch \<Rightarrow> nat \<Rightarrow> t_tcpserver \<Rightarrow> t_tcpserver res" where
  "disconnect_in patch client w =
     res_bind (arr_get (x_sr w) client) (\<lambda>p.
     res_bind (info_connection_in patch p DISCONNECT w) (\<lambda>w.
     res_bind (remove_entry client w) (\<lambda>w.
     numconnout_in patch (int (x_nconnections w)) w)))"

definition disconnect_client_in :: "patch \<Rightarrow> t_float \<Rightarrow> t_tcpserver \<Rightarrow> t_tcpserver res" where
  "disconnect_client_in patch fclient w =
     (let (client, w) = tcpserver_fixindex (c_int fclient) w in
      if client < 0 then Inr w else disconnect_in patch (nat client) w)"

definition disconnect_socket_in :: "patch \<Rightarrow> t_float \<Rightarrow> t_tcpserver \<Rightarrow> t_tcpserver res" where
  "disconnect_socket_in patch fsocket w =
     res_bind (tcpserver_socket2index (c_int fsocket) w) (\<lambda>k.
       if k \<ge> 0 then disconnect_client_in patch (t_float_of_int (k + 1)) w else Inr w)"

text \<open>The two reports of \<^verbatim>\<open>tcpserver_send_bytes_client\<close>, the first one by \<^verbatim>\<open>tcpserver_info_event\<close>.\<close>

definition report_send :: "patch \<Rightarrow> int \<Rightarrow> int \<Rightarrow> int \<Rightarrow> t_tcpserver \<Rightarrow> t_tcpserver res" where
  "report_send patch client sz sockfd w =
     res_bind (info_event_in patch SEND w)
       (outlet_call patch (Outlet_anything Statusout ''sendbuffersize''
          [SETFLOAT (client + 1), SETFLOAT sz, SETFLOAT sockfd]))"

text \<open>As in the code, the sender and the socket are read before the reports.\<close>

definition send_bytes_client_in ::
    "patch \<Rightarrow> ptr \<Rightarrow> int \<Rightarrow> t_iemnet_chunk option \<Rightarrow> t_tcpserver \<Rightarrow> t_tcpserver res" where
  "send_bytes_client_in patch sr client chunk w = (case sr of None \<Rightarrow> Inr w
     | Some a \<Rightarrow> res_bind (heap_get (srs w) (Some a)) (\<lambda>x.
         res_bind (case sr_sender x of None \<Rightarrow> Inr (-1, w)
             | Some s \<Rightarrow> res_bind (iemnet__sender_send s chunk w) (\<lambda>(sz, s, w).
                 Inr (sz, w\<lparr>srs := heap_put (srs w) a (x\<lparr>sr_sender := Some s\<rparr>)\<rparr>)))
           (\<lambda>(sz, w).
             let sockfd = sr_fd x in
             res_bind (report_send patch client sz sockfd w) (\<lambda>w.
             if sz < 0 then disconnect_socket_in patch (t_float_of_int sockfd) w else Inr w))))"

definition send_bytes_clients_in ::
    "patch \<Rightarrow> ptr list \<Rightarrow> nat \<Rightarrow> t_iemnet_chunk option \<Rightarrow> t_tcpserver \<Rightarrow> t_tcpserver res" where
  "send_bytes_clients_in patch sr nsr chunk =
     res_fold (\<lambda>i w. res_bind (arr_get sr i) (\<lambda>p. send_bytes_client_in patch p (int i) chunk w)) [0..<nsr]"

definition broadcast_in :: "patch \<Rightarrow> getint \<Rightarrow> t_atom list \<Rightarrow> t_tcpserver \<Rightarrow> t_tcpserver res" where
  "broadcast_in patch gi argv w =
     (if x_nconnections w = 0 then Inr w
      else res_bind (iemnet__chunk_create_list gi (int (length argv)) argv w) (\<lambda>(chunk, w).
        res_bind (copy_table w) (\<lambda>(sr, w).
        res_bind (send_bytes_clients_in patch sr (x_nconnections w) chunk w) (\<lambda>w.
        Inr (iemnet__chunk_destroy chunk (free w))))))"

text \<open>Without a patch these are the functions of the server.\<close>

abbreviation nothing :: patch where
  "nothing \<equiv> \<lambda>e w. Inr w"

lemma report_nothing: "report_send nothing k sz fd w =
    Inr (emit (Outlet_anything Statusout ''sendbuffersize'' [SETFLOAT (k + 1), SETFLOAT sz, SETFLOAT fd])
      (snd (tcpserver_info_event SEND w)))"
  by (simp add: report_send_def outlet_call_def info_event_in_def tcpserver_info_event_def)

lemma info_connection_nothing:
  assumes "heap_get (srs w) p = Inr y"
  shows "info_connection_in nothing p event w = Inr (tcpserver_info_connection y event w)"
proof -
  have "info_event_in nothing event w = Inr (snd (tcpserver_info_event event w))"
    by (simp add: info_event_in_def tcpserver_info_event_def outlet_call_def split: option.splits)
  moreover have "srs (snd (tcpserver_info_event event w)) = srs w"
    by (simp add: tcpserver_info_event_def split: option.splits)
  ultimately show ?thesis
    using assms by (simp add: info_connection_in_def addrout_in_def outlet_call_def tcpserver_info_connection_def
      iemnet__addrout_def out_anything_def Let_def)
qed

lemma disconnect_nothing: "disconnect_in nothing i w = tcpserver_disconnect i w"
proof (cases "arr_get (x_sr w) i")
  case (Inr p)
  show ?thesis
  proof (cases "heap_get (srs w) p")
    case (Inl e)
    have "srs (snd (tcpserver_info_event DISCONNECT w)) = srs w" by (simp add: tcpserver_info_event_def)
    then show ?thesis using Inr Inl
      by (simp add: disconnect_in_def tcpserver_disconnect_def info_connection_in_def info_event_in_def outlet_call_def)
  next
    case y: (Inr y)
    define v where "v = tcpserver_info_connection y DISCONNECT w"
    have "x_sr v = x_sr w" by (simp add: v_def)
    then show ?thesis using Inr y
      by (simp add: disconnect_in_def tcpserver_disconnect_def info_connection_nothing v_def [symmetric] remove_entry_def
        numconnout_in_def iemnet__numconnout_def out_anything_def outlet_call_def res_bind_assoc Let_def)
  qed
qed (simp add: disconnect_in_def tcpserver_disconnect_def)

lemma disconnect_socket_nothing: "disconnect_socket_in nothing = tcpserver_disconnect_socket"
proof -
  have client: "disconnect_client_in nothing = tcpserver_disconnect_client"
    unfolding disconnect_client_in_def tcpserver_disconnect_client_def disconnect_nothing by (rule ext)+ (rule refl)
  show ?thesis unfolding disconnect_socket_in_def tcpserver_disconnect_socket_def client ..
qed

lemma broadcast_in_nothing: "broadcast_in nothing = tcpserver_broadcast"
proof -
  have "send_bytes_client_in nothing p k c w = tcpserver_send_bytes_client p k c w" for p k c w
    unfolding send_bytes_client_in_def tcpserver_send_bytes_client_def report_nothing disconnect_socket_nothing
      res_bind_simps Let_def ..
  then show ?thesis
    by (intro ext) (simp add: broadcast_in_def tcpserver_broadcast_def send_bytes_clients_in_def tcpserver_send_bytes_clients_def)
qed

section \<open>Removing an entry\<close>

lemma arr_get_table:
  assumes "tcp_inv w" "i < x_nconnections w"
  shows "arr_get (x_sr w) i = Inr (Some (tcp_addrs w ! i))"
  using tcp_inv_entry(1,4) [OF assms] by simp

lemma disconnect_socket_in_hit:
  assumes "tcp_room w" "i < x_nconnections w"
  shows "disconnect_socket_in patch (t_float_of_int (tcp_fds w ! i)) w = disconnect_in patch i w"
proof -
  from assms(1) have inv: "tcp_inv w" by (simp add: tcp_room_def)
  have "\<bar>tcp_fds w ! i\<bar> \<le> 16777216" using tcp_fd_range [OF inv assms(2)] by simp
  moreover have "x_nconnections w \<le> 16777216" using inv by (simp add: tcp_inv_def table_ok_def)
  moreover have "tcpserver_socket2index (tcp_fds w ! i) w = Inr (int i)"
    using assms by (intro tct.lookup_hit) (simp_all add: tcp_inv_length [OF inv])
  ultimately show ?thesis
    using assms(2) fixindex_valid [of "int i + 1" w]
    by (simp add: disconnect_socket_in_def disconnect_client_in_def c_int_of_t_float_of_int)
qed

lemma remove_entry_ok:
  assumes "tcp_room w" "i < x_nconnections w" "mem_ok w"
  obtains w' where "remove_entry i w = Inr w'" "tcp_room w'" "mem_ok w'"
    "tcp_addrs w' = take i (tcp_addrs w) @ drop (Suc i) (tcp_addrs w)"
    "tcp_clients w' = take i (tcp_clients w) @ drop (Suc i) (tcp_clients w)" "x_maxconnections w' = x_maxconnections w"
proof -
  let ?n = "x_nconnections w" and ?m = "x_maxconnections w" and ?a = "tcp_addrs w ! i"
  from assms(1) have inv: "tcp_inv w" and room: "?n + 1 < ?m" by (simp_all add: tcp_room_def)
  note e = tcp_inv_entry [OF inv assms(2)]
  obtain w1 where w1: "tcpserver_socketreceiver_free (Some ?a) w = Inr w1"
    "map_of (srs w1) = (map_of (srs w))(?a := None)" "mem_ok w1"
    using socketreceiver_free_ok [of w ?a "tcp_conns w ! i"] e assms(3) by auto
  note f = socketreceiver_free_frame [OF w1(1)]
  let ?as = "take i (tcp_addrs w) @ drop (Suc i) (tcp_addrs w)"
  let ?sr = "map Some ?as @ replicate (?m - (?n - 1)) None"
  have x_sr: "x_sr w = map Some (tcp_addrs w) @ replicate (?m - ?n) None" and len: "length (tcp_addrs w) = ?n"
    using inv by (simp_all add: tcp_inv_def table_ok_def)
  define w' where "w' = w1\<lparr>x_sr := ?sr, x_nconnections := ?n - 1\<rparr>"
  have "remove_entry i w = res_bind (res_bind (res_fold shift_left [i..<?n] ((x_sr w)[i := None]))
        (\<lambda>sr. arr_set sr (?n + 1) None)) (\<lambda>sr. Inr (w1\<lparr>x_sr := sr, x_nconnections := ?n - 1\<rparr>))"
    using assms(2) e w1(1) f arr_get_table [OF inv assms(2)] room len
    by (simp add: remove_entry_def res_bind_assoc max_def Let_def)
  also have "\<dots> = Inr w'"
    unfolding x_sr gap_closed [OF len assms(2) room] w'_def by simp
  finally have run: "remove_entry i w = Inr w'" .
  have t: "table_ok w' ?as" "tcp_conns w' = take i (tcp_conns w) @ drop (Suc i) (tcp_conns w)"
    by (rule table_ok_shrink [OF inv assms(2)]; simp add: w'_def w1 f)+
  have "tcp_room w'" "tcp_addrs w' = ?as" "x_maxconnections w' = ?m" "mem_ok w'"
    using t room table_ok_addrs w1(3) by (auto simp: tcp_room_def w'_def f mem_ok_def intro: tcp_invI)
  with run t show thesis using that by (simp add: tcp_clients_def take_map drop_map)
qed

section \<open>Patches that leave the clients alone\<close>

definition clients_kept :: "t_tcpserver \<Rightarrow> t_tcpserver \<Rightarrow> bool" where
  "clients_kept w w' \<longleftrightarrow> tcp_inv w' \<and> mem_ok w' \<and> tcp_addrs w' = tcp_addrs w \<and> tcp_clients w' = tcp_clients w \<and>
     x_maxconnections w' = x_maxconnections w"

text \<open>A patch is harmless if it leaves the clients, their order and their queues as they are.\<close>

definition harmless :: "patch \<Rightarrow> bool" where
  "harmless patch \<longleftrightarrow>
     (\<forall>e w. tcp_inv w \<longrightarrow> mem_ok w \<longrightarrow> (\<exists>w'. patch e w = Inr w' \<and> clients_kept w w'))"

lemma clients_kept_ok:
  assumes "clients_kept w w'"
  shows "tcp_inv w'" "mem_ok w'"
  using assms by (simp_all add: clients_kept_def)

lemma clients_kept_trans: "clients_kept w w' \<Longrightarrow> clients_kept w' w'' \<Longrightarrow> clients_kept w w''"
  by (simp add: clients_kept_def)

lemma clients_kept_refl: "tcp_inv w \<Longrightarrow> mem_ok w \<Longrightarrow> clients_kept w w"
  by (simp add: clients_kept_def)

lemma clients_kept_count:
  assumes "clients_kept w w'" "tcp_inv w"
  shows "x_nconnections w' = x_nconnections w"
  using assms tcp_inv_length(1) [of w'] tcp_inv_length(1) [of w] by (simp add: clients_kept_def)

lemma clients_kept_room: "clients_kept w w' \<Longrightarrow> tcp_room w \<Longrightarrow> tcp_room w'"
  using clients_kept_count [of w w'] by (simp add: tcp_room_def) (simp add: clients_kept_def)

lemma clients_kept_fds: "clients_kept w w' \<Longrightarrow> tcp_fds w' = tcp_fds w"
proof -
  have "tcp_fds v = map cl_fd (tcp_clients v)" for v by (simp add: tcp_fds_def tcp_clients_def abs_client_def)
  then show "clients_kept w w' \<Longrightarrow> tcp_fds w' = tcp_fds w" by (simp add: clients_kept_def)
qed

lemma clients_kept_emit: "tcp_inv w \<Longrightarrow> mem_ok w \<Longrightarrow> clients_kept w (emit e w)"
proof -
  have m: "world.more (emit e w) = world.more w" by simp
  show "tcp_inv w \<Longrightarrow> mem_ok w \<Longrightarrow> clients_kept w (emit e w)"
    unfolding clients_kept_def by (simp add: tcp_more_cong [OF m] world_more_cong [OF m])
qed

locale harmless_patch =
  fixes patch :: patch
  assumes harmless: "harmless patch"
begin

lemma outlet_ok:
  assumes "tcp_inv w" "mem_ok w"
  shows "\<exists>w'. outlet_call patch e w = Inr w' \<and> clients_kept w w'"
proof -
  have k: "clients_kept w (emit e w)" by (rule clients_kept_emit [OF assms])
  then have "\<exists>w'. patch e (emit e w) = Inr w' \<and> clients_kept (emit e w) w'"
    using harmless unfolding harmless_def clients_kept_def by blast
  with clients_kept_trans [OF k] show ?thesis by (auto simp: outlet_call_def)
qed

lemma outlets_ok:
  assumes "tcp_inv w" "mem_ok w"
  shows "\<exists>w'. res_bind (outlet_call patch e w) (outlet_call patch e') = Inr w' \<and> clients_kept w w'"
proof -
  obtain w1 where w1: "outlet_call patch e w = Inr w1" "clients_kept w w1" using outlet_ok [OF assms] by blast
  then obtain w2 where "outlet_call patch e' w1 = Inr w2" "clients_kept w1 w2"
    using outlet_ok [of w1 e'] by (auto simp: clients_kept_def)
  with w1 clients_kept_trans show ?thesis by auto
qed

lemma report_ok: "tcp_inv w \<Longrightarrow> mem_ok w \<Longrightarrow> \<exists>w'. report_send patch k sz fd w = Inr w' \<and> clients_kept w w'"
  using outlets_ok by (simp add: report_send_def info_event_in_def)

lemma addrout_ok: "tcp_inv w \<Longrightarrow> mem_ok w \<Longrightarrow> \<exists>w'. addrout_in patch a p w = Inr w' \<and> clients_kept w w'"
  using outlets_ok by (simp add: addrout_in_def Let_def)

lemma numconnout_ok: "tcp_inv w \<Longrightarrow> mem_ok w \<Longrightarrow> \<exists>w'. numconnout_in patch k w = Inr w' \<and> clients_kept w w'"
  using outlets_ok by (simp add: numconnout_in_def)

lemma read_entry_ok:
  assumes "clients_kept w v" "tcp_inv w" "i < x_nconnections w"
    and "\<And>v y. clients_kept w v \<Longrightarrow> \<exists>w'. f y v = Inr w' \<and> clients_kept w w'"
  shows "\<exists>w'. res_bind (heap_get (srs v) (Some (tcp_addrs w ! i))) (\<lambda>y. f y v) = Inr w' \<and> clients_kept w w'"
proof -
  have "tcp_inv v" "i < x_nconnections v" "tcp_addrs v = tcp_addrs w"
    using assms(1,3) clients_kept_count [OF assms(1,2)] by (simp_all add: clients_kept_def)
  then have "map_of (srs v) (tcp_addrs w ! i) = Some (tcp_conns v ! i)" using tcp_inv_entry(2) [of v i] by simp
  then show ?thesis using assms(4) [OF assms(1)] by simp
qed

lemma step_ok:
  assumes "clients_kept w v" "\<And>v. tcp_inv v \<Longrightarrow> mem_ok v \<Longrightarrow> \<exists>w'. f v = Inr w' \<and> clients_kept v w'"
    and "\<And>v. clients_kept w v \<Longrightarrow> \<exists>w'. g v = Inr w' \<and> clients_kept w w'"
  shows "\<exists>w'. res_bind (f v) g = Inr w' \<and> clients_kept w w'"
proof -
  obtain v1 where "f v = Inr v1" "clients_kept v v1" using assms(2) [of v] clients_kept_ok [OF assms(1)] by blast
  with assms(3) clients_kept_trans [OF assms(1)] show ?thesis by auto
qed

lemma info_connection_ok:
  assumes "tcp_inv w" "mem_ok w" "i < x_nconnections w"
  shows "\<exists>w'. info_connection_in patch (Some (tcp_addrs w ! i)) DISCONNECT w = Inr w' \<and> clients_kept w w'"
proof -
  have last: "\<exists>w'. outlet_call patch e v = Inr w' \<and> clients_kept w w'" if "clients_kept w v" for e v
    using that outlet_ok [of v e] clients_kept_trans [OF that] by (auto simp: clients_kept_def)
  show ?thesis
    unfolding info_connection_in_def
    by (intro step_ok read_entry_ok clients_kept_refl outlet_ok addrout_ok last assms)
      (auto simp: info_event_in_def intro: outlet_ok)
qed

lemma disconnect_in_ok:
  assumes "tcp_room w" "mem_ok w" "i < x_nconnections w"
  obtains w' where "disconnect_in patch i w = Inr w'" "tcp_room w'" "mem_ok w'"
    "tcp_addrs w' = take i (tcp_addrs w) @ drop (Suc i) (tcp_addrs w)"
    "tcp_clients w' = take i (tcp_clients w) @ drop (Suc i) (tcp_clients w)"
    "x_maxconnections w' = x_maxconnections w"
proof -
  from assms(1) have inv: "tcp_inv w" by (simp add: tcp_room_def)
  obtain w1 where w1: "info_connection_in patch (Some (tcp_addrs w ! i)) DISCONNECT w = Inr w1" "clients_kept w w1"
    using info_connection_ok [OF inv assms(2,3)] by blast
  then have r1: "tcp_room w1" "i < x_nconnections w1" "mem_ok w1"
    using assms(1,3) clients_kept_room clients_kept_count [OF w1(2) inv] by (simp_all add: clients_kept_def)
  obtain w2 where w2: "remove_entry i w1 = Inr w2" "tcp_room w2" "mem_ok w2"
    "tcp_addrs w2 = take i (tcp_addrs w1) @ drop (Suc i) (tcp_addrs w1)"
    "tcp_clients w2 = take i (tcp_clients w1) @ drop (Suc i) (tcp_clients w1)" "x_maxconnections w2 = x_maxconnections w1"
    by (rule remove_entry_ok [OF r1])
  obtain w3 where w3: "numconnout_in patch (int (x_nconnections w2)) w2 = Inr w3" "clients_kept w2 w3"
    using numconnout_ok w2(2,3) unfolding tcp_room_def by blast
  have "disconnect_in patch i w = Inr w3"
    using w1(1) w2(1) w3(1) arr_get_table [OF inv assms(3)] by (simp add: disconnect_in_def)
  then show thesis using that [of w3] w1(2) w2 w3(2) clients_kept_room [OF w3(2)] by (simp add: clients_kept_def)
qed

lemma send_in_alive:
  assumes "tcp_inv w" "i < x_nconnections w" "cl_alive (tcp_clients w ! i)" "mem_ok w"
    and "wf_chunk c" "c_family c = AF_INET" "client_fits c (tcp_clients w ! i)"
  obtains w' where "send_bytes_client_in patch (Some (tcp_addrs w ! i)) k (Some c) w = Inr w'" "tcp_inv w'" "mem_ok w'"
    "tcp_addrs w' = tcp_addrs w" "tcp_clients w' = (tcp_clients w)[i := client_send c (tcp_clients w ! i)]"
    "x_maxconnections w' = x_maxconnections w"
proof -
  let ?x = "tcp_conns w ! i"
  obtain sz w0 where w0: "queue_chunk (tcp_addrs w ! i) ?x (Some c) w = Inr (sz, w0)" "0 \<le> sz" "tcp_inv w0" "mem_ok w0"
    "tcp_addrs w0 = tcp_addrs w" "tcp_clients w0 = (tcp_clients w)[i := client_send c (tcp_clients w ! i)]"
    "x_maxconnections w0 = x_maxconnections w"
    by (rule queue_alive [OF assms])
  obtain w1 where "report_send patch k sz (sr_fd ?x) w0 = Inr w1" "clients_kept w0 w1" using report_ok [OF w0(3,4)] by blast
  then show thesis using that [of w1] w0
    by (simp add: send_bytes_client_in_def tcp_inv_entry(2) [OF assms(1,2)] clients_kept_def)
qed

lemma send_in_dead:
  assumes "tcp_room w" "i < x_nconnections w" "\<not> cl_alive (tcp_clients w ! i)" "mem_ok w"
  obtains w' where "send_bytes_client_in patch (Some (tcp_addrs w ! i)) k c w = Inr w'" "tcp_room w'" "mem_ok w'"
    "tcp_addrs w' = take i (tcp_addrs w) @ drop (Suc i) (tcp_addrs w)"
    "tcp_clients w' = take i (tcp_clients w) @ drop (Suc i) (tcp_clients w)"
    "x_maxconnections w' = x_maxconnections w"
proof -
  from assms(1) have inv: "tcp_inv w" by (simp add: tcp_room_def)
  let ?x = "tcp_conns w ! i"
  obtain w0 where w0: "queue_chunk (tcp_addrs w ! i) ?x c w = Inr (-1, w0)" "tcp_inv w0" "mem_ok w0 = mem_ok w"
    "tcp_addrs w0 = tcp_addrs w" "tcp_conns w0 = tcp_conns w" "x_maxconnections w0 = x_maxconnections w"
    by (rule queue_dead [OF inv assms(2,3)])
  then have m0: "clients_kept w w0" using assms(4) by (simp add: clients_kept_def tcp_clients_def)
  then obtain w1 where w1: "report_send patch k (-1) (sr_fd ?x) w0 = Inr w1" "clients_kept w w1"
    using report_ok [OF clients_kept_ok [OF m0]] clients_kept_trans [OF m0] by blast
  have r1: "tcp_room w1" "i < x_nconnections w1" "mem_ok w1"
    using assms(2) clients_kept_room [OF w1(2) assms(1)] clients_kept_count [OF w1(2) inv] w1(2)
    by (simp_all add: clients_kept_def)
  have "tcp_fds w1 ! i = sr_fd ?x"
    using assms(2) clients_kept_fds [OF w1(2)] by (simp add: tcp_fds_def tcp_inv_length [OF inv])
  then have run: "send_bytes_client_in patch (Some (tcp_addrs w ! i)) k c w = disconnect_in patch i w1"
    using disconnect_socket_in_hit [OF r1(1,2), of patch] w0(1) w1(1)
    by (simp add: send_bytes_client_in_def tcp_inv_entry(2) [OF inv assms(2)])
  obtain w2 where w2: "disconnect_in patch i w1 = Inr w2" "tcp_room w2" "mem_ok w2"
    "tcp_addrs w2 = take i (tcp_addrs w1) @ drop (Suc i) (tcp_addrs w1)"
    "tcp_clients w2 = take i (tcp_clients w1) @ drop (Suc i) (tcp_clients w1)" "x_maxconnections w2 = x_maxconnections w1"
    by (rule disconnect_in_ok [OF r1(1,3,2)])
  then show thesis using that [of w2] run w1(2) by (simp add: clients_kept_def)
qed

text \<open>One round of the loop: the client stays with the chunk in its queue, or goes. No other client is touched.\<close>

lemma send_in_step:
  assumes "tcp_room w" "mem_ok w" "wf_chunk c" "c_family c = AF_INET" "client_fits c cl"
    and "tcp_addrs w = as @ a # bs" "tcp_clients w = done @ cl # rest" "length as = length done"
  shows "\<exists>w' as'. send_bytes_client_in patch (Some a) k (Some c) w = Inr w' \<and> tcp_room w' \<and> mem_ok w' \<and>
    tcp_addrs w' = as' @ bs \<and> tcp_clients w' = (done @ clients_send c [cl]) @ rest \<and>
    length as' = length (done @ clients_send c [cl]) \<and> x_maxconnections w' = x_maxconnections w \<and> set as' \<subseteq> insert a (set as)"
proof -
  let ?i = "length as"
  from assms(1) have inv: "tcp_inv w" by (simp add: tcp_room_def)
  have i: "?i < x_nconnections w" using tcp_inv_length(1) [OF inv] assms(6) by simp
  have at: "tcp_addrs w ! ?i = a" "tcp_clients w ! ?i = cl"
    unfolding assms(6) nth_append_length using assms(7,8) by simp_all
  show ?thesis
  proof (cases "cl_alive cl")
    case True
    then obtain w' where w': "send_bytes_client_in patch (Some a) k (Some c) w = Inr w'" "tcp_inv w'" "mem_ok w'"
      "tcp_addrs w' = tcp_addrs w" "tcp_clients w' = (tcp_clients w)[?i := client_send c cl]"
      "x_maxconnections w' = x_maxconnections w"
      using send_in_alive [OF inv i, unfolded at, OF _ assms(2-5)] by metis
    have "x_nconnections w' = x_nconnections w"
      using tcp_inv_length(1) [OF w'(2)] tcp_inv_length(1) [OF inv] w'(4) by simp
    with w' True assms show ?thesis
      by (intro exI [of _ w'] exI [of _ "as @ [a]"]) (simp add: tcp_room_def)
  next
    case False
    then obtain w' where "send_bytes_client_in patch (Some a) k (Some c) w = Inr w'" "tcp_room w'" "mem_ok w'"
      "tcp_addrs w' = take ?i (tcp_addrs w) @ drop (Suc ?i) (tcp_addrs w)"
      "tcp_clients w' = take ?i (tcp_clients w) @ drop (Suc ?i) (tcp_clients w)"
      "x_maxconnections w' = x_maxconnections w"
      using send_in_dead [OF assms(1) i, unfolded at, OF _ assms(2)] by metis
    with False assms show ?thesis
      by (intro exI [of _ w'] exI [of _ as]) auto
  qed
qed

text \<open>Consecutive rounds, on any stretch of the table.\<close>

lemma rounds_ok:
  assumes "tcp_room w" "mem_ok w" "wf_chunk c" "c_family c = AF_INET" "list_all (client_fits c) cls"
    and "tcp_addrs w = as @ mid @ bs" "tcp_clients w = done @ cls @ rest" "length as = length done" "length mid = length cls"
    and "\<forall>m<length mid. arr_get sr (b + m) = Inr (Some (mid ! m))"
  shows "\<exists>w' as'. res_fold (\<lambda>i w. res_bind (arr_get sr i) (\<lambda>p. send_bytes_client_in patch p (int i) (Some c) w))
      [b..<b + length mid] w = Inr w' \<and> tcp_room w' \<and> mem_ok w' \<and> tcp_addrs w' = as' @ bs \<and>
    tcp_clients w' = (done @ clients_send c cls) @ rest \<and> length as' = length (done @ clients_send c cls) \<and>
    set as' \<subseteq> set as \<union> set mid"
  using assms(1,2,5-)
proof (induction mid arbitrary: w as "done" cls b)
  case Nil
  then show ?case by (simp add: clients_send_def)
next
  case (Cons a mid)
  then obtain cl cls' where cls: "cls = cl # cls'" by (cases cls) simp_all
  have "client_fits c cl" "tcp_addrs w = as @ a # (mid @ bs)" "tcp_clients w = done @ cl # (cls' @ rest)"
    using Cons.prems(3-5) cls by simp_all
  from send_in_step [OF Cons.prems(1,2) assms(3,4) this Cons.prems(6), of "int b"]
  obtain w1 as1 where w1: "send_bytes_client_in patch (Some a) (int b) (Some c) w = Inr w1" "tcp_room w1" "mem_ok w1"
    "tcp_addrs w1 = as1 @ mid @ bs" "tcp_clients w1 = (done @ clients_send c [cl]) @ cls' @ rest"
    "length as1 = length (done @ clients_send c [cl])" "set as1 \<subseteq> insert a (set as)" by blast
  have "list_all (client_fits c) cls'" "length mid = length cls'" "\<forall>m<length mid. arr_get sr (Suc b + m) = Inr (Some (mid ! m))"
    using Cons.prems(3,7,8) cls by auto
  from Cons.IH [OF w1(2,3) this(1) w1(4,5,6) this(2,3)] obtain w2 as2 where
    "res_fold (\<lambda>i w. res_bind (arr_get sr i) (\<lambda>p. send_bytes_client_in patch p (int i) (Some c) w))
      [Suc b..<Suc b + length mid] w1 = Inr w2" "tcp_room w2" "mem_ok w2" "tcp_addrs w2 = as2 @ bs"
    "tcp_clients w2 = ((done @ clients_send c [cl]) @ clients_send c cls') @ rest"
    "length as2 = length ((done @ clients_send c [cl]) @ clients_send c cls')" "set as2 \<subseteq> set as1 \<union> set mid" by blast
  moreover have "[b..<b + length (a # mid)] = b # [Suc b..<Suc b + length mid]"
    using upt_conv_Cons [of b "b + length (a # mid)"] by (simp del: upt_Suc)
  moreover have "arr_get sr b = Inr (Some a)" using Cons.prems(8) by force
  moreover have "clients_send c cls = clients_send c [cl] @ clients_send c cls'" by (simp add: cls clients_send_def)
  ultimately show ?case using w1(1,7) by (intro exI [of _ w2] exI [of _ as2]) auto
qed

end

text \<open>Hence such an operation keeps the contract of sending to one connection.\<close>

sublocale harmless_patch \<subseteq> loop: client_send_loop "\<lambda>c p k. send_bytes_client_in patch p k (Some c)"
proof
  show "send_bytes_client_in patch None k (Some c) w = Inr w" for c k w
    by (simp add: send_bytes_client_in_def)
next
  fix w c cl as a bs "done" rest k
  assume "tcp_room w" "mem_ok w" "wf_chunk c" "c_family c = AF_INET" "client_fits c cl"
    "tcp_addrs w = as @ a # bs" "tcp_clients w = done @ cl # rest" "length as = length done"
  from send_in_step [OF this, of k]
  show "\<exists>w' as'. send_bytes_client_in patch (Some a) k (Some c) w = Inr w' \<and> tcp_room w' \<and> mem_ok w' \<and>
    tcp_addrs w' = as' @ bs \<and> tcp_clients w' = (done @ clients_send c [cl]) @ rest \<and>
    length as' = length (done @ clients_send c [cl]) \<and> x_maxconnections w' = x_maxconnections w" by blast
qed

context harmless_patch
begin

lemma broadcast_in_ok:
  assumes "tcp_room w" "mem_ok w" "argv \<noteq> []" "length argv < 2147483648"
    and "list_all (client_fits (list_chunk gi argv)) (tcp_clients w)"
  shows "\<exists>w'. broadcast_in patch gi argv w = Inr w' \<and> tcp_inv w' \<and>
    tcp_clients w' = map (client_send (list_chunk gi argv)) (filter cl_alive (tcp_clients w))"
proof (cases "x_nconnections w = 0")
  case True
  then have "tcp_clients w = []" by (simp add: tcp_clients_def tcp_conns_def tcp_addrs_def)
  with True assms(1) show ?thesis by (simp add: broadcast_in_def tcp_room_def)
next
  case False
  let ?c = "list_chunk gi argv"
  obtain w1 w2 where w: "iemnet__chunk_create_list gi (int (length argv)) argv w = Inr (Some ?c, w1)"
    "copy_table w1 = Inr (map (\<lambda>i. x_sr w ! i) [0..<x_nconnections w], w2)"
    "world.more w1 = world.more w" "world.more w2 = world.more w" "tcp_room w2" "mem_ok w2"
    by (rule broadcast_prepare [OF assms(1-3)])
  note f = world_more_cong [OF w(4)] tcp_more_cong [OF w(4)]
  have "list_all (client_fits ?c) (tcp_clients w2)" "c_family ?c = AF_INET" using assms(5) by (simp_all add: f list_chunk_def)
  from loop.loop_ok [OF w(5,6) wf_list_chunk [OF assms(3,4)] this(2,1) refl refl, of "\<lambda>_. False", unfolded f]
  obtain w3 where w3: "send_bytes_clients_in patch (map (\<lambda>i. x_sr w ! i) [0..<x_nconnections w]) (x_nconnections w2) (Some ?c) w2 = Inr w3"
    "tcp_room w3" "tcp_clients w3 = clients_send_but (\<lambda>_. False) ?c (tcp_clients w)"
    by (auto simp: send_bytes_clients_in_def f)
  have "broadcast_in patch gi argv w = Inr (iemnet__chunk_destroy (Some ?c) (free w3))"
    using False w(1,2) w3(1) by (simp add: broadcast_in_def)
  with w3 show ?thesis
    by (simp add: tcp_room_def tcp_more_cong [OF free_destroy_more] clients_send_but_none) (simp add: clients_send_def)
qed

end

text \<open>No patch at all, and a patch that makes the client just reported about the default target.\<close>

definition target_patch :: patch where
  "target_patch e w = (case e of
     Outlet_anything _ s (A_FLOAT f # _) \<Rightarrow> if s = ''sendbuffersize'' then tcpserver_defaulttarget f w else Inr w
   | _ \<Rightarrow> Inr w)"

lemma defaulttarget_keeps:
  assumes "tcp_inv w" "mem_ok w"
  shows "\<exists>w'. tcpserver_defaulttarget f w = Inr w' \<and> clients_kept w w'"
proof -
  have upd: "tcp_addrs (w\<lparr>x_defaulttarget := t\<rparr>) = tcp_addrs w" "tcp_clients (w\<lparr>x_defaulttarget := t\<rparr>) = tcp_clients w" for t
    by (simp_all add: tcp_addrs_def tcp_clients_def tcp_conns_def)
  have inv: "tcp_inv (w\<lparr>x_defaulttarget := t\<rparr>)" for t
    using assms(1) by (simp add: tcp_inv_def upd) (simp add: table_ok_def)
  let ?k = "nat \<bar>c_int f\<bar>"
  show ?thesis
  proof (cases "x_nconnections w < ?k")
    case True
    let ?w = "emit (Iemnet_log IEMNET_ERROR ''target %d out of range [0..%d]''
      [L_int (int ?k), L_int (int (x_nconnections w))]) w"
    have "tcpserver_defaulttarget f w = Inr ?w" using True by (simp add: tcpserver_defaulttarget_def Let_def)
    with clients_kept_emit [OF assms] show ?thesis by blast
  next
    case False
    have "\<exists>t. tcpserver_defaulttarget f w = Inr (w\<lparr>x_defaulttarget := t\<rparr>)"
      using False tcp_inv_entry [OF assms(1), of "?k - 1"]
      by (cases "?k = 0") (auto simp: tcpserver_defaulttarget_def sr_at_def Let_def)
    then show ?thesis using upd inv assms(2) by (auto simp: clients_kept_def mem_ok_def)
  qed
qed

interpretation no_patch: harmless_patch nothing
  by unfold_locales (simp add: harmless_def clients_kept_refl)

lemma harmless_target: "harmless target_patch"
  using defaulttarget_keeps clients_kept_refl
  by (auto simp: harmless_def target_patch_def split: event.splits list.splits t_atom.splits)

interpretation targeting: harmless_patch target_patch
  by unfold_locales (rule harmless_target)

section \<open>Patches that disconnect\<close>

text \<open>
  When the server reports that it has sent to client \<open>i + 1\<close>, the patch asks for the disconnection of client \<open>j + 1\<close>;
  it may do what it likes at the other messages, also at those that this disconnection brings about.
\<close>

definition disconnecting :: "nat \<Rightarrow> nat \<Rightarrow> patch \<Rightarrow> patch" where
  "disconnecting i j patch e w = (case e of
     Outlet_anything _ s (A_FLOAT f # _) \<Rightarrow>
       if s = ''sendbuffersize'' \<and> f = of_nat (Suc i) then disconnect_client_in patch (of_nat (Suc j)) w else patch e w
   | _ \<Rightarrow> patch e w)"

lemma disconnecting_other:
  "s \<noteq> ''sendbuffersize'' \<Longrightarrow> outlet_call (disconnecting i j patch) (Outlet_anything ol s as) = outlet_call patch (Outlet_anything ol s as)"
  "outlet_call (disconnecting i j patch) (Outlet_list ol s as) = outlet_call patch (Outlet_list ol s as)"
  "outlet_call (disconnecting i j patch) (Outlet_float ol f) = outlet_call patch (Outlet_float ol f)"
  by (intro ext; simp add: outlet_call_def disconnecting_def split: list.split t_atom.split)+

lemma disconnecting_socket:
  "disconnect_socket_in (disconnecting i j patch) = disconnect_socket_in patch"
proof -
  have "info_event_in (disconnecting i j patch) = info_event_in patch"
    "addrout_in (disconnecting i j patch) = addrout_in patch" "numconnout_in (disconnecting i j patch) = numconnout_in patch"
    by (intro ext; simp add: info_event_in_def addrout_in_def numconnout_in_def disconnecting_other split: option.split)+
  then have entry: "disconnect_in (disconnecting i j patch) = disconnect_in patch"
    by (intro ext) (simp add: disconnect_in_def info_connection_in_def disconnecting_other)
  have client: "disconnect_client_in (disconnecting i j patch) = disconnect_client_in patch"
    unfolding disconnect_client_in_def entry ..
  show ?thesis unfolding disconnect_socket_in_def client ..
qed

lemma disconnecting_report:
  assumes "k \<noteq> i" "k < 16777216"
  shows "report_send (disconnecting i j patch) (int k) sz fd = report_send patch (int k) sz fd"
proof -
  have "t_float_of_int (int k + 1) = of_nat (Suc k)" using assms(2) by (simp add: t_float_of_int_exact)
  moreover have "(of_nat (Suc k) :: t_float) \<noteq> of_nat (Suc i)" using assms(1) by (simp del: of_nat_Suc)
  ultimately have "outlet_call (disconnecting i j patch) (Outlet_anything Statusout ''sendbuffersize'' [SETFLOAT (int k + 1), SETFLOAT sz, SETFLOAT fd]) =
      outlet_call patch (Outlet_anything Statusout ''sendbuffersize'' [SETFLOAT (int k + 1), SETFLOAT sz, SETFLOAT fd])"
    by (intro ext) (simp add: outlet_call_def disconnecting_def del: of_nat_Suc)
  then show ?thesis by (intro ext) (simp add: report_send_def info_event_in_def disconnecting_other)
qed

lemma disconnecting_round:
  assumes "k \<noteq> i" "k < 16777216"
  shows "send_bytes_client_in (disconnecting i j patch) p (int k) c w = send_bytes_client_in patch p (int k) c w"
  unfolding send_bytes_client_in_def disconnecting_socket disconnecting_report [OF assms] ..

lemma freed_entry:
  assumes "tcp_inv w" "a \<notin> set (tcp_addrs w)"
  shows "send_bytes_client_in patch (Some a) k c w = Inl UseAfterFree"
proof -
  have "a \<notin> heap_dom (srs w)" using assms by (simp add: tcp_inv_def table_ok_def)
  then show ?thesis by (simp add: send_bytes_client_in_def heap_dom_map_of domIff)
qed

lemma take_drop_mid: "length xs = j \<Longrightarrow> take j (xs @ y # ys) @ drop (Suc j) (xs @ y # ys) = xs @ ys"
  by auto

lemma drop_cong_prefix: "drop i xs = drop i ys \<Longrightarrow> i \<le> k \<Longrightarrow> drop k xs = drop k ys"
  by (metis drop_drop le_add_diff_inverse2)

context harmless_patch
begin

text \<open>The round of client \<open>i + 1\<close>, after which client \<open>j + 1\<close> is no longer in the table.\<close>

lemma disconnecting_hit:
  assumes "tcp_room w" "mem_ok w" "wf_chunk c" "c_family c = AF_INET" "client_fits c (tcp_clients w ! i)"
    and "cl_alive (tcp_clients w ! i)" "i < j" "j < x_nconnections w"
  obtains w' where "send_bytes_client_in (disconnecting i j patch) (Some (tcp_addrs w ! i)) (int i) (Some c) w = Inr w'"
    "tcp_room w'" "mem_ok w'" "tcp_addrs w' = take j (tcp_addrs w) @ drop (Suc j) (tcp_addrs w)"
    "drop (Suc i) (tcp_clients w') = drop (Suc i) (take j (tcp_clients w)) @ drop (Suc j) (tcp_clients w)"
proof -
  from assms(1) have inv: "tcp_inv w" by (simp add: tcp_room_def)
  have i: "i < x_nconnections w" using assms(7,8) by simp
  let ?x = "tcp_conns w ! i" and ?cls = "(tcp_clients w)[i := client_send c (tcp_clients w ! i)]"
  obtain sz w0 where w0: "queue_chunk (tcp_addrs w ! i) ?x (Some c) w = Inr (sz, w0)" "0 \<le> sz" "tcp_inv w0" "mem_ok w0"
    "tcp_addrs w0 = tcp_addrs w" "tcp_clients w0 = ?cls" "x_maxconnections w0 = x_maxconnections w"
    "x_nconnections w0 = x_nconnections w"
    by (rule queue_alive [OF inv i assms(6,2-5)])
  obtain w1 where w1: "info_event_in patch SEND w0 = Inr w1" "clients_kept w0 w1"
    using outlet_ok [OF w0(3,4)] by (auto simp: info_event_in_def)
  let ?e = "Outlet_anything Statusout ''sendbuffersize'' [SETFLOAT (int i + 1), SETFLOAT sz, SETFLOAT (sr_fd ?x)]"
  have w2: "clients_kept w0 (emit ?e w1)"
    using clients_kept_trans [OF w1(2) clients_kept_emit] clients_kept_ok [OF w1(2)] by blast
  have n: "x_nconnections (emit ?e w1) = x_nconnections w" using clients_kept_count [OF w2 w0(3)] w0(8) by simp
  have r2: "tcp_room (emit ?e w1)" "mem_ok (emit ?e w1)" "j < x_nconnections (emit ?e w1)"
    using clients_kept_room [OF w2] clients_kept_ok [OF w2] assms(1,8) w0(3,7,8) n by (simp_all add: tcp_room_def)
  have le: "x_nconnections w \<le> 16777216" using inv by (simp add: tcp_inv_def table_ok_def)
  have cj: "c_int (1 + of_nat j) = int j + 1"
    using c_int_of_t_float_of_int [of "int j + 1"] t_float_of_int_exact [of "int j + 1"] assms(8) le by (simp add: add.commute)
  have "outlet_call (disconnecting i j patch) ?e w1 = disconnect_client_in patch (of_nat (Suc j)) (emit ?e w1)"
    using i le by (simp add: outlet_call_def disconnecting_def t_float_of_int_exact)
  also have "\<dots> = disconnect_in patch j (emit ?e w1)"
    using fixindex_valid [of "int j + 1" "emit ?e w1"] r2(3) by (simp add: disconnect_client_in_def cj)
  finally have out: "outlet_call (disconnecting i j patch) ?e w1 = disconnect_in patch j (emit ?e w1)" .
  obtain w3 where w3: "disconnect_in patch j (emit ?e w1) = Inr w3" "tcp_room w3" "mem_ok w3"
    "tcp_addrs w3 = take j (tcp_addrs (emit ?e w1)) @ drop (Suc j) (tcp_addrs (emit ?e w1))"
    "tcp_clients w3 = take j (tcp_clients (emit ?e w1)) @ drop (Suc j) (tcp_clients (emit ?e w1))"
    by (rule disconnect_in_ok [OF r2])
  have "report_send (disconnecting i j patch) (int i) sz (sr_fd ?x) w0 = Inr w3"
    using w1(1) out w3(1) by (simp add: report_send_def info_event_in_def disconnecting_other)
  then have run: "send_bytes_client_in (disconnecting i j patch) (Some (tcp_addrs w ! i)) (int i) (Some c) w = Inr w3"
    using w0(1,2) tcp_inv_entry(2) [OF inv i] by (simp add: send_bytes_client_in_def)
  have "tcp_addrs (emit ?e w1) = tcp_addrs w" "tcp_clients (emit ?e w1) = ?cls"
    using w2 w0(5,6) by (simp_all add: clients_kept_def)
  then show thesis using that [OF run w3(2,3)] w3(4,5) assms(7,8) tcp_inv_length [OF inv]
    by (simp add: take_update_swap drop_update_swap drop_update_cancel)
qed

lemma drop_cut:
  assumes "i < j" "j < length xs"
  shows "drop i xs = xs ! i # drop (Suc i) (take j xs) @ xs ! j # drop (Suc j) xs"
proof -
  have "drop i xs = drop i (take j xs @ xs ! j # drop (Suc j) xs)" using assms by (simp add: id_take_nth_drop [symmetric])
  also have "\<dots> = drop i (take j xs) @ xs ! j # drop (Suc j) xs" using assms by simp
  also have "drop i (take j xs) = xs ! i # drop (Suc i) (take j xs)"
    using Cons_nth_drop_Suc [of i "take j xs"] assms by simp
  finally show ?thesis by simp
qed

text \<open>
  The rounds up to client \<open>i + 1\<close>, which all stay, and the rounds from there to client \<open>j + 1\<close>, which is no longer in
  the table when its turn comes.
\<close>

lemma rounds_before:
  assumes "tcp_room w" "mem_ok w" "wf_chunk c" "c_family c = AF_INET" "list_all (client_fits c) (tcp_clients w)"
    and "i < x_nconnections w" "list_all cl_alive (take (Suc i) (tcp_clients w))"
    and sr: "\<forall>k<x_nconnections w. arr_get sr k = Inr (Some (tcp_addrs w ! k))"
  obtains w' as where "res_fold (\<lambda>i w. res_bind (arr_get sr i) (\<lambda>a. send_bytes_client_in patch a (int i) (Some c) w)) [0..<i] w = Inr w'"
    "tcp_room w'" "mem_ok w'" "tcp_addrs w' = as @ drop i (tcp_addrs w)" "length as = i"
    "drop i (tcp_clients w') = drop i (tcp_clients w)" "x_nconnections w' = x_nconnections w" "cl_alive (tcp_clients w' ! i)"
proof -
  let ?A = "tcp_addrs w" and ?C = "tcp_clients w"
  have len: "length ?A = x_nconnections w" "length ?C = x_nconnections w"
    using tcp_inv_length assms(1) by (simp_all add: tcp_room_def)
  have fits: "list_all (client_fits c) (take i ?C)"
    using assms(5) by (auto simp: list_all_iff dest: in_set_takeD)
  have alive: "clients_send c (take i ?C) = map (client_send c) (take i ?C)" "cl_alive (?C ! i)"
    using assms(6,7) len(2) by (auto simp: clients_send_def list_all_iff take_Suc_conv_app_nth)
  obtain w' as where w': "res_fold (\<lambda>i w. res_bind (arr_get sr i) (\<lambda>a. send_bytes_client_in patch a (int i) (Some c) w)) [0..<i] w = Inr w'"
    "tcp_room w'" "mem_ok w'" "tcp_addrs w' = as @ drop i ?A"
    "tcp_clients w' = map (client_send c) (take i ?C) @ drop i ?C" "length as = i"
    using rounds_ok [OF assms(1-4) fits, of "[]" "take i ?A" "drop i ?A" "[]" "drop i ?C" sr 0] len assms(6) sr alive(1) by auto
  then show thesis using that [OF w'(1-4,6)] len assms(6) alive(2) tcp_inv_length(1) [of w']
    by (simp add: nth_append tcp_room_def)
qed

lemma rounds_after:
  assumes "tcp_room w" "mem_ok w" "wf_chunk c" "c_family c = AF_INET"
    and "tcp_addrs w = as @ mid @ bs" "length as = b" "j = b + length mid" "a \<notin> set (as @ mid @ bs)"
    and "drop b (tcp_clients w) = mc @ rest" "length mc = length mid" "list_all (client_fits c) mc"
    and sr: "\<forall>m<length mid. arr_get sr (b + m) = Inr (Some (mid ! m))" "arr_get sr j = Inr (Some a)"
  shows "res_fold (\<lambda>i w. res_bind (arr_get sr i) (\<lambda>a. send_bytes_client_in patch a (int i) (Some c) w)) ([b..<j] @ j # ks) w =
    Inl UseAfterFree"
proof -
  have cl: "tcp_clients w = take b (tcp_clients w) @ mc @ rest" using assms(9) append_take_drop_id [of b "tcp_clients w"] by simp
  have len: "length as = length (take b (tcp_clients w))" using assms(1,5,6) tcp_inv_length [of w] by (simp add: tcp_room_def)
  from rounds_ok [OF assms(1-4,11,5) cl len assms(10) [symmetric] sr(1)] assms(7)
  obtain w' as' where w': "res_fold (\<lambda>i w. res_bind (arr_get sr i) (\<lambda>a. send_bytes_client_in patch a (int i) (Some c) w)) [b..<j] w = Inr w'"
    "tcp_room w'" "tcp_addrs w' = as' @ bs" "set as' \<subseteq> set as \<union> set mid" by auto
  have "a \<notin> set (tcp_addrs w')" using w'(3,4) assms(8) by auto
  with w'(2) have "send_bytes_client_in patch (Some a) (int j) (Some c) w' = Inl UseAfterFree"
    by (intro freed_entry) (simp_all add: tcp_room_def)
  with w'(1) sr(2) show ?thesis by (simp add: res_fold_append)
qed

lemma rounds_disconnecting:
  assumes "tcp_room w" "mem_ok w" "wf_chunk c" "c_family c = AF_INET" "list_all (client_fits c) (tcp_clients w)"
    and "i < j" "j < x_nconnections w" "list_all cl_alive (take (Suc i) (tcp_clients w))"
    and sr: "\<forall>k<x_nconnections w. arr_get sr k = Inr (Some (tcp_addrs w ! k))"
  shows "send_bytes_clients_in (disconnecting i j patch) sr (x_nconnections w) (Some c) w = Inl UseAfterFree"
proof -
  let ?n = "x_nconnections w" and ?A = "tcp_addrs w" and ?C = "tcp_clients w"
  let ?mid = "drop (Suc i) (take j ?A)" and ?mc = "drop (Suc i) (take j ?C)"
  let ?body = "\<lambda>p i w. res_bind (arr_get sr i) (\<lambda>a. send_bytes_client_in p a (int i) (Some c) w)"
  let ?d = "?body (disconnecting i j patch)"
  have inv: "tcp_inv w" using assms(1) by (simp add: tcp_room_def)
  have len: "length ?A = ?n" "length ?C = ?n" "?n \<le> 16777216"
    using tcp_inv_length [OF inv] inv by (simp_all add: tcp_inv_def table_ok_def)
  have same: "res_fold ?d is v = res_fold (?body patch) is v" if "\<forall>k\<in>set is. k \<noteq> i \<and> k < ?n" for "is" v
    by (rule res_fold_cong) (use that len(3) disconnecting_round in auto)
  have i: "i < ?n" using assms(6,7) by simp
  obtain w3 as where w3: "res_fold (?body patch) [0..<i] w = Inr w3" "tcp_room w3" "mem_ok w3"
    "tcp_addrs w3 = as @ drop i ?A" "length as = i" "drop i (tcp_clients w3) = drop i ?C"
    "x_nconnections w3 = ?n" "cl_alive (tcp_clients w3 ! i)"
    by (rule rounds_before [OF assms(1-5) i assms(8) sr])
  have l3: "length (tcp_clients w3) = ?n" using w3(2,7) tcp_inv_length [of w3] by (simp add: tcp_room_def)
  have at: "tcp_addrs w3 ! i = ?A ! i" "tcp_clients w3 ! i = ?C ! i"
    using w3(4,5) len i l3 w3(6) hd_drop_conv_nth [of i "tcp_clients w3"] hd_drop_conv_nth [of i ?C] by (simp_all add: nth_append)
  have "client_fits c (tcp_clients w3 ! i)" "j < x_nconnections w3"
    using assms(5,7) len(2) at i w3(7) by (simp_all add: list_all_length)
  then obtain w4 where w4: "?d i w3 = Inr w4"
    "tcp_room w4" "mem_ok w4" "tcp_addrs w4 = take j (tcp_addrs w3) @ drop (Suc j) (tcp_addrs w3)"
    "drop (Suc i) (tcp_clients w4) = drop (Suc i) (take j (tcp_clients w3)) @ drop (Suc j) (tcp_clients w3)"
    using disconnecting_hit [OF w3(2,3) assms(3,4), of i j] w3(8) assms(6) at sr i
    by (auto simp del: arr_get_def)
  have cut: "tcp_addrs w3 = (as @ ?A ! i # ?mid) @ ?A ! j # drop (Suc j) ?A"
    using w3(4) drop_cut [OF assms(6), of ?A] assms(7) len(1) by simp
  have "distinct (tcp_addrs w3)" using w3(2) by (simp add: tcp_room_def tcp_inv_def table_ok_def)
  then have fresh: "?A ! j \<notin> set ((as @ [?A ! i]) @ ?mid @ drop (Suc j) ?A)" unfolding cut by auto
  have "length (as @ ?A ! i # ?mid) = j" using w3(5) assms(6,7) len by simp
  from take_drop_mid [OF this, of "?A ! j" "drop (Suc j) ?A"]
  have a4: "tcp_addrs w4 = (as @ [?A ! i]) @ ?mid @ drop (Suc j) ?A" using w4(4) unfolding cut by simp
  have c4: "drop (Suc i) (tcp_clients w4) = ?mc @ drop (Suc j) ?C"
    using w4(5) drop_cong_prefix [OF w3(6), of "Suc i"] drop_cong_prefix [OF w3(6), of "Suc j"] assms(6) by (simp add: drop_take)
  have mc: "list_all (client_fits c) ?mc"
    using assms(5) by (auto simp: list_all_iff dest: in_set_takeD in_set_dropD)
  have "res_fold ?d ([Suc i..<j] @ j # [Suc j..<?n]) w4 = res_fold (?body patch) ([Suc i..<j] @ j # [Suc j..<?n]) w4"
    using assms(6,7) by (intro same) auto
  also have "\<dots> = Inl UseAfterFree"
    using rounds_after [where b = "Suc i" and j = j and sr = sr, OF w4(2,3) assms(3,4) a4 _ _ fresh c4 _ mc] w3(5) assms(6,7) len sr by simp
  finally have "res_fold ?d ([Suc i..<j] @ j # [Suc j..<?n]) w4 = Inl UseAfterFree" .
  moreover have "[0..<?n] = [0..<i] @ i # [Suc i..<j] @ j # [Suc j..<?n]"
    using drop_cut [of i j "[0..<?n]"] append_take_drop_id [of i "[0..<?n]"] assms(6,7) by simp
  ultimately show ?thesis
    using w3(1) w4(1) same [of "[0..<i]"] i by (simp add: send_bytes_clients_in_def res_fold_append)
qed

lemma broadcast_in_disconnecting:
  assumes "tcp_room w" "mem_ok w" "argv \<noteq> []" "length argv < 2147483648"
    and "list_all (client_fits (list_chunk gi argv)) (tcp_clients w)"
    and "i < j" "j < x_nconnections w" "list_all cl_alive (take (Suc i) (tcp_clients w))"
  shows "broadcast_in (disconnecting i j patch) gi argv w = Inl UseAfterFree"
proof -
  let ?sr = "map (\<lambda>i. x_sr w ! i) [0..<x_nconnections w]"
  have inv: "tcp_inv w" using assms(1) by (simp add: tcp_room_def)
  obtain w1 w2 where w: "iemnet__chunk_create_list gi (int (length argv)) argv w = Inr (Some (list_chunk gi argv), w1)"
    "copy_table w1 = Inr (?sr, w2)"
    "world.more w1 = world.more w" "world.more w2 = world.more w" "tcp_room w2" "mem_ok w2"
    by (rule broadcast_prepare [OF assms(1-3)])
  note f = world_more_cong [OF w(4)] tcp_more_cong [OF w(4)]
  have "c_family (list_chunk gi argv) = AF_INET" by (simp add: list_chunk_def)
  moreover have "\<forall>k<x_nconnections w. arr_get ?sr k = Inr (Some (tcp_addrs w ! k))" using tcp_inv_entry(1) [OF inv] by simp
  ultimately have "send_bytes_clients_in (disconnecting i j patch) ?sr (x_nconnections w2) (Some (list_chunk gi argv)) w2 = Inl UseAfterFree"
    using rounds_disconnecting [OF w(5,6) wf_list_chunk [OF assms(3,4)], of gi i j ?sr] assms(5-8) f by simp
  then show ?thesis using assms(7) w(1,2) f by (simp add: broadcast_in_def)
qed

end

section \<open>Property\<close>

text \<open>
  C4. Broadcasting while the patch sends messages back at any outlet call, the reports about sending and the messages about
  a client that is dropped alike: if what the patch does leaves the clients, their order and their queues as they are, the
  broadcast reaches every running client exactly once and drops the others, as without a patch. If the patch, when it is told
  about a client, disconnects one that comes later in the table, and does nothing else to the clients, the broadcast goes on
  to use the connection that has been freed, because its loop works on a copy of the table; here the clients up to the one
  reported about have to be running.
\<close>

theorem broadcast_under_patch:
  assumes "tcp_room w" "mem_ok w" "argv \<noteq> []" "length argv < 2147483648"
    and "list_all (client_fits (list_chunk gi argv)) (tcp_clients w)" "harmless patch"
  shows "(\<exists>w'. broadcast_in patch gi argv w = Inr w' \<and> tcp_inv w' \<and>
      tcp_clients w' = map (client_send (list_chunk gi argv)) (filter cl_alive (tcp_clients w))) \<and>
    (i < j \<and> j < x_nconnections w \<and> list_all cl_alive (take (Suc i) (tcp_clients w)) \<longrightarrow>
      broadcast_in (disconnecting i j patch) gi argv w = Inl UseAfterFree)"
  using harmless_patch.broadcast_in_ok [OF harmless_patch.intro assms(1-5)]
    harmless_patch.broadcast_in_disconnecting [OF harmless_patch.intro assms(1-5)] assms(6) by blast

theorem broadcast_under_patch_witness:
  "(\<exists>w'. broadcast_in target_patch sample_getint [A_FLOAT 65] (sample_server 32 False) = Inr w' \<and>
      map cl_fd (tcp_clients w') = [8]) \<and>
    broadcast_in (disconnecting 0 1 target_patch) sample_getint [A_FLOAT 65] (sample_server 32 True) = Inl UseAfterFree"
  using broadcast_under_patch [of "sample_server 32 False" "[A_FLOAT 65]" sample_getint target_patch 0 1]
    broadcast_under_patch [of "sample_server 32 True" "[A_FLOAT 65]" sample_getint target_patch 0 1] harmless_target
  by (auto simp: sample_server_room sample_server_facts sample_client client_fits_def client_send_def)

end
