(* ===== verification/Tcp_Server_Life.thy ===== *)
theory Tcp_Server_Life
  imports Tcp_Server_Handlers Pd_Object
begin

text \<open>
  The TCP server as an object of Pd: its methods and callbacks in any order, from creation to deletion. Every
  step is shown to keep the table in order and to account for memory and sockets; the locales of \<open>Pd_Object\<close> then
  give the life of the server.
\<close>

section \<open>Messages\<close>

text \<open>
  The methods of the class and the two poll functions. A connection request is polled on the listening socket;
  \<open>TV_receive\<close> is the callback of the receiver of the connection at address \<open>a\<close>.
\<close>

datatype tcpserver_msg =
    TV_disconnect_client t_float | TV_disconnect_socket t_float | TV_disconnect_all
  | TV_send_socket "t_atom list" | TV_send_client "t_atom list" | TV_broadcast "t_atom list"
  | TV_defaulttarget t_float | TV_targetsocket t_float | TV_defaultsend "t_atom list"
  | TV_serialize t_float | TV_accept t_float | TV_maxconnections "nat \<Rightarrow> ptr" t_float | TV_port t_float | TV_info
  | TV_connectpoll int | TV_receive nat "t_iemnet_chunk option"

fun tcpserver_method :: "getint \<Rightarrow> string \<Rightarrow> tcpserver_msg \<Rightarrow> t_tcpserver \<Rightarrow> t_tcpserver res" where
  "tcpserver_method gi junk (TV_disconnect_client f) w = tcpserver_disconnect_client f w"
| "tcpserver_method gi junk (TV_disconnect_socket f) w = tcpserver_disconnect_socket f w"
| "tcpserver_method gi junk TV_disconnect_all w = tcpserver_disconnect_all w"
| "tcpserver_method gi junk (TV_send_socket argv) w = tcpserver_send_socket gi argv w"
| "tcpserver_method gi junk (TV_send_client argv) w = tcpserver_send_client gi argv w"
| "tcpserver_method gi junk (TV_broadcast argv) w = tcpserver_broadcast gi argv w"
| "tcpserver_method gi junk (TV_defaulttarget f) w = tcpserver_defaulttarget f w"
| "tcpserver_method gi junk (TV_targetsocket f) w = Inr (tcpserver_targetsocket f w)"
| "tcpserver_method gi junk (TV_defaultsend argv) w = tcpserver_defaultsend gi argv w"
| "tcpserver_method gi junk (TV_serialize f) w = Inr (tcpserver_serialize f w)"
| "tcpserver_method gi junk (TV_accept f) w = Inr (tcpserver_accept f w)"
| "tcpserver_method gi junk (TV_maxconnections pad f) w = Inr (tcpserver_maxconnections pad f w)"
| "tcpserver_method gi junk (TV_port f) w = Inr (tcpserver_port junk f w)"
| "tcpserver_method gi junk TV_info w = Inr (tcpserver_info junk w)"
| "tcpserver_method gi junk (TV_connectpoll fd) w = tcpserver_connectpoll fd w"
| "tcpserver_method gi junk (TV_receive a c) w = tcpserver_receive_callback (Some a) c w"

text \<open>
  What can be handled. Messages that may end a connection (sending, too: a connection whose thread has gone is removed) need
  two free cells in the table. The operating system gives a new connection a descriptor that is not in use
  and that a float can represent; the callback comes from a connection of the table; memory that Pd adds to the
  table is cleared.
\<close>

fun tcpserver_safe :: "tcpserver_msg \<Rightarrow> t_tcpserver \<Rightarrow> bool" where
  "tcpserver_safe (TV_disconnect_client _) w \<longleftrightarrow> tcp_room w"
| "tcpserver_safe (TV_disconnect_socket _) w \<longleftrightarrow> tcp_room w"
| "tcpserver_safe TV_disconnect_all w \<longleftrightarrow> tcp_room w"
| "tcpserver_safe (TV_send_socket argv) w \<longleftrightarrow> tcp_room w \<and> length argv < 2147483648"
| "tcpserver_safe (TV_send_client argv) w \<longleftrightarrow> tcp_room w \<and> length argv < 2147483648"
| "tcpserver_safe (TV_broadcast argv) w \<longleftrightarrow> tcp_room w \<and> length argv < 2147483648"
| "tcpserver_safe (TV_defaultsend argv) w \<longleftrightarrow> tcp_room w \<and> length argv < 2147483648"
| "tcpserver_safe (TV_maxconnections pad f) w \<longleftrightarrow> f \<le> 16777216 \<and> pad = (\<lambda>_. None)"
| "tcpserver_safe (TV_connectpoll fd) w \<longleftrightarrow>
     (case w_sys w of [] \<Rightarrow> True | r # _ \<Rightarrow> a_ret r \<le> 16777216 \<and> a_ret r \<notin> set (tcp_fds w))"
| "tcpserver_safe (TV_receive a c) w \<longleftrightarrow> a \<in> set (tcp_addrs w) \<and>
     (case c of None \<Rightarrow> tcp_room w | Some c \<Rightarrow> wf_chunk c)"
| "tcpserver_safe _ w \<longleftrightarrow> True"

text \<open>Between two messages the send thread of some connection works.\<close>

definition tcpserver_env :: "t_tcpserver \<Rightarrow> t_tcpserver \<Rightarrow> bool" where
  "tcpserver_env w w' \<longleftrightarrow> idle w w' \<or>
     (\<exists>i<x_nconnections w. \<exists>s. let a = tcp_addrs w ! i; x = tcp_conns w ! i in
        thread_works (sr_sender x) w s w' \<and>
        world.more w' = world.more (w\<lparr>srs := heap_put (srs w) a (x\<lparr>sr_sender := s\<rparr>)\<rparr>))"

section \<open>Steps\<close>

definition tcpserver_fds :: "t_tcpserver \<Rightarrow> int list" where
  "tcpserver_fds w = (if 0 \<le> x_connectsocket w then [x_connectsocket w] else []) @ tcp_fds w"

text \<open>
  A step of the server during which \<open>d\<close> blocks are taken that the server does not hold (a chunk, a copy of the table).
\<close>

definition tcpserver_step :: "int \<Rightarrow> t_tcpserver \<Rightarrow> t_tcpserver \<Rightarrow> bool" where
  "tcpserver_step d w w' \<longleftrightarrow> tcp_inv w' \<and> mem_ok w' \<and>
     w_live w' - tcp_blocks w' = w_live w - tcp_blocks w + d \<and>
     (fd_balance (w_io w) (tcpserver_fds w) \<longrightarrow> fd_balance (w_io w') (tcpserver_fds w'))"

lemma tcpserver_step_refl: "tcp_inv w \<Longrightarrow> mem_ok w \<Longrightarrow> tcpserver_step 0 w w"
  by (simp add: tcpserver_step_def)

lemma tcpserver_step_trans:
  "tcpserver_step d w w1 \<Longrightarrow> tcpserver_step e w1 w2 \<Longrightarrow> f = d + e \<Longrightarrow> tcpserver_step f w w2"
  by (auto simp: tcpserver_step_def)

lemma tcpserver_stepD: "tcpserver_step d w w' \<Longrightarrow> tcp_inv w' \<and> mem_ok w'"
  by (simp add: tcpserver_step_def)

lemma tcp_cong:
  assumes "world.more w' = world.more (w :: t_tcpserver)"
  shows "tcp_blocks w' = tcp_blocks w" "tcpserver_fds w' = tcpserver_fds w" "tcp_room w' = tcp_room w"
  by (simp_all add: tcp_blocks_def tcpserver_fds_def tcp_room_def tcp_more_cong [OF assms] world_more_cong [OF assms])

lemma tcpserver_step_world:
  assumes "tcp_inv w" "mem_ok w" "wstep w d op cl w'" "mset op = mset cl"
  shows "tcpserver_step d w w'"
  using assms wstepD [OF assms(3)] tcp_cong [OF wstepD(1) [OF assms(3)]] tcp_more_cong [OF wstepD(1) [OF assms(3)]]
  by (auto simp: tcpserver_step_def fd_balance_def)

lemma tcpserver_step_quiet:
  assumes "tcpserver_step d w w1" "wstep w1 e [] [] w2"
  shows "tcpserver_step (d + e) w w2"
  using tcpserver_step_trans [OF assms(1) tcpserver_step_world [OF _ _ assms(2)]] tcpserver_stepD [OF assms(1)] by simp

lemma room_cong: "wstep w d op cl w' \<Longrightarrow> tcp_room w' = tcp_room w"
  by (rule tcp_cong(3)) (rule wstepD(1))

text \<open>A step that leaves the connections alone.\<close>

lemma tcpserver_step_fields:
  assumes "tcp_inv w" "mem_ok w'" "x_sr w' = x_sr w" "x_nconnections w' = x_nconnections w"
    and "x_maxconnections w' = x_maxconnections w" "srs w' = srs w" "x_floatlist w' = x_floatlist w"
    and "w_live w' = w_live w + d"
    and "opened_fds (w_io w') = opened_fds (w_io w) @ op" "closed_fds (w_io w') = closed_fds (w_io w) @ cl"
    and "mset op + mset (if 0 \<le> x_connectsocket w then [x_connectsocket w] else []) =
      mset cl + mset (if 0 \<le> x_connectsocket w' then [x_connectsocket w'] else [])"
  shows "tcpserver_step d w w'"
proof -
  have same: "tcp_addrs w' = tcp_addrs w" "tcp_conns w' = tcp_conns w" "tcp_fds w' = tcp_fds w" "tcp_blocks w' = tcp_blocks w"
    using assms(3-7) by (simp_all add: tcp_addrs_def tcp_conns_def tcp_fds_def tcp_blocks_def)
  have "tcp_inv w'" using assms(1,3-7) by (simp add: tcp_inv_def same table_ok_def)
  moreover have "fd_balance (w_io w') (tcpserver_fds w')" if "fd_balance (w_io w) (tcpserver_fds w)"
    using that assms(9-11) unfolding fd_balance_def tcpserver_fds_def same mset_append by (simp add: ac_simps)
  ultimately show ?thesis using assms(2,8) same by (simp add: tcpserver_step_def)
qed

section \<open>Disconnecting\<close>

lemma wstep_info_event: "wstep w 0 [] [] (snd (tcpserver_info_event e w))"
  by (simp add: wstep_def tcpserver_info_event_def split: option.splits)

lemma wstep_info_connection: "wstep w 0 [] [] (tcpserver_info_connection y e w)"
  unfolding tcpserver_info_connection_def Let_def
  by (rule wstep_quiet [OF wstep_quiet [OF wstep_quiet [OF wstep_quiet [OF wstep_info_event wstep_emit] wstep_emit]
      wstep_outputs(3)] wstep_emit]) simp_all

lemma sender_destroy_opened: "iemnet__sender_destroy s w = Inr w' \<Longrightarrow> opened_fds (w_io w') = opened_fds (w_io w)"
  by (auto simp: iemnet__sender_destroy_def res_simps Let_def split: if_splits dest!: queue_destroy_frame)

lemma closesocket_opened [simp]: "opened_fds (w_io (iemnet__closesocket fd v w)) = opened_fds (w_io w)"
  by (simp add: iemnet__closesocket_def Let_def case_prod_beta)

lemma receiver_destroy_opened [simp]: "opened_fds (w_io (iemnet__receiver_destroy r b w)) = opened_fds (w_io w)"
  by (simp add: iemnet__receiver_destroy_def Let_def split: option.splits)

lemma numconnout_opened [simp]: "opened_fds (w_io (iemnet__numconnout so no n w)) = opened_fds (w_io w)"
  by (simp add: out_defs Let_def split: option.splits)

lemma info_connection_opened [simp]: "opened_fds (w_io (tcpserver_info_connection y e w)) = opened_fds (w_io w)"
  by (simp add: tcpserver_info_connection_def tcpserver_info_event_def out_defs Let_def split: option.splits)

lemma socketreceiver_free_opened:
  "tcpserver_socketreceiver_free p w = Inr w' \<Longrightarrow> opened_fds (w_io w') = opened_fds (w_io w)"
  by (auto simp: tcpserver_socketreceiver_free_def res_simps Let_def split: option.splits dest!: sender_destroy_opened)

lemma disconnect_opened: "tcpserver_disconnect i w = Inr w' \<Longrightarrow> opened_fds (w_io w') = opened_fds (w_io w)"
  by (auto simp: tcpserver_disconnect_def res_simps Let_def dest!: socketreceiver_free_opened)

lemma disconnect_floatlist:
  "tcpserver_disconnect i w = Inr w' \<Longrightarrow> x_floatlist w' = x_floatlist w"
  by (auto simp: tcpserver_disconnect_def res_simps Let_def dest!: socketreceiver_free_frame(4))

lemma sum_list_remove:
  "i < length xs \<Longrightarrow> sum_list (map f (take i xs @ drop (Suc i) xs)) = sum_list (map f xs) - (f (xs ! i) :: int)"
  by (subst (2) id_take_nth_drop [of i xs]) simp_all

lemma mset_remove: "i < length xs \<Longrightarrow> mset xs = add_mset (xs ! i) (mset (take i xs @ drop (Suc i) xs))"
  by (subst id_take_nth_drop [of i xs]) simp_all

lemma disconnect_step:
  assumes "tcp_room w" "mem_ok w" "i < x_nconnections w"
  obtains w' where "tcpserver_disconnect i w = Inr w'" "tcpserver_step 0 w w'" "tcp_room w'"
    "tcp_addrs w' = take i (tcp_addrs w) @ drop (Suc i) (tcp_addrs w)"
proof -
  from assms(1) have inv: "tcp_inv w" by (simp add: tcp_room_def)
  note len = tcp_inv_length [OF inv]
  obtain w' where w': "tcpserver_disconnect i w = Inr w'" "tcp_room w'"
    "tcp_addrs w' = take i (tcp_addrs w) @ drop (Suc i) (tcp_addrs w)"
    "tcp_conns w' = take i (tcp_conns w) @ drop (Suc i) (tcp_conns w)"
    "closed_fds (w_io w') = closed_fds (w_io w) @ [tcp_fds w ! i]"
    "w_live w' = w_live w - sr_blocks (tcp_conns w ! i)" "mem_ok w \<longrightarrow> mem_ok w'" "x_connectsocket w' = x_connectsocket w"
    by (rule disconnect_ok [OF assms(1,3)])
  have fds: "tcp_fds w' = take i (tcp_fds w) @ drop (Suc i) (tcp_fds w)"
    using w'(4) by (simp add: tcp_fds_def take_map drop_map)
  have "tcp_blocks w' = tcp_blocks w - sr_blocks (tcp_conns w ! i)"
    using sum_list_remove [of i "tcp_conns w" sr_blocks] w'(4) assms(3) len disconnect_floatlist [OF w'(1)]
    by (simp add: tcp_blocks_def)
  moreover have "mset (tcp_fds w) = add_mset (tcp_fds w ! i) (mset (tcp_fds w'))"
    using mset_remove [of i "tcp_fds w"] assms(3) len fds by simp
  ultimately have "tcpserver_step 0 w w'"
    using w' assms(2) disconnect_opened [OF w'(1)]
    by (auto simp: tcpserver_step_def fd_balance_def tcp_room_def tcpserver_fds_def)
  with w' show thesis using that by blast
qed

lemma disconnect_client_step:
  assumes "tcp_room w" "mem_ok w"
  shows "\<exists>w'. tcpserver_disconnect_client f w = Inr w' \<and> tcpserver_step 0 w w'"
proof -
  have inv: "tcp_inv w" using assms(1) by (simp add: tcp_room_def)
  obtain k w1 where k: "tcpserver_fixindex (c_int f) w = (k, w1)" by fastforce
  show ?thesis
  proof (cases "k < 0")
    case True
    then have "wstep w 0 [] [] w1" using k by (auto simp: tcpserver_fixindex_def wstep_emit split: if_splits)
    then show ?thesis
      using tcpserver_step_world [OF inv assms(2)] k True by (auto simp: tcpserver_disconnect_client_def)
  next
    case False
    then have "w1 = w" "nat k < x_nconnections w" using k by (auto simp: tcpserver_fixindex_def split: if_splits)
    moreover obtain w' where "tcpserver_disconnect (nat k) w = Inr w'" "tcpserver_step 0 w w'"
      by (rule disconnect_step [OF assms calculation(2)])
    ultimately show ?thesis using k False by (auto simp: tcpserver_disconnect_client_def)
  qed
qed

lemma disconnect_socket_step:
  assumes "tcp_room w" "mem_ok w"
  shows "\<exists>w'. tcpserver_disconnect_socket f w = Inr w' \<and> tcpserver_step 0 w w'"
proof -
  obtain k where "tcpserver_socket2index (c_int f) w = Inr k" using tct.lookup_cases [OF assms(1)] by metis
  then show ?thesis
    using disconnect_client_step [OF assms] tcpserver_step_refl assms by (auto simp: tcpserver_disconnect_socket_def tcp_room_def)
qed

lemma disconnect_all_step:
  "tcp_room w \<Longrightarrow> mem_ok w \<Longrightarrow> \<exists>w'. disconnect_all_from k w = Inr w' \<and> tcpserver_step 0 w w'"
proof (induction k w rule: disconnect_all_from.induct)
  case (1 k w)
  show ?case
  proof (cases "k < x_nconnections w")
    case True
    obtain w1 where w1: "tcpserver_disconnect k w = Inr w1" "tcpserver_step 0 w w1" "tcp_room w1"
      by (rule disconnect_step [OF "1.prems" True])
    from "1.IH" [OF True w1(1,3)] tcpserver_stepD [OF w1(2)] obtain w2 where
      "disconnect_all_from (k + 1) w1 = Inr w2" "tcpserver_step 0 w1 w2" by blast
    with w1 True show ?thesis
      by (subst disconnect_all_from.simps) (auto intro: tcpserver_step_trans)
  next
    case False
    then show ?thesis using "1.prems" tcpserver_step_refl by (subst disconnect_all_from.simps) (auto simp: tcp_room_def)
  qed
qed

section \<open>Sending\<close>

abbreviation ok_chunk :: "t_iemnet_chunk option \<Rightarrow> bool" where
  "ok_chunk c \<equiv> (case c of None \<Rightarrow> True | Some c \<Rightarrow> wf_chunk c)"

lemma sum_list_replace:
  "i < length xs \<Longrightarrow> sum_list (map f (xs[i := x])) = sum_list (map f xs) - f (xs ! i) + (f x :: int)"
  by (subst (2) id_take_nth_drop [of i xs]) (simp_all add: upd_conv_take_nth_drop)

text \<open>A connection whose sender changes; the memory it holds changes with it.\<close>

lemma sender_update_step:
  assumes "tcp_inv w" "mem_ok w" "i < x_nconnections w"
    and "case s of None \<Rightarrow> True | Some s \<Rightarrow> sender_inv s \<and> s_sockfd s = tcp_fds w ! i"
    and "world.more w' = world.more (w\<lparr>srs := heap_put (srs w) (tcp_addrs w ! i) ((tcp_conns w ! i)\<lparr>sr_sender := s\<rparr>)\<rparr>)"
    and "w_live w' - w_live w = sender_blocks s - sender_blocks (sr_sender (tcp_conns w ! i))" "mem_ok w'"
    and "opened_fds (w_io w') = opened_fds (w_io w)" "closed_fds (w_io w') = closed_fds (w_io w)"
  shows "tcpserver_step 0 w w'" "tcp_addrs w' = tcp_addrs w" "tcp_fds w' = tcp_fds w"
    "x_nconnections w' = x_nconnections w" "x_maxconnections w' = x_maxconnections w"
proof -
  let ?x = "tcp_conns w ! i" and ?y = "(tcp_conns w ! i)\<lparr>sr_sender := s\<rparr>"
  note f = world_more_cong [OF assms(5)] note len = tcp_inv_length [OF assms(1)]
  note e = tcp_inv_entry [OF assms(1,3)]
  have fd: "sr_fd ?x = tcp_fds w ! i" using assms(3) len by (simp add: tcp_fds_def)
  have ok: "sr_ok (tcp_addrs w ! i) ?y" "sr_fd ?y = tcp_fds w ! i"
    using e(3) assms(4) fd by (auto simp: sr_ok_def split: option.splits)
  have u: "tcp_inv w'" "tcp_addrs w' = tcp_addrs w" "tcp_conns w' = (tcp_conns w)[i := ?y]"
    by (rule tcp_update [OF assms(1,3) ok]; simp add: f)+
  have "map sr_fd ((tcp_conns w)[i := ?y]) = tcp_fds w" by (simp add: map_update fd) (simp add: tcp_fds_def)
  then have fds: "tcp_fds w' = tcp_fds w" by (simp only: tcp_fds_def [of w'] u(3))
  have "tcp_blocks w' = tcp_blocks w - sr_blocks ?x + sr_blocks ?y"
    using sum_list_replace [of i "tcp_conns w" sr_blocks ?y] assms(3) len u(3) f by (simp add: tcp_blocks_def)
  then show "tcpserver_step 0 w w'"
    using u fds f assms(6-) by (simp add: tcpserver_step_def sr_blocks_def tcpserver_fds_def fd_balance_def)
  show "tcp_addrs w' = tcp_addrs w" "tcp_fds w' = tcp_fds w" "x_nconnections w' = x_nconnections w"
    "x_maxconnections w' = x_maxconnections w"
    using u fds f by simp_all
qed

text \<open>The part of the handler before the connection may be removed.\<close>

lemma send_queue_step:
  assumes "tcp_inv w" "mem_ok w" "i < x_nconnections w" "ok_chunk c"
  obtains sz w' where "(case sr_sender (tcp_conns w ! i) of None \<Rightarrow> Inr (-1, w)
       | Some s \<Rightarrow> res_bind (iemnet__sender_send s c w) (\<lambda>(sz, s, v).
           Inr (sz, v\<lparr>srs := heap_put (srs v) (tcp_addrs w ! i) ((tcp_conns w ! i)\<lparr>sr_sender := Some s\<rparr>)\<rparr>))) = Inr (sz, w')"
    "tcpserver_step 0 w w'" "tcp_addrs w' = tcp_addrs w" "tcp_fds w' = tcp_fds w"
    "x_nconnections w' = x_nconnections w" "x_maxconnections w' = x_maxconnections w"
proof (cases "sr_sender (tcp_conns w ! i)")
  case None
  then show ?thesis using that [of "-1" w] tcpserver_step_refl [OF assms(1,2)] by simp
next
  case (Some s)
  have s: "sender_inv s" "s_sockfd s = tcp_fds w ! i"
    using tcp_inv_entry(3) [OF assms(1,3)] Some assms(3) tcp_inv_length [OF assms(1)] by (simp_all add: sr_ok_def tcp_fds_def)
  obtain sz s' w1 where w1: "iemnet__sender_send s c w = Inr (sz, s', w1)" "sender_inv s'" "s_sockfd s' = s_sockfd s"
    "wstep w (sender_blocks (Some s') - sender_blocks (Some s)) [] [] w1"
    by (rule sender_send_opt_wstep [OF s(1) assms(2,4)])
  note f1 = wstepD [OF w1(4)]
  define w' where "w' = w1\<lparr>srs := heap_put (srs w1) (tcp_addrs w ! i) ((tcp_conns w ! i)\<lparr>sr_sender := Some s'\<rparr>)\<rparr>"
  have more: "world.more w' = world.more (w\<lparr>srs := heap_put (srs w) (tcp_addrs w ! i) ((tcp_conns w ! i)\<lparr>sr_sender := Some s'\<rparr>)\<rparr>)"
    using f1(1) world_more_cong(4) [OF f1(1)] unfolding w'_def by (cases w; cases w1) simp
  have inv': "case Some s' of None \<Rightarrow> True | Some s \<Rightarrow> sender_inv s \<and> s_sockfd s = tcp_fds w ! i" using w1(2,3) s by simp
  have acc: "w_live w' - w_live w = sender_blocks (Some s') - sender_blocks (sr_sender (tcp_conns w ! i))" "mem_ok w'"
    "opened_fds (w_io w') = opened_fds (w_io w)" "closed_fds (w_io w') = closed_fds (w_io w)"
    using f1 assms(2) Some by (simp_all add: w'_def)
  show ?thesis
    by (rule that [OF _ sender_update_step [OF assms(1-3) inv' more acc]]) (simp add: Some w1(1) w'_def)
qed

text \<open>Sending to one connection: it stays, or it is removed.\<close>

lemma send_client_live:
  assumes "tcp_room w" "mem_ok w" "i < x_nconnections w" "ok_chunk c"
  obtains w' where "tcpserver_send_bytes_client (Some (tcp_addrs w ! i)) k c w = Inr w'" "tcpserver_step 0 w w'" "tcp_room w'"
    "tcp_addrs w' = tcp_addrs w \<or> tcp_addrs w' = take i (tcp_addrs w) @ drop (Suc i) (tcp_addrs w)"
proof -
  have inv: "tcp_inv w" using assms(1) by (simp add: tcp_room_def)
  note e = tcp_inv_entry [OF inv assms(3)]
  have fd: "sr_fd (tcp_conns w ! i) = tcp_fds w ! i" using assms(3) tcp_inv_length [OF inv] by (simp add: tcp_fds_def)
  obtain sz w1 where w1: "(case sr_sender (tcp_conns w ! i) of None \<Rightarrow> Inr (-1, w)
       | Some s \<Rightarrow> res_bind (iemnet__sender_send s c w) (\<lambda>(sz, s, v).
           Inr (sz, v\<lparr>srs := heap_put (srs v) (tcp_addrs w ! i) ((tcp_conns w ! i)\<lparr>sr_sender := Some s\<rparr>)\<rparr>))) = Inr (sz, w1)"
    "tcpserver_step 0 w w1" "tcp_addrs w1 = tcp_addrs w" "tcp_fds w1 = tcp_fds w"
    "x_nconnections w1 = x_nconnections w" "x_maxconnections w1 = x_maxconnections w"
    by (rule send_queue_step [OF inv assms(2-4)])
  define w2 where "w2 = emit (Outlet_anything Statusout ''sendbuffersize''
    [SETFLOAT (k + 1), SETFLOAT sz, SETFLOAT (tcp_fds w ! i)]) (snd (tcpserver_info_event SEND w1))"
  have q: "wstep w1 0 [] [] w2" unfolding w2_def by (rule wstep_quiet [OF wstep_info_event wstep_emit]) simp_all
  have s2: "tcpserver_step 0 w w2" using tcpserver_step_quiet [OF w1(2) q] by simp
  note g = tcp_more_cong [OF wstepD(1) [OF q]] world_more_cong [OF wstepD(1) [OF q]]
  have r2: "tcp_room w2" "mem_ok w2" "i < x_nconnections w2" "tcp_addrs w2 = tcp_addrs w" "tcp_fds w2 = tcp_fds w"
    using tcpserver_stepD [OF s2] assms(1,3) w1 g by (simp_all add: tcp_room_def)
  have run: "tcpserver_send_bytes_client (Some (tcp_addrs w ! i)) k c w =
      (if sz < 0 then tcpserver_disconnect_socket (t_float_of_int (tcp_fds w ! i)) w2 else Inr w2)"
    using w1(1) by (simp add: tcpserver_send_bytes_client_def e(2) fd w2_def Let_def)
  show thesis
  proof (cases "sz < 0")
    case True
    obtain w3 where w3: "tcpserver_disconnect i w2 = Inr w3" "tcpserver_step 0 w2 w3" "tcp_room w3"
      "tcp_addrs w3 = take i (tcp_addrs w2) @ drop (Suc i) (tcp_addrs w2)"
      by (rule disconnect_step [OF r2(1-3)])
    have "tcpserver_send_bytes_client (Some (tcp_addrs w ! i)) k c w = Inr w3"
      using run True disconnect_socket_hit [OF r2(1,3)] r2(5) w3(1) by simp
    then show ?thesis using that w3 tcpserver_step_trans [OF s2 w3(2)] r2(4) by simp
  next
    case False
    then show ?thesis using that run s2 r2 by simp
  qed
qed

text \<open>
  The loop over a copy of the table: only the connection whose turn it is can be removed, so that the pointers still to come
  lead to connections.
\<close>

lemma send_loop_live:
  assumes "tcp_room w" "mem_ok w" "ok_chunk c" "distinct as" "set as \<subseteq> set (tcp_addrs w)"
    and "length ps = length as" "\<forall>j<length as. ps ! j = None \<or> ps ! j = Some (as ! j)"
  shows "\<exists>w'. tcpserver_send_bytes_clients ps (length as) c w = Inr w' \<and> tcpserver_step 0 w w' \<and> tcp_room w'"
proof -
  have "\<exists>w'. tcpserver_send_bytes_clients ps k c w = Inr w' \<and> tcpserver_step 0 w w' \<and> tcp_room w' \<and>
      set (drop k as) \<subseteq> set (tcp_addrs w')" if "k \<le> length as" for k
    using that
  proof (induction k)
    case 0
    then show ?case using assms(1,2,5) tcpserver_step_refl by (auto simp: tcpserver_send_bytes_clients_def tcp_room_def)
  next
    case (Suc k)
    then obtain w1 where w1: "tcpserver_send_bytes_clients ps k c w = Inr w1" "tcpserver_step 0 w w1" "tcp_room w1"
      "set (drop k as) \<subseteq> set (tcp_addrs w1)" by auto
    have k: "k < length as" using Suc.prems by simp
    then have d: "drop k as = as ! k # drop (Suc k) as" by (simp add: Cons_nth_drop_Suc)
    have new: "as ! k \<notin> set (drop (Suc k) as)" using assms(4) d by (metis distinct.simps(2) distinct_drop)
    have run: "tcpserver_send_bytes_clients ps (Suc k) c w = tcpserver_send_bytes_client (ps ! k) (int k) c w1"
      using w1(1) k assms(6)
      by (cases "tcpserver_send_bytes_client (ps ! k) (int k) c w1") (simp_all add: tcpserver_send_bytes_clients_def res_fold_append)
    consider "ps ! k = None" | "ps ! k = Some (as ! k)" using assms(7) [rule_format, OF k] by (elim disjE)
    then show ?case
    proof cases
      case 1
      then show ?thesis using w1 run d by (auto simp: tcpserver_send_bytes_client_def)
    next
      case 2
      have "as ! k \<in> set (tcp_addrs w1)" using w1(4) d by simp
      then obtain i where i: "i < length (tcp_addrs w1)" "tcp_addrs w1 ! i = as ! k" by (auto simp: in_set_conv_nth)
      have n: "i < x_nconnections w1" using i w1(3) by (simp add: tcp_room_def tcp_inv_length)
      obtain w2 where w2: "tcpserver_send_bytes_client (Some (tcp_addrs w1 ! i)) (int k) c w1 = Inr w2" "tcpserver_step 0 w1 w2"
        "tcp_room w2" "tcp_addrs w2 = tcp_addrs w1 \<or> tcp_addrs w2 = take i (tcp_addrs w1) @ drop (Suc i) (tcp_addrs w1)"
        by (rule send_client_live [OF w1(3) _ n assms(3)]) (use tcpserver_stepD [OF w1(2)] in simp)
      have "set (tcp_addrs w1) \<subseteq> insert (as ! k) (set (tcp_addrs w2))"
        using w2(4) mset_remove [OF i(1)] i(2) by (metis insert_iff set_mset_add_mset_insert set_mset_mset subsetI)
      then have "set (drop (Suc k) as) \<subseteq> set (tcp_addrs w2)" using w1(4) d new by auto
      then show ?thesis using run 2 i(2) w2 tcpserver_step_trans [OF w1(2) w2(2)] by auto
    qed
  qed
  then show ?thesis by blast
qed

text \<open>A chunk is made for the message and freed after it.\<close>

lemma chunk_bracket:
  assumes "tcp_inv w" "mem_ok w" "wstep w (if c = None then 0 else 2) [] [] w1" "tcpserver_step d w1 w2" "ok_chunk c"
  shows "tcpserver_step d w (iemnet__chunk_destroy c w2)"
proof -
  have "tcpserver_step (if c = None then 0 else 2) w w1" by (rule tcpserver_step_world [OF assms(1-3)]) simp
  from tcpserver_step_quiet [OF tcpserver_step_trans [OF this assms(4) refl] wstep_chunk_destroy [OF assms(5)]]
  show ?thesis by (simp split: if_splits)
qed

lemma send_bytes_live:
  assumes "tcp_room w" "mem_ok w" "i < x_nconnections w" "ok_chunk c"
  shows "\<exists>w'. tcpserver_send_bytes i c w = Inr w' \<and> tcpserver_step 0 w w'"
proof -
  have inv: "tcp_inv w" using assms(1) by (simp add: tcp_room_def)
  note e = tcp_inv_entry [OF inv assms(3)]
  have "i < x_maxconnections w" using e(4) tcp_inv_length(5) [OF inv] by simp
  then have "tcpserver_send_bytes i c w = tcpserver_send_bytes_client (Some (tcp_addrs w ! i)) (int i) c w"
    using e(1,4) by (simp add: tcpserver_send_bytes_def)
  moreover obtain w' where "tcpserver_send_bytes_client (Some (tcp_addrs w ! i)) (int i) c w = Inr w'" "tcpserver_step 0 w w'"
    by (rule send_client_live [OF assms])
  ultimately show ?thesis by simp
qed

lemma toclient_live:
  assumes "tcp_room w" "mem_ok w" "i < x_nconnections w" "length argv < 2147483648"
  shows "\<exists>w'. tcpserver_send_toclient gi i argv w = Inr w' \<and> tcpserver_step 0 w w'"
proof -
  have inv: "tcp_inv w" using assms(1) by (simp add: tcp_room_def)
  obtain c w1 where c: "iemnet__chunk_create_list gi (int (length argv)) argv w = Inr (c, w1)"
    "wstep w (if c = None then 0 else 2) [] [] w1" "ok_chunk c"
    by (rule create_list_wstep [OF assms(2,4)])
  note f1 = wstepD [OF c(2)]
  have "tcp_room w1" "mem_ok w1" "i < x_nconnections w1"
    using assms room_cong [OF c(2)] f1(3) world_more_cong [OF f1(1)] by simp_all
  from send_bytes_live [OF this c(3)] obtain w2 where w2: "tcpserver_send_bytes i c w1 = Inr w2" "tcpserver_step 0 w1 w2" by blast
  then show ?thesis using chunk_bracket [OF inv assms(2) c(2) w2(2) c(3)] c(1) by (simp add: tcpserver_send_toclient_def)
qed

text \<open>The common part of broadcasting to all and to all but one.\<close>

lemma table_send_live:
  assumes "tcp_room w" "mem_ok w" "ok_chunk c"
  obtains sr w1 where "copy_table w = Inr (sr, w1)" "x_nconnections w1 = x_nconnections w" "length sr = x_nconnections w"
    "\<forall>b. \<exists>w2. tcpserver_send_bytes_clients (sr[b := None]) (x_nconnections w) c w1 = Inr w2 \<and> tcpserver_step 0 w (free w2)"
    "\<exists>w2. tcpserver_send_bytes_clients sr (x_nconnections w) c w1 = Inr w2 \<and> tcpserver_step 0 w (free w2)"
proof -
  have inv: "tcp_inv w" using assms(1) by (simp add: tcp_room_def)
  note len = tcp_inv_length [OF inv]
  let ?sr = "map (\<lambda>i. x_sr w ! i) [0..<x_nconnections w]"
  obtain w1 where w1: "copy_table w = Inr (?sr, w1)" "mem_step w 1 w1" by (rule copy_table_ok [OF inv assms(2)])
  note f1 = wstepD [OF wstep_mem [OF w1(2)]] note g1 = tcp_more_cong [OF f1(1)]
  have s1: "tcpserver_step 1 w w1" by (rule tcpserver_step_world [OF inv assms(2) wstep_mem [OF w1(2)]]) simp
  have pre: "tcp_room w1" "mem_ok w1" "distinct (tcp_addrs w)" "set (tcp_addrs w) \<subseteq> set (tcp_addrs w1)"
    using assms(1,2) inv f1(3) g1 tcp_cong(3) [OF f1(1)] by (simp_all add: tcp_inv_def table_ok_def)
  have loop: "\<exists>w2. tcpserver_send_bytes_clients ps (x_nconnections w) c w1 = Inr w2 \<and> tcpserver_step 0 w (free w2)"
    if ps: "length ps = x_nconnections w" "\<forall>j<x_nconnections w. ps ! j = None \<or> ps ! j = Some (tcp_addrs w ! j)" for ps
  proof -
    obtain w2 where w2: "tcpserver_send_bytes_clients ps (x_nconnections w) c w1 = Inr w2" "tcpserver_step 0 w1 w2"
      using send_loop_live [OF pre(1,2) assms(3) pre(3,4), of ps] ps len by auto
    from tcpserver_step_quiet [OF tcpserver_step_trans [OF s1 w2(2) refl] wstep_mem [OF mem_step_free]] w2(1)
    show ?thesis by simp
  qed
  have some: "?sr ! j = Some (tcp_addrs w ! j)" if "j < x_nconnections w" for j
    using tcp_inv_entry(1) [OF inv that] that by simp
  show thesis
  proof (rule that [OF w1(1)])
    show "\<forall>b. \<exists>w2. tcpserver_send_bytes_clients (?sr[b := None]) (x_nconnections w) c w1 = Inr w2 \<and> tcpserver_step 0 w (free w2)"
    proof (intro allI loop impI)
      fix b j
      assume "j < x_nconnections w"
      then show "?sr[b := None] ! j = None \<or> ?sr[b := None] ! j = Some (tcp_addrs w ! j)"
        using some [of j] by (cases "b = j") simp_all
    qed simp
    show "\<exists>w2. tcpserver_send_bytes_clients ?sr (x_nconnections w) c w1 = Inr w2 \<and> tcpserver_step 0 w (free w2)"
      by (rule loop) (use some in simp_all)
  qed (use world_more_cong [OF f1(1)] in simp_all)
qed

lemma broadcast_live:
  assumes "tcp_room w" "mem_ok w" "length argv < 2147483648"
  shows "\<exists>w'. tcpserver_broadcast gi argv w = Inr w' \<and> tcpserver_step 0 w w'"
    and "but < x_nconnections w \<Longrightarrow> \<exists>w'. tcpserver_send_butclient gi but argv w = Inr w' \<and> tcpserver_step 0 w w'"
proof -
  have inv: "tcp_inv w" using assms(1) by (simp add: tcp_room_def)
  obtain c w1 where c: "iemnet__chunk_create_list gi (int (length argv)) argv w = Inr (c, w1)"
    "wstep w (if c = None then 0 else 2) [] [] w1" "ok_chunk c"
    by (rule create_list_wstep [OF assms(2,3)])
  note f1 = wstepD [OF c(2)]
  have pre: "tcp_room w1" "mem_ok w1" using assms room_cong [OF c(2)] f1(3) by simp_all
  obtain sr w2 where w2: "copy_table w1 = Inr (sr, w2)" "x_nconnections w2 = x_nconnections w1" "length sr = x_nconnections w1"
    "\<forall>b. \<exists>w3. tcpserver_send_bytes_clients (sr[b := None]) (x_nconnections w1) c w2 = Inr w3 \<and> tcpserver_step 0 w1 (free w3)"
    "\<exists>w3. tcpserver_send_bytes_clients sr (x_nconnections w1) c w2 = Inr w3 \<and> tcpserver_step 0 w1 (free w3)"
    by (rule table_send_live [OF pre c(3)])
  note n = world_more_cong(2) [OF f1(1)]
  from w2(5) obtain w3 where w3: "tcpserver_send_bytes_clients sr (x_nconnections w1) c w2 = Inr w3" "tcpserver_step 0 w1 (free w3)"
    by blast
  have s3: "tcpserver_step 0 w (iemnet__chunk_destroy c (free w3))" by (rule chunk_bracket [OF inv assms(2) c(2) w3(2) c(3)])
  show "\<exists>w'. tcpserver_broadcast gi argv w = Inr w' \<and> tcpserver_step 0 w w'"
  proof (cases "x_nconnections w = 0")
    case True
    then show ?thesis using tcpserver_step_refl [OF inv assms(2)] by (simp add: tcpserver_broadcast_def)
  next
    case False
    then show ?thesis using c(1) w2(1,2) w3(1) s3 n by (simp add: tcpserver_broadcast_def)
  qed
  assume but: "but < x_nconnections w"
  from w2(4) obtain w4 where w4: "tcpserver_send_bytes_clients (sr[but := None]) (x_nconnections w1) c w2 = Inr w4"
    "tcpserver_step 0 w1 (free w4)" by blast
  have "tcpserver_step 0 w (iemnet__chunk_destroy c (free w4))" by (rule chunk_bracket [OF inv assms(2) c(2) w4(2) c(3)])
  then show "\<exists>w'. tcpserver_send_butclient gi but argv w = Inr w' \<and> tcpserver_step 0 w w'"
    using c(1) w2(1-3) w4(1) n but by (simp add: tcpserver_send_butclient_def)
qed

text \<open>Looking up a socket gives the index of a connection or -1.\<close>

lemma lookup_range:
  assumes "tcp_inv w"
  obtains k where "tcpserver_socket2index fd w = Inr k" "k < 0 \<or> nat k < x_nconnections w"
proof (cases "find (\<lambda>i. tcp_fds w ! i = fd) [0..<length (tcp_fds w)]")
  case None
  then show ?thesis using that [of "-1"] socket2index_result [OF assms] by simp
next
  case (Some i)
  then have "i < x_nconnections w" using tcp_inv_length(4) [OF assms] by (auto simp: find_Some_iff)
  then show ?thesis using that [of "int i"] Some socket2index_result [OF assms] by simp
qed

lemma info_client_step:
  assumes "tcp_inv w" "mem_ok w" "i < x_nconnections w"
  shows "\<exists>w'. tcpserver_info_client i w = Inr w' \<and> wstep w 0 [] [] w'"
proof -
  note e = tcp_inv_entry [OF assms(1,3)]
  have "i < x_maxconnections w" using e(4) tcp_inv_length(5) [OF assms(1)] by simp
  moreover have "wstep w 0 [] [] (emit (Outlet_anything Statusout s2 a2) (emit (Outlet_anything Statusout s1 a1)
      (snd (tcpserver_info_event CLIENT_INFO w))))" for s1 s2 a1 a2
    by (rule wstep_quiet [OF wstep_quiet [OF wstep_info_event wstep_emit] wstep_emit]) simp_all
  ultimately show ?thesis using e by (simp add: tcpserver_info_client_def Let_def)
qed

lemma info_clients_step:
  assumes "tcp_inv w" "mem_ok w" "n \<le> x_nconnections w"
  shows "\<exists>w'. res_fold tcpserver_info_client [0..<n] w = Inr w' \<and> wstep w 0 [] [] w'"
  using assms(3)
proof (induction n)
  case 0
  then show ?case by (simp add: wstep_refl)
next
  case (Suc n)
  then obtain w1 where w1: "res_fold tcpserver_info_client [0..<n] w = Inr w1" "wstep w 0 [] [] w1" by auto
  note f = wstepD [OF w1(2)]
  have "tcp_inv w1" "mem_ok w1" "n < x_nconnections w1"
    using assms Suc.prems f(3) tcp_more_cong [OF f(1)] world_more_cong [OF f(1)] by simp_all
  from info_client_step [OF this] w1 show ?case by (auto simp: res_fold_append intro: wstep_quiet)
qed

lemma fixindex_cases:
  obtains (bad) k w1 where "tcpserver_fixindex client w = (k, w1)" "k < 0" "wstep w 0 [] [] w1"
  | (good) k where "tcpserver_fixindex client w = (k, w)" "0 \<le> k" "nat k < x_nconnections w"
proof (cases "0 < client \<and> nat client \<le> x_nconnections w")
  case True
  then have "nat (client - 1) < x_nconnections w" by linarith
  then show ?thesis using True good [of "client - 1"] by (simp add: tcpserver_fixindex_def)
next
  case False
  then show ?thesis using bad by (cases "x_nconnections w = 0") (auto simp: tcpserver_fixindex_def wstep_emit)
qed

lemma send_client_msg_step:
  assumes "tcp_room w" "mem_ok w" "length argv < 2147483648"
  shows "\<exists>w'. tcpserver_send_client gi argv w = Inr w' \<and> tcpserver_step 0 w w'"
proof (cases argv)
  case Nil
  have inv: "tcp_inv w" using assms(1) by (simp add: tcp_room_def)
  from info_clients_step [OF inv assms(2) le_refl] Nil tcpserver_step_world [OF inv assms(2)] show ?thesis
    by (auto simp: tcpserver_send_client_def)
next
  case (Cons a rest)
  have inv: "tcp_inv w" using assms(1) by (simp add: tcp_room_def)
  show ?thesis
  proof (rule fixindex_cases [of "c_int_of_long (gi a)" w])
    fix k w1 assume "tcpserver_fixindex (c_int_of_long (gi a)) w = (k, w1)" "k < 0" "wstep w 0 [] [] w1"
    then show ?thesis using Cons tcpserver_step_world [OF inv assms(2)] by (auto simp: tcpserver_send_client_def)
  next
    fix k assume k: "tcpserver_fixindex (c_int_of_long (gi a)) w = (k, w)" "0 \<le> k" "nat k < x_nconnections w"
    show ?thesis
    proof (cases "rest = []")
      case True
      then show ?thesis
        using Cons k info_client_step [OF inv assms(2) k(3)] tcpserver_step_world [OF inv assms(2)]
        by (auto simp: tcpserver_send_client_def)
    next
      case False
      then show ?thesis
        using Cons k toclient_live [OF assms(1,2) k(3), of rest gi] assms(3) by (auto simp: tcpserver_send_client_def)
    qed
  qed
qed

lemma send_socket_step:
  assumes "tcp_room w" "mem_ok w" "length argv < 2147483648"
  shows "\<exists>w'. tcpserver_send_socket gi argv w = Inr w' \<and> tcpserver_step 0 w w'"
proof (cases argv)
  case Nil
  then show ?thesis using tcpserver_step_world [OF _ assms(2) wstep_emit] assms(1) by (simp add: tcpserver_send_socket_def tcp_room_def)
next
  case (Cons a rest)
  have inv: "tcp_inv w" using assms(1) by (simp add: tcp_room_def)
  obtain k where k: "tcpserver_socket2index (c_int_of_long (gi a)) w = Inr k" "k < 0 \<or> nat k < x_nconnections w"
    by (rule lookup_range [OF inv])
  show ?thesis
  proof (cases "k < 0 \<or> \<not> is_float a")
    case True
    then show ?thesis using Cons k tcpserver_step_refl [OF inv assms(2)] tcpserver_step_world [OF inv assms(2) wstep_emit]
      by (auto simp: tcpserver_send_socket_def)
  next
    case False
    then have "tcpserver_send_socket gi argv w = tcpserver_send_toclient gi (nat k) rest w"
      using Cons k by (simp add: tcpserver_send_socket_def tcpserver_send_toclient_def)
    then show ?thesis using toclient_live [OF assms(1,2), of "nat k" rest gi] k False assms(3) Cons by simp
  qed
qed

lemma defaultsend_step:
  assumes "tcp_room w" "mem_ok w" "length argv < 2147483648"
  shows "\<exists>w'. tcpserver_defaultsend gi argv w = Inr w' \<and> tcpserver_step 0 w w'"
proof -
  have inv: "tcp_inv w" using assms(1) by (simp add: tcp_room_def)
  have switch: "\<exists>w'. tcpserver_broadcast gi argv ((emit e w)\<lparr>x_defaulttarget := 0\<rparr>) = Inr w' \<and> tcpserver_step 0 w w'"
    if "opened_of e = None" "closed_of e = None" for e
  proof -
    let ?v = "(emit e w)\<lparr>x_defaulttarget := 0\<rparr>"
    have same: "tcp_addrs ?v = tcp_addrs w" "tcp_conns ?v = tcp_conns w" "tcp_fds ?v = tcp_fds w"
      by (simp_all add: tcp_addrs_def tcp_conns_def tcp_fds_def)
    have "tcp_inv ?v" using inv by (simp add: tcp_inv_def same) (simp add: table_ok_def)
    moreover have "mem_ok ?v" using assms(2) by (simp add: mem_ok_def)
    moreover have "tcp_room ?v" using assms(1) calculation(1) by (simp add: tcp_room_def)
    moreover have "tcpserver_step 0 w ?v"
      using calculation that by (simp add: tcpserver_step_def tcp_blocks_def same tcpserver_fds_def fd_balance_def)
    ultimately show ?thesis using broadcast_live(1) [of ?v argv gi] assms(3) tcpserver_step_trans [of 0 w ?v 0] by fastforce
  qed
  obtain k where k: "tcpserver_socket2index (x_defaulttarget w) w = Inr k" "k < 0 \<or> nat k < x_nconnections w"
    by (rule lookup_range [OF inv])
  obtain l where l: "tcpserver_socket2index (c_neg (x_defaulttarget w)) w = Inr l" "l < 0 \<or> nat l < x_nconnections w"
    by (rule lookup_range [OF inv])
  consider "x_defaulttarget w = 0" | "0 < x_defaulttarget w" | "x_defaulttarget w < 0" by linarith
  then show ?thesis
  proof cases
    case 1
    then show ?thesis using broadcast_live(1) [OF assms] by (simp add: tcpserver_defaultsend_def)
  next
    case 2
    then show ?thesis using k toclient_live [OF assms(1,2), of "nat k" argv gi] assms(3) switch
      by (cases "k < 0") (simp_all add: tcpserver_defaultsend_def Let_def)
  next
    case 3
    then show ?thesis using l broadcast_live(2) [OF assms, of "nat l" gi] switch
      by (cases "l < 0") (simp_all add: tcpserver_defaultsend_def Let_def)
  qed
qed


section \<open>Settings\<close>

lemma defaulttarget_step:
  assumes "tcp_inv w" "mem_ok w"
  shows "\<exists>w'. tcpserver_defaulttarget f w = Inr w' \<and> tcpserver_step 0 w w'"
proof (cases "nat \<bar>c_int f\<bar> > x_nconnections w")
  case True
  then show ?thesis using tcpserver_step_world [OF assms wstep_emit] by (simp add: tcpserver_defaulttarget_def Let_def)
next
  case False
  have set: "tcpserver_step 0 w (w\<lparr>x_defaulttarget := t\<rparr>)" for t
    by (rule tcpserver_step_fields [OF assms(1), where op = "[]" and cl = "[]"]) (use assms(2) in \<open>simp_all add: mem_ok_def\<close>)
  have "\<exists>x. sr_at (nat \<bar>c_int f\<bar> - 1) w = Inr x" if "0 < nat \<bar>c_int f\<bar>"
    using tcp_inv_entry [OF assms(1), of "nat \<bar>c_int f\<bar> - 1"] False that by (simp add: sr_at_def)
  then show ?thesis using False set by (auto simp: tcpserver_defaulttarget_def Let_def)
qed

lemma info_step:
  assumes "tcp_inv w" "mem_ok w"
  shows "tcpserver_step 0 w (tcpserver_info junk w)"
proof -
  define g where "g = sys_call ''getsockname'' [x_connectsocket w] w"
  obtain r w1 where w1: "g = (r, w1)" by fastforce
  have s1: "wstep w 0 [] [] w1" by (rule wstep_sys_call [OF _ _ w1 [unfolded g_def]]) simp_all
  note f1 = wstepD [OF s1] note c1 = world_more_cong [OF f1(1)]
  have rest: "wstep v 0 [] [] (emit (Outlet_anything Statusout s2 a2) (emit (Outlet_anything Statusout s1 a1)
      (iemnet__socket2addressout junk fd Statusout ad (snd (tcpserver_info_event SERVER_INFO v)))))"
    for v :: t_tcpserver and s1 s2 ad a1 a2 fd
    by (rule wstep_quiet [OF wstep_quiet [OF wstep_quiet [OF wstep_info_event wstep_outputs(1)] wstep_emit] wstep_emit]) simp_all
  have port: "tcpserver_step 0 w (w1\<lparr>x_port := p\<rparr>)" for p
    by (rule tcpserver_step_fields [OF assms(1), where op = "[]" and cl = "[]"])
      (use assms(2) f1 c1 in \<open>simp_all add: mem_ok_def\<close>)
  consider "x_connectsocket w < 0" | "0 \<le> x_connectsocket w" "x_port w > 0"
    | "0 \<le> x_connectsocket w" "x_port w \<le> 0" "a_ret r = 0" | "0 \<le> x_connectsocket w" "x_port w \<le> 0" "a_ret r \<noteq> 0" by linarith
  then show ?thesis
  proof cases
    case 1
    then show ?thesis using tcpserver_step_world [OF assms wstep_emit] by (simp add: tcpserver_info_def)
  next
    case 2
    then show ?thesis using tcpserver_step_world [OF assms rest] by (simp add: tcpserver_info_def Let_def)
  next
    case 3
    then show ?thesis using tcpserver_step_quiet [OF port rest] w1
      by (simp add: tcpserver_info_def Let_def g_def [symmetric])
  next
    case 4
    then show ?thesis using tcpserver_step_world [OF assms wstep_report [OF s1]] w1
      by (simp add: tcpserver_info_def Let_def g_def [symmetric])
  qed
qed

lemma maxconnections_step:
  assumes "tcp_inv w" "mem_ok w" "f \<le> 16777216" "pad = (\<lambda>_. None)"
  shows "tcpserver_step 0 w (tcpserver_maxconnections pad f w)" (is "tcpserver_step 0 w ?w")
proof -
  obtain ok w1 where m: "malloc w = (ok, w1)" by fastforce
  have ok: ok "mem_step w 1 w1" using mem_ok_malloc [OF assms(2)] mem_step_malloc [of w] m by auto
  have s: "w_live ?w = w_live w" "mem_ok ?w" "opened_fds (w_io ?w) = opened_fds (w_io w)" "closed_fds (w_io ?w) = closed_fds (w_io w)"
    "x_connectsocket ?w = x_connectsocket w" "x_floatlist ?w = x_floatlist w" "srs ?w = srs w"
    using ok assms(2) world_more_cong [of w1 w]
    by (auto simp: tcpserver_maxconnections_def m Let_def mem_step_def mem_ok_def)
  have inv: "tcp_inv ?w" "tcp_addrs ?w = tcp_addrs w"
    using maxconnections_result [OF assms(1,3), of pad] assms(4) by simp_all
  have "tcp_conns ?w = tcp_conns w" by (simp add: tcp_conns_def inv s)
  then show ?thesis using inv s by (simp add: tcpserver_step_def tcp_blocks_def tcpserver_fds_def tcp_fds_def fd_balance_def)
qed

section \<open>Listening\<close>

text \<open>The listening socket of before is given up.\<close>

lemma port_close_step:
  assumes "tcp_inv w" "mem_ok w"
  defines "v \<equiv> (if x_connectsocket w \<ge> 0
    then (iemnet__closesocket (x_connectsocket w) True (emit (Sys_rmpollfn (x_connectsocket w)) w))\<lparr>x_connectsocket := -1, x_port := -1\<rparr>
    else w)"
  shows "tcpserver_step 0 w v" "x_connectsocket v < 0"
proof -
  show "x_connectsocket v < 0" by (simp add: v_def)
  show "tcpserver_step 0 w v"
  proof (cases "0 \<le> x_connectsocket w")
    case True
    define u where "u = iemnet__closesocket (x_connectsocket w) True (emit (Sys_rmpollfn (x_connectsocket w)) w)"
    have "wstep w 0 [] [x_connectsocket w] u"
      unfolding u_def using wstep_close [OF wstep_emit True, of "Sys_rmpollfn (x_connectsocket w)" w True] by simp
    note f = wstepD [OF this] note c = world_more_cong [OF f(1)]
    have v: "v = u\<lparr>x_connectsocket := -1, x_port := -1\<rparr>" using True by (simp add: v_def u_def)
    show ?thesis
      by (rule tcpserver_step_fields [OF assms(1), where op = "[]" and cl = "[x_connectsocket w]"])
        (use assms(2) True f c in \<open>simp_all add: v mem_ok_def\<close>)
  next
    case False
    then show ?thesis using tcpserver_step_refl [OF assms(1,2)] by (simp add: v_def)
  qed
qed

text \<open>A new listening socket takes its place.\<close>

lemma port_listening_step:
  assumes "tcp_inv w" "mem_ok w" "x_connectsocket w < 0" "wstep w 0 [fd] [] w1" "0 \<le> fd"
    and "sys_call ''getsockname'' [fd] ((emit (Sys_addpollfn fd) w1)\<lparr>x_connectsocket := fd, x_port := p\<rparr>) = (g, w2)"
  defines "v \<equiv> (if a_ret g = 0 then w2\<lparr>x_port := uint (name_port (a_name g))\<rparr> else w2)"
  shows "tcpserver_step 0 w (emit (Outlet_anything Statusout ''port'' as) (iemnet__socket2addressout junk fd Statusout ''local_address'' v))"
proof -
  note f1 = wstepD [OF assms(4)] note c1 = world_more_cong [OF f1(1)]
  have "wstep ((emit (Sys_addpollfn fd) w1)\<lparr>x_connectsocket := fd, x_port := p\<rparr>) 0 [] [] w2"
    by (rule wstep_sys_call [OF _ _ assms(6)]) simp_all
  note f2 = wstepD [OF this] note c2 = world_more_cong [OF f2(1)]
  have m2: "mem_ok w2" using f1(3) f2(3) assms(2) by (simp add: mem_ok_def)
  have "tcpserver_step 0 w v"
    by (rule tcpserver_step_fields [OF assms(1), where op = "[fd]" and cl = "[]"])
      (use assms(3,5) f1 c1 f2 c2 m2 in \<open>simp_all add: v_def mem_ok_def\<close>)
  moreover have "wstep v 0 [] [] (emit (Outlet_anything Statusout ''port'' as) (iemnet__socket2addressout junk fd Statusout ''local_address'' v))"
    by (rule wstep_quiet [OF wstep_outputs(1) wstep_emit]) simp_all
  ultimately show ?thesis using tcpserver_step_quiet by fastforce
qed

text \<open>The part of \<^verbatim>\<open>tcpserver_port\<close> that opens the new socket, from the state \<open>w\<close> without one.\<close>

lemma port_open_step:
  assumes "tcp_inv w" "mem_ok w" "x_connectsocket w < 0" "sys_call ''socket'' [AF_INET, SOCK_STREAM, 0] w = (r, w1)"
    and "w2 = enable_option (a_ret r) 6 1 ''unable to enable immediate sending'' ''setsockopt:TCP_NODELAY''
      (enable_option (a_ret r) 1 15 ''unable to enable port re-using'' ''setsockopt:SO_REUSEPORT''
      (enable_option (a_ret r) 1 2 ''unable to enable address re-using'' ''setsockopt:SO_REUSEADDR'' w1))"
    and "sys_call ''bind'' ba w2 = (b, w3)" "sys_call ''listen'' la w3 = (l, w4)"
    and "sys_call ''getsockname'' [a_ret r] ((emit (Sys_addpollfn (a_ret r)) w4)\<lparr>x_connectsocket := a_ret r, x_port := p\<rparr>) = (g, w5)"
    and "failed = (\<lambda>m e v. emit (Outlet_anything Statusout ''port'' ap) (iemnet__closesocket (a_ret r) True
      (emit (Sys_sockerror e) (emit (Iemnet_log IEMNET_ERROR m []) v))))"
  shows "tcpserver_step 0 w
    (if a_ret r < 0 then emit (Sys_sockerror ''socket'') (emit (Iemnet_log IEMNET_ERROR ms []) w1)
     else if a_ret b < 0 then failed mb ''bind'' w3 else if a_ret l < 0 then failed ml ''listen'' w4
     else emit (Outlet_anything Statusout ''port'' as) (iemnet__socket2addressout junk (a_ret r) Statusout ''local_address''
       (if a_ret g = 0 then w5\<lparr>x_port := uint (name_port (a_name g))\<rparr> else w5)))"
proof -
  let ?fd = "a_ret r"
  note s = wstep_listen [OF assms(4-7)]
  have fail: "tcpserver_step 0 w (failed m e v)"
    if "wstep w 0 (if 0 \<le> ?fd then [?fd] else []) [] v" "0 \<le> ?fd" for m e v
    unfolding assms(9)
    by (rule tcpserver_step_world [OF assms(1,2) wstep_quiet [OF wstep_report_close [OF that] wstep_emit]]) simp_all
  consider (nosocket) "?fd < 0" | (nobind) "0 \<le> ?fd" "a_ret b < 0" | (nolisten) "0 \<le> ?fd" "0 \<le> a_ret b" "a_ret l < 0"
    | (ok) "0 \<le> ?fd" "0 \<le> a_ret b" "0 \<le> a_ret l" by linarith
  then show ?thesis
  proof cases
    case nosocket
    then show ?thesis using tcpserver_step_world [OF assms(1,2) wstep_report [OF s(1)]] by simp
  next
    case nobind
    then show ?thesis using fail [OF s(2)] by simp
  next
    case nolisten
    then show ?thesis using fail [OF s(3)] by simp
  next
    case ok
    then have "wstep w 0 [?fd] [] w4" using s(3) by simp
    from port_listening_step [OF assms(1-3) this ok(1) assms(8)] show ?thesis using ok by simp
  qed
qed

lemma port_step:
  assumes "tcp_inv w" "mem_ok w"
  shows "tcpserver_step 0 w (tcpserver_port junk f w)"
proof -
  define w1 where "w1 = snd (tcpserver_info_event SERVER_INFO w)"
  have s1: "wstep w 0 [] [] w1" unfolding w1_def by (rule wstep_info_event)
  have t1: "tcpserver_step 0 w w1" by (rule tcpserver_step_world [OF assms s1]) simp
  note c1 = world_more_cong [OF wstepD(1) [OF s1]]
  have m1: "tcp_inv w1" "mem_ok w1" using tcpserver_stepD [OF t1] by simp_all
  define w2 where "w2 = (if x_connectsocket w1 \<ge> 0
    then (iemnet__closesocket (x_connectsocket w1) True (emit (Sys_rmpollfn (x_connectsocket w1)) w1))\<lparr>x_connectsocket := -1, x_port := -1\<rparr>
    else w1)"
  note t2 = port_close_step [OF m1, folded w2_def]
  have m2: "tcp_inv w2" "mem_ok w2" using tcpserver_stepD [OF t2(1)] by simp_all
  obtain r w3 where w3: "sys_call ''socket'' [AF_INET, SOCK_STREAM, 0] w2 = (r, w3)" by fastforce
  define w4 where "w4 = enable_option (a_ret r) 6 1 ''unable to enable immediate sending'' ''setsockopt:TCP_NODELAY''
    (enable_option (a_ret r) 1 15 ''unable to enable port re-using'' ''setsockopt:SO_REUSEPORT''
    (enable_option (a_ret r) 1 2 ''unable to enable address re-using'' ''setsockopt:SO_REUSEADDR'' w3))"
  obtain b w5 where w5: "sys_call ''bind'' [a_ret r, 0, uint (word_of_int (c_int f) :: 16 word)] w4 = (b, w5)" by fastforce
  obtain l w6 where w6: "sys_call ''listen'' [a_ret r, 5] w5 = (l, w6)" by fastforce
  obtain g w7 where
    w7: "sys_call ''getsockname'' [a_ret r] ((emit (Sys_addpollfn (a_ret r)) w6)\<lparr>x_connectsocket := a_ret r, x_port := c_int f\<rparr>) = (g, w7)"
    by fastforce
  note t3 = port_open_step [OF m2 t2(2) w3 w4_def w5 w6 w7 refl]
  show ?thesis
  proof (cases "x_port w = c_int f")
    case True
    then show ?thesis using t1 c1 by (simp add: tcpserver_port_def w1_def [symmetric] Let_def)
  next
    case False
    then have "tcpserver_step 0 w2 (tcpserver_port junk f w)"
      unfolding tcpserver_port_def w1_def [symmetric] Let_def c1 [symmetric]
      unfolding w2_def [symmetric] by (simp add: w3 w4_def [symmetric] w5 w6 w7 split del: if_split cong: if_cong) (rule t3)
    then show ?thesis using tcpserver_step_trans [OF tcpserver_step_trans [OF t1 t2(1)]] by simp
  qed
qed

section \<open>Connection requests\<close>

lemma socketreceiver_new_step:
  assumes "mem_ok w" "0 \<le> fd" "fd \<le> 16777216"
  obtains a x w' where "tcpserver_socketreceiver_new fd addr k w = Inr (Some a, w')"
    "a \<notin> heap_dom (srs w)" "sr_ok a x" "sr_fd x = fd" "mem_ok w'" "w_live w' = w_live w + sr_blocks x"
    "opened_fds (w_io w') = opened_fds (w_io w)" "closed_fds (w_io w') = closed_fds (w_io w)"
    "world.more w' = world.more (w\<lparr>srs := heap_put (srs w) a x\<rparr>)"
proof -
  obtain o1 w1 where m1: "malloc w = (o1, w1)" by fastforce
  have ok: o1 "mem_step w 1 w1" using mem_ok_malloc [OF assms(1)] mem_step_malloc [of w] by (auto simp: m1)
  note s1 = wstep_mem [OF ok(2)]
  let ?a = "heap_fresh (srs w)" and ?h = "ntohl (sin_addr addr)"
  have srs1: "srs w1 = srs w" using world_more_cong(4) [OF wstepD(1) [OF s1]] .
  obtain s w2 where w2: "iemnet__sender_create fd None None w1 = Inr (s, w2)" "wstep w1 (sender_blocks s) [] [] w2"
    "case s of None \<Rightarrow> True | Some s \<Rightarrow> sender_inv s \<and> s_sockfd s = fd \<and> s_isrunning s \<and> s_queue s = Some queue_empty"
    by (rule sender_create_wstep [OF wstepD(3) [OF s1 assms(1)]])
  obtain rc w3 where w3: "iemnet__receiver_create fd (Some ?a) False w2 = (rc, w3)" by fastforce
  have rc: "case rc of None \<Rightarrow> True | Some r \<Rightarrow> r_userdata r = Some ?a \<and> r_sockfd r = fd"
    using w3 by (auto simp: iemnet__receiver_create_def case_prod_beta split: if_splits)
  define x where "x = \<lparr>sr_owner = True, sr_host = ?h, sr_port = ntohs (sin_port addr), sr_fd = fd, sr_client = k,
    sr_sender = s, sr_receiver = rc, sr_hostname = dotted_quads ?h\<rparr>"
  have "wstep w (1 + sender_blocks s + receiver_blocks rc) [] [] w3"
    using wstep_trans [OF wstep_trans [OF s1 w2(2)] wstep_receiver_create [OF w3]] by simp
  note f = wstepD [OF this] note c = world_more_cong [OF f(1)]
  have run: "tcpserver_socketreceiver_new fd addr k w = Inr (Some ?a, w3\<lparr>srs := heap_put (srs w3) ?a x\<rparr>)"
    using ok(1) by (simp add: tcpserver_socketreceiver_new_def m1 srs1 w2(1) w3 Let_def x_def)
  show thesis
  proof (rule that [OF run, where x = x])
    show "world.more (w3\<lparr>srs := heap_put (srs w3) ?a x\<rparr>) = world.more (w\<lparr>srs := heap_put (srs w) ?a x\<rparr>)"
      using f(1) c(4) by (cases w; cases w3) simp
    show "sr_ok ?a x" using assms(2,3) w2(3) rc by (auto simp: sr_ok_def x_def split: option.splits)
  qed (use f assms(1) heap_fresh_notin in \<open>simp_all add: x_def sr_blocks_def receiver_blocks_def\<close>)
qed

text \<open>The new connection enters the table.\<close>

lemma accept_step:
  assumes "tcp_inv w" "mem_ok w" "wstep w 0 [fd] [] w1" "0 \<le> fd" "fd \<le> 16777216" "fd \<notin> set (tcp_fds w)"
    and "x_nconnections w < x_maxconnections w"
  obtains a x w2 where "tcpserver_socketreceiver_new fd addr (x_nconnections w1) w1 = Inr (Some a, w2)"
    "map_of (srs w2) a = Some x" "x_nconnections w2 = x_nconnections w" "x_sr w2 = x_sr w"
    "tcpserver_step 0 w (w2\<lparr>x_sr := (x_sr w)[x_nconnections w := Some a], x_nconnections := x_nconnections w + 1\<rparr>)"
proof -
  note f1 = wstepD [OF assms(3)] note c1 = world_more_cong [OF f1(1)] note g1 = tcp_more_cong [OF f1(1)]
  obtain a x w2 where w2: "tcpserver_socketreceiver_new fd addr (x_nconnections w1) w1 = Inr (Some a, w2)"
    "a \<notin> heap_dom (srs w1)" "sr_ok a x" "sr_fd x = fd" "mem_ok w2" "w_live w2 = w_live w1 + sr_blocks x"
    "opened_fds (w_io w2) = opened_fds (w_io w1)" "closed_fds (w_io w2) = closed_fds (w_io w1)"
    "world.more w2 = world.more (w1\<lparr>srs := heap_put (srs w1) a x\<rparr>)"
    by (rule socketreceiver_new_step [OF f1(3) [OF assms(2)] assms(4,5)])
  note c2 = world_more_cong [OF w2(9)]
  let ?w = "w2\<lparr>x_sr := (x_sr w)[x_nconnections w := Some a], x_nconnections := x_nconnections w + 1\<rparr>"
  have a: "a \<notin> heap_dom (srs w)" using w2(2) c1 by simp
  have "sr_fd x \<notin> set (tcp_fds w)" using w2(4) assms(6) by simp
  then have t: "tcp_inv ?w" "tcp_conns ?w = tcp_conns w @ [x]"
    by (intro table_ok_grow [OF assms(1,7) a w2(3)]; simp add: c1 c2)+
  have "tcpserver_step 0 w ?w"
    using t w2 f1 c1 c2
    by (simp add: tcpserver_step_def tcp_blocks_def tcpserver_fds_def tcp_fds_def fd_balance_def)
  moreover have "map_of (srs w2) a = Some x" using c2 by simp
  ultimately show thesis using that w2(1) c1 c2 by simp
qed

lemma refuse_step:
  assumes "tcp_inv w" "mem_ok w" "sys_call ''accept'' [x_connectsocket w] w = (r, w0)"
    and "\<not> (0 \<le> a_ret r \<and> x_accepting w \<noteq> 0 \<and> x_nconnections w < x_maxconnections w)"
  shows "\<exists>w'. tcpserver_connectpoll (x_connectsocket w) w = Inr w' \<and> tcpserver_step 0 w w'"
proof -
  let ?fd = "a_ret r"
  define w1 where "w1 = snd (tcpserver_info_event CONNECT w0)"
  have s0: "wstep w 0 (if 0 \<le> ?fd then [?fd] else []) [] w0" by (rule wstep_open [OF _ assms(3)]) simp
  have s1: "wstep w 0 (if 0 \<le> ?fd then [?fd] else []) [] w1"
    unfolding w1_def by (rule wstep_quiet [OF s0 wstep_info_event])
  let ?out = "\<lambda>v. iemnet__numconnout (Some Statusout) (Some Connectout) (int (x_nconnections v)) v"
  have out: "wstep v 0 [] [] (?out v)" for v by (rule wstep_outputs(2))
  note run = tcpserver_connectpoll_def assms(3) w1_def [symmetric] Let_def
    world_more_cong [OF wstepD(1) [OF s1]] world_more_cong [OF wstepD(1) [OF s0]]
  consider "?fd < 0" | "0 \<le> ?fd" "x_accepting w = 0" | "0 \<le> ?fd" "x_accepting w \<noteq> 0" "x_maxconnections w \<le> x_nconnections w"
    using assms(4) by linarith
  then show ?thesis
  proof cases
    case 1
    have "wstep w 0 (if 0 \<le> ?fd then [?fd] else []) [] (?out (emit (Post ''tcpserver: accept failed'') w1))"
      by (rule wstep_quiet [OF wstep_quiet [OF s1 wstep_emit] out]) simp_all
    from tcpserver_step_world [OF assms(1,2) this] show ?thesis using 1 by (simp add: run)
  next
    case 2
    have "wstep w 0 (if 0 \<le> ?fd then [?fd] else []) ([] @ [?fd]) (?out (iemnet__closesocket ?fd True w1))"
      by (rule wstep_quiet [OF wstep_close [OF s1 2(1)] out])
    from tcpserver_step_world [OF assms(1,2) this] show ?thesis using 2 by (simp add: run)
  next
    case 3
    let ?e = "Iemnet_log IEMNET_ERROR ''cannot handle more than %d connections, dropping!'' [L_int (int (x_nconnections w))]"
    have "wstep w 0 (if 0 \<le> ?fd then [?fd] else []) ([] @ [?fd]) (iemnet__closesocket ?fd True (emit ?e w1))"
      by (rule wstep_close [OF wstep_quiet [OF s1 wstep_emit] 3(1)]) simp_all
    from tcpserver_step_world [OF assms(1,2) this] show ?thesis using 3 by (simp add: run)
  qed
qed

lemma connectpoll_step:
  assumes "tcp_inv w" "mem_ok w" "case w_sys w of [] \<Rightarrow> True | r # _ \<Rightarrow> a_ret r \<le> 16777216 \<and> a_ret r \<notin> set (tcp_fds w)"
  shows "\<exists>w'. tcpserver_connectpoll fd w = Inr w' \<and> tcpserver_step 0 w w'"
proof (cases "fd = x_connectsocket w")
  case False
  then show ?thesis using tcpserver_step_world [OF assms(1,2) wstep_emit] by (simp add: tcpserver_connectpoll_def)
next
  case True
  obtain r w0 where w0: "sys_call ''accept'' [x_connectsocket w] w = (r, w0)" by fastforce
  let ?fd = "a_ret r"
  show ?thesis
  proof (cases "0 \<le> ?fd \<and> x_accepting w \<noteq> 0 \<and> x_nconnections w < x_maxconnections w")
    case False
    with refuse_step [OF assms(1,2) w0] True show ?thesis by simp
  next
    case acc: True
    define w1 where "w1 = snd (tcpserver_info_event CONNECT w0)"
    have new: "?fd \<le> 16777216 \<and> ?fd \<notin> set (tcp_fds w)"
      using w0 assms(3) acc by (auto simp: sys_call_def sys_answer_def split: list.splits)
    have s0: "wstep w 0 [?fd] [] w0" using wstep_open [OF _ w0] acc by simp
    have s1: "wstep w 0 [?fd] [] w1" unfolding w1_def by (rule wstep_quiet [OF s0 wstep_info_event])
    note run = tcpserver_connectpoll_def w0 w1_def [symmetric] Let_def
      world_more_cong [OF wstepD(1) [OF s1]] world_more_cong [OF wstepD(1) [OF s0]]
    obtain a x w2 where w2: "tcpserver_socketreceiver_new ?fd (a_from r) (x_nconnections w1) w1 = Inr (Some a, w2)"
      "map_of (srs w2) a = Some x" "x_nconnections w2 = x_nconnections w" "x_sr w2 = x_sr w"
      "tcpserver_step 0 w (w2\<lparr>x_sr := (x_sr w)[x_nconnections w := Some a], x_nconnections := x_nconnections w + 1\<rparr>)"
      by (rule accept_step [OF assms(1,2) s1]) (use new acc in simp_all)
    let ?w = "w2\<lparr>x_sr := (x_sr w)[x_nconnections w := Some a], x_nconnections := x_nconnections w + 1\<rparr>"
    have "wstep ?w 0 [] [] (iemnet__numconnout (Some Statusout) (Some Connectout)
        (int (x_nconnections (tcpserver_info_connection x ILLEGAL ?w))) (tcpserver_info_connection x ILLEGAL ?w))"
      by (rule wstep_quiet [OF wstep_info_connection wstep_outputs(2)])
    from tcpserver_step_quiet [OF w2(5) this] show ?thesis
      using acc True w2 tcp_inv_length(5) [OF assms(1)] by (simp add: run)
  qed
qed

section \<open>Receiving\<close>

lemma receive_gone_step:
  assumes "tcp_room w" "mem_ok w" "i < x_nconnections w"
  shows "\<exists>w'. tcpserver_receive_callback (Some (tcp_addrs w ! i)) None w = Inr w' \<and> tcpserver_step 0 w w'"
proof -
  have inv: "tcp_inv w" using assms(1) by (simp add: tcp_room_def)
  note e = tcp_inv_entry [OF inv assms(3)]
  have own: "sr_owner (tcp_conns w ! i)" using e(3) by (simp add: sr_ok_def)
  let ?e = "Iemnet_log IEMNET_VERBOSE ''got disconnection for socket:%d'' [L_int (sr_fd (tcp_conns w ! i))]"
  have s: "wstep w 0 [] [] (emit ?e w)" by (rule wstep_emit) simp_all
  have "tcp_room (emit ?e w)" "mem_ok (emit ?e w)" using assms(1,2) room_cong [OF s] by simp_all
  from disconnect_socket_step [OF this] obtain w' where
    w': "tcpserver_disconnect_socket (t_float_of_int (sr_fd (tcp_conns w ! i))) (emit ?e w) = Inr w'" "tcpserver_step 0 (emit ?e w) w'"
    by blast
  have "tcpserver_step 0 w (emit ?e w)" by (rule tcpserver_step_world [OF inv assms(2) s]) simp
  then show ?thesis using w' e(2) own tcpserver_step_trans [of 0 w "emit ?e w" 0]
    by (simp add: tcpserver_receive_callback_def)
qed

lemma receive_data_step:
  assumes "tcp_inv w" "mem_ok w" "i < x_nconnections w" "wf_chunk c"
  shows "\<exists>w'. tcpserver_receive_callback (Some (tcp_addrs w ! i)) (Some c) w = Inr w' \<and> tcpserver_step 0 w w'"
proof -
  note e = tcp_inv_entry [OF assms(1,3)]
  have own: "sr_owner (tcp_conns w ! i)" using e(3) by (simp add: sr_ok_def)
  define w1 where "w1 = tcpserver_info_connection (tcp_conns w ! i) RECEIVE w"
  have s1: "wstep w 0 [] [] w1" unfolding w1_def by (rule wstep_info_connection)
  note f1 = wstepD [OF s1] note c1 = world_more_cong [OF f1(1)]
  have "case x_floatlist w1 of None \<Rightarrow> True | Some fl \<Rightarrow> wf_floatlist fl" "mem_ok w1"
    using assms(1,2) c1 f1(3) by (simp_all add: tcp_inv_def table_ok_def)
  then obtain fl w2 where w2: "iemnet__chunk2list (Some c) (x_floatlist w1) w1 = Inr (Some fl, w2)"
    "world.more w2 = world.more w1" "w_io w2 = w_io w1" "mem_ok w2" "wf_floatlist fl"
    "w_live w2 = w_live w1 + (if x_floatlist w1 = None then 2 else 0)"
    using assms(4) by (metis (no_types, lifting) chunk2list_ok)
  note c2 = world_more_cong [OF w2(2)]
  define w3 where "w3 = w2\<lparr>x_floatlist := Some fl\<rparr>"
  have same: "tcp_addrs w3 = tcp_addrs w" "tcp_conns w3 = tcp_conns w" "tcp_fds w3 = tcp_fds w"
    by (simp_all add: w3_def tcp_addrs_def tcp_conns_def tcp_fds_def c1 c2)
  have "tcp_inv w3" using assms(1) w2(5) by (simp add: tcp_inv_def same) (simp add: table_ok_def w3_def c1 c2)
  then have s3: "tcpserver_step 0 w w3"
    using w2 f1 c1 c2 same by (simp add: tcpserver_step_def tcp_blocks_def tcpserver_fds_def fd_balance_def w3_def mem_ok_def)
  obtain w4 where w4: "iemnet__streamout (Some Msgout) (int (fl_argc fl)) (case fl_argv fl of None \<Rightarrow> [] | Some av \<Rightarrow> av)
      (x_serialize w \<noteq> 0) w3 = Inr w4" "world.more w4 = world.more w3" "w_malloc w4 = w_malloc w3"
    "opened_fds (w_io w4) = opened_fds (w_io w3)" "closed_fds (w_io w4) = closed_fds (w_io w3)" "w_live w4 = w_live w3"
    by (rule streamout_fds [OF w2(5)])
  then have "wstep w3 0 [] [] w4" by (simp add: wstep_def mem_ok_def)
  from tcpserver_step_quiet [OF s3 this] show ?thesis
    using e(2) own w2(1) w4(1) c1 c2 unfolding w3_def
    by (simp add: tcpserver_receive_callback_def w1_def [symmetric] Let_def)
qed

lemma receive_step:
  assumes "tcp_inv w" "mem_ok w" "a \<in> set (tcp_addrs w)" "case c of None \<Rightarrow> tcp_room w | Some c \<Rightarrow> wf_chunk c"
  shows "\<exists>w'. tcpserver_receive_callback (Some a) c w = Inr w' \<and> tcpserver_step 0 w w'"
proof -
  obtain i where "i < x_nconnections w" "a = tcp_addrs w ! i"
    using assms(3) tcp_inv_length(1) [OF assms(1)] by (auto simp: in_set_conv_nth)
  then show ?thesis using receive_gone_step [OF _ assms(2)] receive_data_step [OF assms(1,2)] assms(4)
    by (cases c) simp_all
qed

section \<open>Creation, deletion and the threads\<close>

lemma free_entry_opened: "res_fold free_entry is w = Inr w' \<Longrightarrow> opened_fds (w_io w') = opened_fds (w_io w)"
proof (induction "is" arbitrary: w)
  case (Cons i "is")
  then obtain w1 where w1: "free_entry i w = Inr w1" "res_fold free_entry is w1 = Inr w'" by (auto simp: res_simps)
  have "opened_fds (w_io w1) = opened_fds (w_io w)"
    using w1(1) by (auto simp: free_entry_def res_simps split: if_splits dest!: socketreceiver_free_opened)
  with Cons.IH [OF w1(2)] show ?case by simp
qed simp

lemma tcpserver_free_step:
  assumes "tcp_inv w" "fd_balance (w_io w) (tcpserver_fds w)"
  shows "\<exists>w'. tcpserver_free w = Inr w' \<and> w_live w' = w_live w - tcp_blocks w \<and> fd_balance (w_io w') []"
proof -
  obtain w' where w': "tcpserver_free w = Inr w'" "w_live w' = w_live w - tcp_blocks w"
    "closed_fds (w_io w') = closed_fds (w_io w) @ tcp_fds w @ (if 0 \<le> x_connectsocket w then [x_connectsocket w] else [])"
    using free_ok [OF assms(1)] by blast
  have io: "w_io (iemnet__floatlist_destroy fl v) = w_io v" for fl and v :: t_tcpserver
    by (simp add: iemnet__floatlist_destroy_def split: option.splits)
  have "opened_fds (w_io w') = opened_fds (w_io w)"
  proof (cases "res_fold free_entry [0..<x_maxconnections w] w")
    case (Inl e)
    then show ?thesis using w'(1) unfolding tcpserver_free_def by simp
  next
    case (Inr w1)
    then show ?thesis using w'(1) free_entry_opened [OF Inr] unfolding tcpserver_free_def Let_def by (auto simp: io)
  qed
  with w' assms(2) show ?thesis by (auto simp: fd_balance_def tcpserver_fds_def ac_simps)
qed

lemma tcpserver_new_step:
  assumes "mem_ok w" "fd_balance (w_io w) []"
  obtains w' where "tcpserver_new junk f w = Inr w'" "tcp_inv w'" "mem_ok w'" "fd_balance (w_io w') (tcpserver_fds w')"
    "w_live w' - tcp_blocks w' = w_live w"
proof -
  obtain ok w1 where m: "malloc w = (ok, w1)" by fastforce
  from mem_ok_malloc [OF assms(1)] mem_step_malloc [of w] m have ok: ok "mem_step w 1 w1" by auto
  have ok1: "mem_ok w1" using ok(2) assms(1) by (simp add: mem_step_def)
  obtain fl w2 where fl: "iemnet__floatlist_create 1024 w1 = Inr (Some fl, w2)" "mem_step w1 2 w2" "wf_floatlist fl"
    using floatlist_create_result [of 1024 w1] ok1 by auto
  define w3 :: t_tcpserver where "w3 = \<lparr>w_io = w_io w2, w_sys = w_sys w2, w_malloc = w_malloc w2, w_live = w_live w2,
    w_errno = w_errno w2, x_serialize = 1, x_accepting = 1, x_sr = replicate MAX_CONNECT None, x_nconnections = 0,
    x_maxconnections = MAX_CONNECT, x_connectsocket = -1, x_port = -1, x_defaulttarget = 0,
    x_floatlist = Some fl, srs = []\<rparr>"
  have run: "tcpserver_new junk f w = Inr (tcpserver_port junk f w3)"
    using ok(1) by (simp add: tcpserver_new_def m fl(1) w3_def)
  have inv: "tcp_inv w3" using fl(3) by (simp add: tcp_inv_def table_ok_def tcp_addrs_def w3_def)
  have conns: "tcp_conns w3 = []" by (simp add: tcp_conns_def tcp_addrs_def w3_def)
  have w3: "mem_ok w3" "w_io w3 = w_io w" "w_live w3 = w_live w + 3"
    using ok(2) fl(2) ok1 by (simp_all add: mem_step_def w3_def mem_ok_def)
  have "fd_balance (w_io w3) (tcpserver_fds w3)" "tcp_blocks w3 = 3"
    using assms(2) w3(2) conns by (simp_all add: tcpserver_fds_def tcp_fds_def tcp_blocks_def) (simp_all add: w3_def)
  then show thesis
    using that [OF run] port_step [OF inv w3(1), of junk f] w3(3) by (simp add: tcpserver_step_def)
qed

lemma tcpserver_env_step:
  assumes "tcp_inv w" "mem_ok w" "tcpserver_env w w'"
  shows "tcpserver_step 0 w w'"
proof (cases "idle w w'")
  case True
  then show ?thesis using tcpserver_step_world [OF assms(1,2) idle_wstep] by simp
next
  case False
  then obtain i s where i: "i < x_nconnections w" "thread_works (sr_sender (tcp_conns w ! i)) w s w'"
    "world.more w' = world.more (w\<lparr>srs := heap_put (srs w) (tcp_addrs w ! i) ((tcp_conns w ! i)\<lparr>sr_sender := s\<rparr>)\<rparr>)"
    using assms(3) by (auto simp: tcpserver_env_def Let_def)
  have "case sr_sender (tcp_conns w ! i) of None \<Rightarrow> True | Some s \<Rightarrow> s_sockfd s = tcp_fds w ! i"
    using tcp_inv_entry(3) [OF assms(1) i(1)] i(1) tcp_inv_length [OF assms(1)]
    by (auto simp: sr_ok_def tcp_fds_def split: option.splits)
  then have s: "case s of None \<Rightarrow> True | Some s \<Rightarrow> sender_inv s \<and> s_sockfd s = tcp_fds w ! i"
    using i(2) by (auto simp: thread_works_def split: option.splits)
  show ?thesis
    by (rule sender_update_step(1) [OF assms(1,2) i(1) s i(3)])
      (use i(2) in \<open>auto simp: thread_works_def fd_silent_def\<close>)
qed

section \<open>The object keeps its promises\<close>

lemma tcpserver_method_ok:
  assumes "tcp_inv w" "mem_ok w" "tcpserver_safe m w"
  shows "\<exists>w'. tcpserver_method gi junk m w = Inr w' \<and> tcpserver_step 0 w w'"
proof (cases m)
  case (TV_disconnect_client f)
  then show ?thesis using disconnect_client_step assms by simp
next
  case (TV_disconnect_socket f)
  then show ?thesis using disconnect_socket_step assms by simp
next
  case TV_disconnect_all
  then show ?thesis using disconnect_all_step assms by (simp add: tcpserver_disconnect_all_def)
next
  case (TV_send_socket argv)
  then show ?thesis using send_socket_step assms by simp
next
  case (TV_send_client argv)
  then show ?thesis using send_client_msg_step assms by simp
next
  case (TV_broadcast argv)
  then show ?thesis using broadcast_live(1) assms by simp
next
  case (TV_defaultsend argv)
  then show ?thesis using defaultsend_step assms by simp
next
  case (TV_defaulttarget f)
  then show ?thesis using defaulttarget_step assms by simp
next
  case (TV_maxconnections pad f)
  then show ?thesis using maxconnections_step assms by simp
next
  case (TV_connectpoll fd)
  then show ?thesis using connectpoll_step assms by simp
next
  case (TV_receive a c)
  then show ?thesis using receive_step assms by simp
next
  case (TV_port f)
  then show ?thesis using port_step assms by simp
next
  case TV_info
  then show ?thesis using info_step assms by simp
qed (auto simp: tcpserver_targetsocket_def tcpserver_serialize_def tcpserver_accept_def
    intro!: tcpserver_step_fields [OF assms(1), where op = "[]" and cl = "[]"] simp: assms(2) [unfolded mem_ok_def] mem_ok_def)

interpretation tv_life: pd_mortal_object tcp_inv tcpserver_safe "tcpserver_method gi junk" tcpserver_env tcp_blocks tcpserver_fds
    tcpserver_free "\<lambda>_. True"
  for gi junk
proof (unfold_locales, goal_cases)
  case (1 w m)
  with tcpserver_method_ok [of w m gi junk] show ?case by (auto simp: tcpserver_step_def)
next
  case (2 w w')
  with tcpserver_env_step [of w w'] show ?case by (auto simp: tcpserver_step_def)
next
  case (3 w m w')
  with tcpserver_method_ok [of w m gi junk] show ?case by (auto simp: tcpserver_step_def)
next
  case (4 w w')
  with tcpserver_env_step [of w w'] show ?case by (auto simp: tcpserver_step_def)
next
  case (5 w)
  then show ?case by (intro tcpserver_free_step)
qed

text \<open>
  C7. The life of a \<^verbatim>\<open>tcpserver\<close> object: whatever connections are made and lost, whatever is sent and received and whatever its
  send threads and the operating system do, it can handle the next message and never has more clients than its limit, as
  long as connections are ended only while two cells of the table are free. Deleting it gives back all its memory and
  closes every socket it opened, the listening ones included, once.
\<close>

theorem tcpserver_life:
  assumes "mem_ok w0" "fd_balance (w_io w0) []" "tcpserver_new junk fportno w0 = Inr w1"
    and "obj_run tcpserver_safe (tcpserver_method gi junk) tcpserver_env w1 w"
  shows "(\<forall>m. tcpserver_safe m w \<longrightarrow> (\<exists>w'. tcpserver_method gi junk m w = Inr w')) \<and>
    length (tcp_clients w) = x_nconnections w \<and> x_nconnections w \<le> x_maxconnections w \<and>
    (\<exists>w'. tcpserver_free w = Inr w' \<and> w_live w' = w_live w0 \<and> mset (opened_fds (w_io w')) = mset (closed_fds (w_io w')))"
proof -
  have w1: "tcp_inv w1" "mem_ok w1" "fd_balance (w_io w1) (tcpserver_fds w1)" "w_live w1 - tcp_blocks w1 = w_live w0"
    by (rule tcpserver_new_step [OF assms(1,2), of junk fportno], use assms(3) in simp)+
  then have inv: "tcp_inv w" using tv_life.run_ok [OF assms(4)] by simp
  then have "length (tcp_clients w) = x_nconnections w" "x_nconnections w \<le> x_maxconnections w"
    by (simp_all add: tcp_inv_length) (simp add: tcp_inv_def table_ok_def)
  then show ?thesis using tv_life.life [OF assms(4) w1] by simp
qed

text \<open>A server that is moved to another port and asked for its state.\<close>

definition tcpserver_sample :: world where
  "tcpserver_sample = world0\<lparr>w_sys := [sys_ret 5, sys_ret 0, sys_ret 0, sys_ret 0, sys_ret 0, sys_ret 0, sys_ret (-1), sys_ret 0, sys_ret 6]\<rparr>"

theorem tcpserver_life_witness:
  "\<exists>w1 w w'. tcpserver_new ''?'' 3000 tcpserver_sample = Inr w1 \<and>
    res_fold (tcpserver_method sample_getint ''?'') [TV_port 4000, TV_info, TV_accept 0] w1 = Inr w \<and>
    tcpserver_free w = Inr w' \<and> w_live w' = 0 \<and> mset (opened_fds (w_io w')) = mset (closed_fds (w_io w'))"
proof -
  let ?ms = "[TV_port 4000, TV_info, TV_accept 0]"
  have w0: "mem_ok tcpserver_sample" "fd_balance (w_io tcpserver_sample) []" "w_live tcpserver_sample = 0"
    by (simp_all add: tcpserver_sample_def mem_ok_def fd_balance_def world0_def)
  have safe: "list_all (\<lambda>m. \<forall>w. tcpserver_safe m w) ?ms" by auto
  obtain w1 where w1: "tcpserver_new ''?'' 3000 tcpserver_sample = Inr w1" "tcp_inv w1" "mem_ok w1"
    by (rule tcpserver_new_step [OF w0(1,2), of "''?''" 3000])
  obtain w where w: "res_fold (tcpserver_method sample_getint ''?'') ?ms w1 = Inr w"
    using tv_life.messages_ok [OF w1(2,3) safe, of sample_getint "''?''"] by blast
  from tcpserver_life [OF w0(1,2) w1(1) obj_run_messages [OF w safe run_start]] w1(1) w w0(3) show ?thesis by auto
qed

end
