(* ===== verification/Udp_Server.thy ===== *)
theory Udp_Server
  imports Object_Common
begin

text \<open>
  The object of \<^verbatim>\<open>udpserver.c\<close>: one datagram socket, and a table of the peers it has received from, each
  with a sender of its own on that socket. Peers are forgotten when they have not been heard of for a while.
  As in the TCP server, handlers are modelled from start to end.
\<close>

unbundle bit_operations_syntax

section \<open>State\<close>

record t_udpserver_sender =
  usr_owner :: bool
  usr_host :: "32 word"
  usr_port :: "16 word"
  usr_hostname :: string
  usr_uniq :: int
  usr_sender :: "t_iemnet_sender option"
  usr_lastseen :: rat

text \<open>
  \<open>u_uniq\<close> is the static counter of \<^verbatim>\<open>udpserver_sender_new\<close>. Pd's clock does not move while a handler
  runs: \<open>u_logicaltime\<close> is what \<^verbatim>\<open>clock_getlogicaltime\<close> returns, \<open>u_timesince\<close> what \<^verbatim>\<open>clock_gettimesince\<close>
  returns for an earlier logical time.
\<close>

record t_udpserver = world +
  u_sr :: "ptr list"
  u_nconnections :: nat
  u_maxconnections :: nat
  u_connectsocket :: int
  u_port :: "16 word"
  u_ifaddr :: "string option"
  u_accept :: "8 word"
  u_timeout :: rat
  u_lastchecked :: rat
  u_defaulttarget :: int
  u_receiver :: "t_iemnet_receiver option"
  u_floatlist :: "t_iemnet_floatlist option"
  u_senders :: "t_udpserver_sender heap"
  u_uniq :: int
  u_logicaltime :: rat
  u_timesince :: "rat \<Rightarrow> rat"

section \<open>The table of peers\<close>

definition udpserver_sender_new :: "32 word \<Rightarrow> 16 word \<Rightarrow> t_udpserver \<Rightarrow> (ptr \<times> t_udpserver) res" where
  "udpserver_sender_new host port w =
     (let (ok, w) = malloc w in
      if \<not> ok
      then Inr (None, emit (Iemnet_log IEMNET_FATAL ''unable to allocate %d bytes to create sender'' []) w)
      else
        let a = heap_fresh (u_senders w); uniq = u_uniq w; w = w\<lparr>u_uniq := u_uniq w + 1\<rparr> in
        res_bind (iemnet__sender_create (u_connectsocket w) None None w) (\<lambda>(sender, w).
          let x = \<lparr>usr_owner = True, usr_host = host, usr_port = port, usr_hostname = dotted_quads host,
                   usr_uniq = uniq, usr_sender = sender, usr_lastseen = u_logicaltime w\<rparr>
          in Inr (Some a, w\<lparr>u_senders := heap_put (u_senders w) a x\<rparr>)))"

definition udpserver_sender_free :: "ptr \<Rightarrow> t_udpserver \<Rightarrow> t_udpserver res" where
  "udpserver_sender_free p w = (case p of None \<Rightarrow> Inr w
     | Some a \<Rightarrow> res_bind (heap_get (u_senders w) p) (\<lambda>x.
         let sockfd = usr_uniq x;
             w = free (w\<lparr>u_senders := heap_free (u_senders w) a\<rparr>)
         in res_bind (case usr_sender x of None \<Rightarrow> Inr w | Some s \<Rightarrow> iemnet__sender_destroy s w) (\<lambda>w.
              Inr (if sockfd \<ge> 0 then iemnet__closesocket sockfd True w else w))))"

definition usr_at :: "nat \<Rightarrow> t_udpserver \<Rightarrow> t_udpserver_sender res" where
  "usr_at i w = res_bind (arr_get (u_sr w) i) (heap_get (u_senders w))"

definition udpserver_socket2index :: "int \<Rightarrow> t_udpserver \<Rightarrow> int res" where
  "udpserver_socket2index sockfd w =
     index_loop (\<lambda>i. res_bind (usr_at i w) (\<lambda>x. Inr (usr_uniq x = sockfd))) [0..<u_nconnections w]"

definition udpserver_fixindex :: "int \<Rightarrow> t_udpserver \<Rightarrow> int \<times> t_udpserver" where
  "udpserver_fixindex client w =
     (let out_of_range = Iemnet_log IEMNET_ERROR ''client:%d out of range [1..%d]''
                           [L_int client, L_int (int (u_nconnections w))]
      in if client < 1 then (-1, emit out_of_range w)
         else if u_nconnections w \<le> 0 then (-1, emit (Iemnet_log IEMNET_ERROR ''no clients connected'' []) w)
         else if nat client > u_nconnections w then (-1, emit out_of_range w)
         else (client - 1, w))"

definition equal_addr :: "32 word \<Rightarrow> 16 word \<Rightarrow> 32 word \<Rightarrow> 16 word \<Rightarrow> bool" where
  "equal_addr host1 port1 host2 port2 \<longleftrightarrow> port1 = port2 \<and> host1 = host2"

text \<open>The search ends at a match, and also at an empty cell.\<close>

fun find_loop :: "32 word \<Rightarrow> 16 word \<Rightarrow> t_udpserver \<Rightarrow> nat list \<Rightarrow> int res" where
  "find_loop host port w [] = Inr (-1)"
| "find_loop host port w (i # is) = res_bind (arr_get (u_sr w) i) (\<lambda>p.
     if p = None then Inr (-1)
     else res_bind (heap_get (u_senders w) p) (\<lambda>x.
       if equal_addr host port (usr_host x) (usr_port x) then Inr (int i) else find_loop host port w is))"

definition udpserver__find_sender :: "32 word \<Rightarrow> 16 word \<Rightarrow> t_udpserver \<Rightarrow> int res" where
  "udpserver__find_sender host port w = find_loop host port w [0..<u_nconnections w]"

definition udpserver_sender_add :: "32 word \<Rightarrow> 16 word \<Rightarrow> t_udpserver \<Rightarrow> (ptr \<times> t_udpserver) res" where
  "udpserver_sender_add host port w =
     (if u_accept w = 0 then Inr (None, w)
      else res_bind (udpserver__find_sender host port w) (\<lambda>k.
        if k < 0 then
          let k = c_int_of_long (int (u_nconnections w)) in
          if k < c_int_of_long (int (u_maxconnections w)) then
            res_bind (udpserver_sender_new host port w) (\<lambda>(p, w).
            res_bind (arr_set (u_sr w) (nat k) p) (\<lambda>sr.
            Inr (p, w\<lparr>u_sr := sr, u_nconnections := u_nconnections w + 1\<rparr>)))
          else Inr (None, w)
        else
          res_bind (arr_get (u_sr w) (nat k)) (\<lambda>p. res_bind (heap_get (u_senders w) p) (\<lambda>x.
          Inr (p, w\<lparr>u_senders := heap_put (u_senders w) (the p) (x\<lparr>usr_lastseen := u_logicaltime w\<rparr>)\<rparr>)))))"

text \<open>The loop that is meant to close the gap copies the same cell in every round.\<close>

definition copy_next :: "nat \<Rightarrow> nat \<Rightarrow> ptr list \<Rightarrow> ptr list res" where
  "copy_next k i sr = res_bind (arr_get sr (k + 1)) (arr_set sr k)"

definition udpserver_sender_remove :: "nat \<Rightarrow> t_udpserver \<Rightarrow> t_udpserver res" where
  "udpserver_sender_remove k w =
     (if k < u_nconnections w then
        res_bind (arr_get (u_sr w) k) (\<lambda>sdr.
          if sdr = None then Inr w
          else res_bind (udpserver_sender_free sdr w) (\<lambda>w.
            res_bind (res_fold (copy_next k) [k..<u_nconnections w] (u_sr w)) (\<lambda>sr.
            res_bind (arr_set sr k None) (\<lambda>sr.
            Inr (w\<lparr>u_sr := sr, u_nconnections := uint_dec (u_nconnections w)\<rparr>)))))
      else Inr w)"

text \<open>
  The three loops of \<^verbatim>\<open>udpserver_sender_autoremove\<close>: compact the table in place (\<open>j\<close> is the position of
  the write pointer), clear the rest, and count the leading non-empty cells.
\<close>

definition compact_entry :: "nat \<Rightarrow> nat \<times> t_udpserver \<Rightarrow> (nat \<times> t_udpserver) res" where
  "compact_entry i s = (let (j, w) = s in
     res_bind (arr_get (u_sr w) i) (\<lambda>p.
       if p = None then Inr (j, w)
       else res_bind (heap_get (u_senders w) p) (\<lambda>x.
         if u_timesince w (usr_lastseen x) > u_timeout w then
           res_bind (udpserver_sender_free p w) (\<lambda>w.
           res_bind (arr_set (u_sr w) i None) (\<lambda>sr. Inr (j, w\<lparr>u_sr := sr\<rparr>)))
         else res_bind (arr_set (u_sr w) j p) (\<lambda>sr. Inr (j + 1, w\<lparr>u_sr := sr\<rparr>)))))"

fun count_live :: "ptr list \<Rightarrow> nat list \<Rightarrow> nat \<Rightarrow> nat res" where
  "count_live sr [] n = Inr n"
| "count_live sr (i # is) n = res_bind (arr_get sr i) (\<lambda>p. if p = None then Inr n else count_live sr is (n + 1))"

definition udpserver_sender_autoremove :: "t_udpserver \<Rightarrow> t_udpserver res" where
  "udpserver_sender_autoremove w =
     (if u_timeout w \<le> 0 then Inr w
      else if u_timesince w (u_lastchecked w) \<le> 0 then Inr w
      else
        let w = w\<lparr>u_lastchecked := u_logicaltime w\<rparr> in
        res_bind (res_fold compact_entry [0..<u_nconnections w] (0, w)) (\<lambda>(j, w).
        res_bind (res_fold (\<lambda>i sr. arr_set sr i None) [j..<u_maxconnections w] (u_sr w)) (\<lambda>sr.
        res_bind (count_live sr [0..<u_maxconnections w] 0) (\<lambda>n.
        Inr (w\<lparr>u_sr := sr, u_nconnections := n\<rparr>)))))"

section \<open>Information\<close>

definition udpserver_info_client :: "nat \<Rightarrow> t_udpserver \<Rightarrow> t_udpserver res" where
  "udpserver_info_client client w =
     (if client < u_maxconnections w then
        res_bind (arr_get (u_sr w) client) (\<lambda>p.
          if p = None then Inr w
          else res_bind (heap_get (u_senders w) p) (\<lambda>x.
            let insize = iemnet__receiver_getsize (u_receiver w);
                outsize = iemnet__sender_getsize (usr_sender x);
                w = emit (Outlet_anything Statusout ''client''
                      [SETFLOAT (int client + 1), A_SYMBOL ''address'', A_SYMBOL (usr_hostname x),
                       SETFLOAT (uint (usr_port x)), A_FLOAT (u_timesince w (usr_lastseen x))]) w
            in Inr (emit (Outlet_anything Statusout ''bufsize''
                      [SETFLOAT (int client + 1), SETFLOAT insize, SETFLOAT outsize]) w)))
      else Inr w)"

definition udpserver_info :: "string \<Rightarrow> t_udpserver \<Rightarrow> t_udpserver res" where
  "udpserver_info junk w =
     (let sockfd = u_connectsocket w; port = uint (u_port w);
          w = (if sockfd < 0 then emit (Iemnet_log IEMNET_ERROR ''no open socket'' []) w else w)
      in res_bind (udpserver_sender_autoremove w) (\<lambda>w.
        let (port, w) =
              (if uint (u_port w) \<le> 0 then
                 let (r, w) = sys_call ''getsockname'' [sockfd] w in
                 if a_ret r = 0 then (uint (name_port (a_name r)), w\<lparr>u_port := name_port (a_name r)\<rparr>)
                 else (port, emit (Sys_sockerror ''getsockname'')
                        (emit (Iemnet_log IEMNET_ERROR ''getsockname failed for socket:%d'' [L_int sockfd]) w))
               else (port, w));
            w = iemnet__socket2addressout junk sockfd Statusout ''local_address'' w;
            w = emit (Outlet_anything Statusout ''port'' [SETFLOAT port]) w
        in Inr (emit (Outlet_anything Statusout ''connections'' [SETFLOAT (int (u_nconnections w))]) w)))"

definition udpserver_info_connection :: "32 word \<Rightarrow> 16 word \<Rightarrow> t_udpserver \<Rightarrow> t_udpserver" where
  "udpserver_info_connection host port w = iemnet__addrout (Some Statusout) (Some Addrout) host port w"

section \<open>The number of peers never grows while peers are removed\<close>

lemma udp_more_cong:
  assumes "world.more w' = world.more (w :: t_udpserver)"
  shows "u_sr w' = u_sr w" "u_nconnections w' = u_nconnections w" "u_maxconnections w' = u_maxconnections w"
    "u_senders w' = u_senders w" "u_floatlist w' = u_floatlist w" "u_defaulttarget w' = u_defaulttarget w"
    "u_connectsocket w' = u_connectsocket w" "u_port w' = u_port w" "u_ifaddr w' = u_ifaddr w"
    "u_accept w' = u_accept w" "u_timeout w' = u_timeout w" "u_lastchecked w' = u_lastchecked w"
    "u_receiver w' = u_receiver w" "u_uniq w' = u_uniq w" "u_logicaltime w' = u_logicaltime w"
    "u_timesince w' = u_timesince w"
  using assms by (cases w; cases w'; simp)+

lemmas [simp] = udp_more_cong [OF emit_sel(5)] udp_more_cong [OF free_sel(5)] udp_more_cong [OF malloc_snd(3)]
  udp_more_cong [OF sys_call_snd(4)] udp_more_cong [OF closesocket_frame(1)] udp_more_cong [OF numconnout_frame(1)]
  udp_more_cong [OF addrout_frame(1)] udp_more_cong [OF chunk_destroy_frame(1)]
  udp_more_cong [OF receiver_destroy_frame] udp_more_cong [OF socket2addressout_frame(1)]

lemma usender_free_frame:
  assumes "udpserver_sender_free p w = Inr w'"
  shows "\<exists>h. world.more w' = world.more (w\<lparr>u_senders := h\<rparr>)"
proof (cases p)
  case None
  with assms have "world.more w' = world.more (w\<lparr>u_senders := u_senders w\<rparr>)"
    by (simp add: udpserver_sender_free_def)
  then show ?thesis by blast
next
  case (Some a)
  with assms obtain x w1 where
    "heap_get (u_senders w) (Some a) = Inr x" "(case usr_sender x of None \<Rightarrow> Inr (free (w\<lparr>u_senders := heap_free (u_senders w) a\<rparr>))
      | Some s \<Rightarrow> iemnet__sender_destroy s (free (w\<lparr>u_senders := heap_free (u_senders w) a\<rparr>))) = Inr w1"
    "w' = (if usr_uniq x \<ge> 0 then iemnet__closesocket (usr_uniq x) True w1 else w1)"
    by (fastforce simp: udpserver_sender_free_def res_simps Let_def)
  then have "world.more w' = world.more (w\<lparr>u_senders := heap_free (u_senders w) a\<rparr>)"
    by (auto split: option.splits dest: sender_destroy_frame)
  then show ?thesis by blast
qed

lemma usender_free_sel:
  assumes "udpserver_sender_free p w = Inr w'"
  shows "u_sr w' = u_sr w" "u_nconnections w' = u_nconnections w" "u_maxconnections w' = u_maxconnections w"
    "u_timeout w' = u_timeout w" "u_timesince w' = u_timesince w" "u_floatlist w' = u_floatlist w"
    "u_receiver w' = u_receiver w" "u_connectsocket w' = u_connectsocket w" "u_logicaltime w' = u_logicaltime w"
    "u_lastchecked w' = u_lastchecked w"
proof -
  obtain h where "world.more w' = world.more (w\<lparr>u_senders := h\<rparr>)" using usender_free_frame [OF assms] by blast
  note c = udp_more_cong [OF this]
  show "u_sr w' = u_sr w" "u_nconnections w' = u_nconnections w" "u_maxconnections w' = u_maxconnections w"
    "u_timeout w' = u_timeout w" "u_timesince w' = u_timesince w" "u_floatlist w' = u_floatlist w"
    "u_receiver w' = u_receiver w" "u_connectsocket w' = u_connectsocket w" "u_logicaltime w' = u_logicaltime w"
    "u_lastchecked w' = u_lastchecked w"
    by (simp_all add: c)
qed

lemma usender_free_counts:
  "udpserver_sender_free p w = Inr w' \<Longrightarrow>
   u_nconnections w' = u_nconnections w \<and> u_maxconnections w' = u_maxconnections w"
  using usender_free_sel by blast

lemma compact_entry_count:
  assumes "compact_entry i (j, w) = Inr (j', w')"
  shows "j' \<le> j + 1 \<and> u_nconnections w' = u_nconnections w \<and> u_maxconnections w' = u_maxconnections w"
proof -
  from assms obtain p where p: "arr_get (u_sr w) i = Inr p" by (auto simp: compact_entry_def res_simps)
  show ?thesis
  proof (cases "p = None")
    case True
    with assms p show ?thesis by (simp add: compact_entry_def)
  next
    case False
    with assms p obtain x where x: "heap_get (u_senders w) p = Inr x" by (auto simp: compact_entry_def res_simps)
    show ?thesis
    proof (cases "u_timesince w (usr_lastseen x) > u_timeout w")
      case True
      with assms p False x obtain w1 where "udpserver_sender_free p w = Inr w1"
        "j' = j" "u_nconnections w' = u_nconnections w1" "u_maxconnections w' = u_maxconnections w1"
        by (auto simp: compact_entry_def res_simps)
      with usender_free_counts show ?thesis by auto
    next
      case not: False
      with assms p False x show ?thesis by (auto simp: compact_entry_def res_simps)
    qed
  qed
qed

lemma compact_count:
  "res_fold compact_entry is (j, w) = Inr (j', w') \<Longrightarrow>
   j' \<le> j + length is \<and> u_nconnections w' = u_nconnections w \<and> u_maxconnections w' = u_maxconnections w"
proof (induction "is" arbitrary: j w)
  case Nil
  then show ?case by simp
next
  case (Cons i "is")
  then obtain j1 w1 where s: "compact_entry i (j, w) = Inr (j1, w1)" "res_fold compact_entry is (j1, w1) = Inr (j', w')"
    by (auto simp: res_simps)
  with Cons.IH [OF s(2)] compact_entry_count [OF s(1)] show ?case by auto
qed

lemma clear_rest:
  "res_fold (\<lambda>i sr. arr_set sr i None) is sr = Inr sr' \<Longrightarrow>
   length sr' = length sr \<and> (\<forall>i<length sr. sr' ! i = (if i \<in> set is then None else sr ! i))"
proof (induction "is" arbitrary: sr)
  case Nil
  then show ?case by simp
next
  case (Cons k "is")
  then have k: "k < length sr" "res_fold (\<lambda>i sr. arr_set sr i None) is (sr[k := None]) = Inr sr'"
    by (auto simp: res_simps arr_set_def split: if_splits)
  from Cons.IH [OF k(2)] show ?case by (auto simp: nth_list_update)
qed

lemma count_live_le:
  "count_live sr is n = Inr m \<Longrightarrow> j < length is \<Longrightarrow> sr ! (is ! j) = None \<Longrightarrow> m \<le> n + j"
proof (induction "is" arbitrary: n j)
  case Nil
  then show ?case by simp
next
  case (Cons i "is")
  then show ?case
    by (cases j) (force simp: res_simps arr_get_def split: if_splits)+
qed

lemma count_live_length: "count_live sr is n = Inr m \<Longrightarrow> m \<le> n + length is"
  by (induction "is" arbitrary: n) (fastforce simp: res_simps split: if_splits)+

lemma autoremove_count:
  assumes "udpserver_sender_autoremove w = Inr w'"
  shows "u_nconnections w' \<le> u_nconnections w"
proof (cases "u_timeout w \<le> 0 \<or> u_timesince w (u_lastchecked w) \<le> 0")
  case True
  with assms show ?thesis by (auto simp: udpserver_sender_autoremove_def split: if_splits)
next
  case False
  with assms obtain j w1 sr where w1: "res_fold compact_entry [0..<u_nconnections w]
        (0, w\<lparr>u_lastchecked := u_logicaltime w\<rparr>) = Inr (j, w1)"
      "res_fold (\<lambda>i sr. arr_set sr i None) [j..<u_maxconnections w1] (u_sr w1) = Inr sr"
      "count_live sr [0..<u_maxconnections w1] 0 = Inr (u_nconnections w')"
    by (auto simp: udpserver_sender_autoremove_def res_simps)
  from compact_count [OF w1(1)] have j: "j \<le> u_nconnections w" by simp
  have "u_nconnections w' \<le> j"
  proof (cases "j < u_maxconnections w1")
    case True
    then have "j < length (u_sr w1)"
      using w1(2) by (auto simp: upt_conv_Cons res_simps arr_set_def split: if_splits)
    with clear_rest [OF w1(2)] True have "sr ! j = None" by auto
    with count_live_le [OF w1(3), of j] True show ?thesis by simp
  next
    case False
    with count_live_length [OF w1(3)] show ?thesis by simp
  qed
  with j show ?thesis by simp
qed

lemma sender_remove_count:
  assumes "udpserver_sender_remove k w = Inr w'"
  shows "u_nconnections w' \<le> u_nconnections w"
proof (cases "k < u_nconnections w")
  case True
  then have "0 < u_nconnections w" by simp
  with assms show ?thesis
    by (auto simp: udpserver_sender_remove_def res_simps split: if_splits dest!: usender_free_counts)
next
  case False
  with assms show ?thesis by (simp add: udpserver_sender_remove_def)
qed

section \<open>Disconnecting\<close>

text \<open>The address of the peer is saved in a block of its own, if there is memory for it.\<close>

definition udpserver_disconnect :: "nat \<Rightarrow> t_udpserver \<Rightarrow> t_udpserver res" where
  "udpserver_disconnect client w =
     (if client \<ge> u_nconnections w then Inr w
      else let (ok, w) = malloc w in
        res_bind (if ok then res_bind (usr_at client w) (\<lambda>x. Inr (Some (usr_host x, usr_port x))) else Inr None)
        (\<lambda>sdr. res_bind (udpserver_sender_remove client w) (\<lambda>w.
        res_bind (udpserver_sender_autoremove w) (\<lambda>w.
        let conns = u_nconnections w;
            w = (case sdr of None \<Rightarrow> w | Some (host, port) \<Rightarrow> free (udpserver_info_connection host port w))
        in Inr (iemnet__numconnout (Some Statusout) (Some Connectout) (int conns) w)))))"

definition udpserver_disconnect_client :: "t_float \<Rightarrow> t_udpserver \<Rightarrow> t_udpserver res" where
  "udpserver_disconnect_client fclient w =
     (let (client, w) = udpserver_fixindex (c_int fclient) w in
      if client < 0 then Inr w else udpserver_disconnect (nat client) w)"

lemma udisconnect_count:
  assumes "udpserver_disconnect k w = Inr w'"
  shows "u_nconnections w' \<le> u_nconnections w"
proof (cases "k \<ge> u_nconnections w")
  case True
  with assms show ?thesis by (simp add: udpserver_disconnect_def)
next
  case False
  obtain ok w0 where m: "malloc w = (ok, w0)" by fastforce
  then have n0: "u_nconnections w0 = u_nconnections w" using udp_more_cong(2) [OF malloc_snd(3) [of w]] by simp
  from assms False m obtain sdr w1 w2 where "udpserver_sender_remove k w0 = Inr w1"
    "udpserver_sender_autoremove w1 = Inr w2"
    "w' = iemnet__numconnout (Some Statusout) (Some Connectout) (int (u_nconnections w2))
      (case sdr of None \<Rightarrow> w2 | Some (host, port) \<Rightarrow> free (udpserver_info_connection host port w2))"
    by (fastforce simp: udpserver_disconnect_def res_simps Let_def)
  then have "u_nconnections w2 \<le> u_nconnections w" "u_nconnections w' = u_nconnections w2"
    using sender_remove_count autoremove_count n0
    by (fastforce, auto simp: udpserver_info_connection_def split: option.splits)
  then show ?thesis by simp
qed

function udp_disconnect_from :: "nat \<Rightarrow> t_udpserver \<Rightarrow> t_udpserver res" where
  "udp_disconnect_from k w =
     (if k < u_nconnections w
      then res_bind (udpserver_disconnect k w) (udp_disconnect_from (k + 1)) else Inr w)"
  by pat_completeness auto
termination
  by (relation "measure (\<lambda>(k, w). u_nconnections w - k)") (auto dest: udisconnect_count)

declare udp_disconnect_from.simps [simp del]

definition udpserver_disconnect_all :: "t_udpserver \<Rightarrow> t_udpserver res" where
  "udpserver_disconnect_all w = udp_disconnect_from 0 w"

section \<open>Sending\<close>

text \<open>The chunk is addressed in place, so that the caller's chunk changes.\<close>

definition udpserver_send_bytes ::
    "nat \<Rightarrow> t_iemnet_chunk option \<Rightarrow> t_udpserver \<Rightarrow> (t_iemnet_chunk option \<times> t_udpserver) res" where
  "udpserver_send_bytes client chunk w =
     (if client < u_maxconnections w then
        res_bind (arr_get (u_sr w) client) (\<lambda>p.
          case p of None \<Rightarrow> Inr (chunk, w)
          | Some a \<Rightarrow> res_bind (heap_get (u_senders w) (Some a)) (\<lambda>x.
              case chunk of None \<Rightarrow> Inl NullDeref
              | Some c \<Rightarrow>
                  let c = c\<lparr>c_addr := usr_host x, c_port := usr_port x\<rparr> in
                  res_bind (case usr_sender x of None \<Rightarrow> Inr (0, w)
                      | Some s \<Rightarrow> res_bind (iemnet__sender_send s (Some c) w) (\<lambda>(sz, s, w).
                          Inr (sz, w\<lparr>u_senders := heap_put (u_senders w) a (x\<lparr>usr_sender := Some s\<rparr>)\<rparr>)))
                  (\<lambda>(sz, w).
                    let w = emit (Outlet_anything Statusout ''sendbuffersize''
                              [SETFLOAT (int client + 1), SETFLOAT sz, SETFLOAT (usr_uniq x)]) w
                    in res_bind (if sz < 0 then udpserver_disconnect client w else Inr w)
                         (\<lambda>w. Inr (Some c, w)))))
      else Inr (chunk, w))"

lemma queue_push_frame:
  "queue_push q c w = Inr (n, q', w') \<Longrightarrow> world.more w' = world.more w"
  by (cases "malloc w") (use malloc_snd(3) [of w] in
      \<open>auto simp: queue_push_def res_simps split: option.splits if_splits\<close>)

lemma create_chunk_frame:
  "iemnet__chunk_create_chunk c w = Inr (r, w') \<Longrightarrow> world.more w' = world.more w"
  by (auto simp: iemnet__chunk_create_chunk_def res_simps split: option.splits
      dest!: chunk_create_data_result simp: mem_step_def)

lemma sender_send_frame:
  "iemnet__sender_send s c w = Inr (n, s', w') \<Longrightarrow> world.more w' = world.more w"
  by (auto simp: iemnet__sender_send_def res_simps split: if_splits option.splits
      dest!: queue_push_frame create_chunk_frame)

lemma usend_bytes_count:
  assumes "udpserver_send_bytes k c w = Inr (c', w')"
  shows "u_nconnections w' \<le> u_nconnections w"
proof (cases "k < u_maxconnections w")
  case False
  with assms show ?thesis by (simp add: udpserver_send_bytes_def)
next
  case True
  with assms obtain p where p: "arr_get (u_sr w) k = Inr p" by (auto simp: udpserver_send_bytes_def res_simps)
  show ?thesis
  proof (cases p)
    case None
    with assms p True show ?thesis by (simp add: udpserver_send_bytes_def)
  next
    case (Some a)
    with assms p True obtain x c0 where x: "heap_get (u_senders w) (Some a) = Inr x" "c = Some c0"
      by (auto simp: udpserver_send_bytes_def res_simps split: option.splits)
    let ?c = "c0\<lparr>c_addr := usr_host x, c_port := usr_port x\<rparr>"
    have sent: "u_nconnections w1 = u_nconnections w"
      if "(case usr_sender x of None \<Rightarrow> Inr (0, w)
           | Some s \<Rightarrow> res_bind (iemnet__sender_send s (Some ?c) w) (\<lambda>(sz, s, w).
               Inr (sz, w\<lparr>u_senders := heap_put (u_senders w) a (x\<lparr>usr_sender := Some s\<rparr>)\<rparr>))) = Inr (sz, w1)" for sz w1
      using that by (auto simp: res_simps split: option.splits dest!: sender_send_frame udp_more_cong(2))
    from assms p True Some x obtain sz w1 where
      "(case usr_sender x of None \<Rightarrow> Inr (0, w)
           | Some s \<Rightarrow> res_bind (iemnet__sender_send s (Some ?c) w) (\<lambda>(sz, s, w).
               Inr (sz, w\<lparr>u_senders := heap_put (u_senders w) a (x\<lparr>usr_sender := Some s\<rparr>)\<rparr>))) = Inr (sz, w1)"
      "(if sz < 0 then udpserver_disconnect k (emit (Outlet_anything Statusout ''sendbuffersize''
         [SETFLOAT (int k + 1), SETFLOAT sz, SETFLOAT (usr_uniq x)]) w1)
        else Inr (emit (Outlet_anything Statusout ''sendbuffersize''
         [SETFLOAT (int k + 1), SETFLOAT sz, SETFLOAT (usr_uniq x)]) w1)) = Inr w'"
      by (fastforce simp: udpserver_send_bytes_def res_simps Let_def)
    with sent show ?thesis by (fastforce split: if_splits dest!: udisconnect_count)
  qed
qed

text \<open>The loop over all clients but those to be skipped: the bound is read again in every round.\<close>

function send_all_from ::
    "(nat \<Rightarrow> bool) \<Rightarrow> nat \<Rightarrow> t_iemnet_chunk option \<Rightarrow> t_udpserver \<Rightarrow> (t_iemnet_chunk option \<times> t_udpserver) res" where
  "send_all_from skip k c w =
     (if k < u_nconnections w
      then res_bind (if skip k then Inr (c, w) else udpserver_send_bytes k c w)
             (\<lambda>(c, w). send_all_from skip (k + 1) c w)
      else Inr (c, w))"
  by pat_completeness auto
termination
  by (relation "measure (\<lambda>(skip, k, c, w). u_nconnections w - k)")
    (auto split: if_splits dest: usend_bytes_count)

declare send_all_from.simps [simp del]

definition udpserver_send_butclient ::
    "getint \<Rightarrow> nat \<Rightarrow> t_atom list \<Rightarrow> t_udpserver \<Rightarrow> t_udpserver res" where
  "udpserver_send_butclient gi but argv w =
     res_bind (iemnet__chunk_create_list gi (int (length argv)) argv w) (\<lambda>(chunk, w).
     res_bind (send_all_from (\<lambda>client. client = but) 0 chunk w) (\<lambda>(chunk, w).
     Inr (iemnet__chunk_destroy chunk w)))"

definition udpserver_send_toclient ::
    "getint \<Rightarrow> nat \<Rightarrow> t_atom list \<Rightarrow> t_udpserver \<Rightarrow> t_udpserver res" where
  "udpserver_send_toclient gi client argv w =
     res_bind (iemnet__chunk_create_list gi (int (length argv)) argv w) (\<lambda>(chunk, w).
     res_bind (udpserver_send_bytes client chunk w) (\<lambda>(chunk, w).
     Inr (iemnet__chunk_destroy chunk w)))"

definition udpserver_send_client :: "getint \<Rightarrow> t_atom list \<Rightarrow> t_udpserver \<Rightarrow> t_udpserver res" where
  "udpserver_send_client gi argv w = (case argv of
     a # rest \<Rightarrow>
       (let (client, w) = udpserver_fixindex (c_int_of_long (gi a)) w in
        if client < 0 then Inr w
        else if rest = [] then udpserver_info_client (nat client) w
        else udpserver_send_toclient gi (nat client) rest w)
   | [] \<Rightarrow> res_fold udpserver_info_client [0..<u_nconnections w] w)"

definition udpserver_broadcast :: "getint \<Rightarrow> t_atom list \<Rightarrow> t_udpserver \<Rightarrow> t_udpserver res" where
  "udpserver_broadcast gi argv w =
     (let oldconnections = u_nconnections w in
      res_bind (iemnet__chunk_create_list gi (int (length argv)) argv w) (\<lambda>(chunk, w).
      res_bind (udpserver_sender_autoremove w) (\<lambda>w.
      res_bind (send_all_from (\<lambda>_. False) 0 chunk w) (\<lambda>(chunk, w).
      let w = iemnet__chunk_destroy chunk w in
      Inr (if oldconnections \<noteq> u_nconnections w
           then emit (Outlet_anything Statusout ''connections'' [SETFLOAT (int (u_nconnections w))]) w
           else w)))))"

definition udpserver_defaultsend :: "getint \<Rightarrow> t_atom list \<Rightarrow> t_udpserver \<Rightarrow> t_udpserver res" where
  "udpserver_defaultsend gi argv w =
     (let sockfd = u_defaulttarget w in
      if sockfd > 0 then
        res_bind (udpserver_socket2index sockfd w) (\<lambda>client.
          if client < 0
          then udpserver_broadcast gi argv
            ((emit (Iemnet_log IEMNET_ERROR ''invalid socket %d, switching to broadcast mode'' [L_int sockfd]) w)
             \<lparr>u_defaulttarget := 0\<rparr>)
          else udpserver_send_toclient gi (nat client) argv w)
      else if sockfd < 0 then
        res_bind (udpserver_socket2index (c_neg sockfd) w) (\<lambda>client.
          if client < 0
          then udpserver_broadcast gi argv
            ((emit (Iemnet_log IEMNET_ERROR ''invalid excluded socket %d, switching to broadcast mode''
                [L_int (c_neg sockfd)]) w)\<lparr>u_defaulttarget := 0\<rparr>)
          else udpserver_send_butclient gi (nat client) argv w)
      else udpserver_broadcast gi argv w)"

definition udpserver_defaulttarget :: "t_float \<Rightarrow> t_udpserver \<Rightarrow> t_udpserver res" where
  "udpserver_defaulttarget f w =
     (let rawclient = c_int f; client = nat \<bar>rawclient\<bar> in
      if client > u_nconnections w
      then Inr (emit (Iemnet_log IEMNET_ERROR ''target:%d out of range [0..%d]''
                 [L_int (int client), L_int (int (u_nconnections w))]) w)
      else res_bind (if client > 0 then res_bind (usr_at (client - 1) w) (\<lambda>x. Inr (usr_uniq x)) else Inr 0)
        (\<lambda>sockfd. Inr (w\<lparr>u_defaulttarget := (if rawclient < 0 then c_neg sockfd else sockfd)\<rparr>)))"

definition udpserver_add_client :: "string \<Rightarrow> t_float \<Rightarrow> t_udpserver \<Rightarrow> t_udpserver res" where
  "udpserver_add_client s f w =
     (if c_int f < 1 \<or> c_int f \<ge> 65535
      then Inr (emit (Iemnet_log IEMNET_ERROR ''bad port '%d'?'' [L_int (c_int f)]) w)
      else
        let (r, w) = gethostbyname s w in
        case a_host r of
          None \<Rightarrow> Inr (emit (Iemnet_log IEMNET_ERROR ''bad host '%s'?'' [L_str s]) w)
        | Some addr \<Rightarrow>
            res_bind (udpserver_sender_add (ntohl addr) (of_nat (c_uint f)) w) (\<lambda>(p, w).
            Inr (if p = None
                 then emit (Iemnet_log IEMNET_ERROR ''unable to add client %s:%d''
                        [L_str s, L_int (int (c_uint f))]) w
                 else w)))"

definition udpserver_accept :: "t_float \<Rightarrow> t_udpserver \<Rightarrow> t_udpserver" where
  "udpserver_accept f w = w\<lparr>u_accept := c_uchar f\<rparr>"

definition udpserver_timeout :: "t_float \<Rightarrow> t_udpserver \<Rightarrow> t_udpserver" where
  "udpserver_timeout f w = w\<lparr>u_timeout := f\<rparr>"

section \<open>Receiving and binding\<close>

definition udpserver_receive_callback :: "ptr \<Rightarrow> t_iemnet_chunk option \<Rightarrow> t_udpserver \<Rightarrow> t_udpserver res" where
  "udpserver_receive_callback y c w =
     (if y = None then Inr w
      else case c of
        Some c \<Rightarrow>
          (let conns = u_nconnections w in
           res_bind (udpserver_sender_add (c_addr c) (c_port c) w) (\<lambda>(sdr, w).
             if sdr = None then Inr w
             else res_bind (heap_get (u_senders w) sdr) (\<lambda>x.
               let w = udpserver_info_connection (usr_host x) (usr_port x) w in
               res_bind (iemnet__chunk2list (Some c) (u_floatlist w) w) (\<lambda>(fl, w).
               let w = w\<lparr>u_floatlist := fl\<rparr>;
                   w = (if conns \<noteq> u_nconnections w
                        then iemnet__numconnout (Some Statusout) (Some Connectout) (int (u_nconnections w)) w
                        else w)
               in case fl of None \<Rightarrow> Inl NullDeref
                  | Some fl \<Rightarrow> outlet_floatlist fl w))))
      | None \<Rightarrow> Inr (emit (Iemnet_log IEMNET_ERROR ''received disconnection event'' []) w))"

text \<open>
  The user data of the receiver is the object itself; its address is represented by \<open>this\<close>.
\<close>

definition this :: ptr where
  "this = Some 0"

definition udpserver_do_bind :: "string \<Rightarrow> string option \<Rightarrow> 16 word \<Rightarrow> t_udpserver \<Rightarrow> t_udpserver" where
  "udpserver_do_bind junk ifaddr portno w =
     (let sockfd = u_connectsocket w; ap = [SETFLOAT (-1)] in
      if u_port w = portno \<and> u_ifaddr w = ifaddr then w
      else
        let w = (if sockfd \<ge> 0
                 then (iemnet__closesocket sockfd False w)
                        \<lparr>u_connectsocket := -1, u_port := -1, u_ifaddr := None\<rparr>
                 else w);
            (r, w) = sys_call ''socket'' [AF_INET, SOCK_DGRAM, 0] w; sockfd = a_ret r
        in if sockfd < 0
           then emit (Sys_sockerror ''socket'') (emit (Iemnet_log IEMNET_ERROR ''unable to create socket'' []) w)
        else
          let (host, w) = (case ifaddr of None \<Rightarrow> (Some (In_addr 0 0 0 0), w)
                | Some name \<Rightarrow> (let (h, w) = gethostbyname name w in (a_host h, w)))
          in case host of
            None \<Rightarrow> iemnet__closesocket sockfd False
                      (emit (Iemnet_log IEMNET_ERROR ''bad host '%s'?'' [L_str (the ifaddr)]) w)
          | Some addr \<Rightarrow>
              let (b, w) = sys_call ''bind'' [sockfd, uint (ntohl addr), uint portno] w
              in if a_ret b < 0
                 then emit (Outlet_anything Statusout ''port'' ap) (iemnet__closesocket sockfd True
                        (emit (Sys_sockerror ''bind'')
                          (emit (Iemnet_log IEMNET_ERROR ''unable to bind socket to %s:%d''
                            [L_str (case ifaddr of None \<Rightarrow> ''*'' | Some name \<Rightarrow> name), L_int (uint portno)]) w)))
              else
                let (rec, w) = iemnet__receiver_create sockfd this False w;
                    w = w\<lparr>u_receiver := rec, u_connectsocket := sockfd, u_port := portno, u_ifaddr := ifaddr\<rparr>;
                    (g, w) = sys_call ''getsockname'' [sockfd] w;
                    w = (if a_ret g = 0 then w\<lparr>u_port := name_port (a_name g)\<rparr> else w);
                    w = iemnet__socket2addressout junk sockfd Statusout ''local_address'' w
                in emit (Outlet_anything Statusout ''port'' [SETFLOAT (uint (u_port w))]) w)"

definition udpserver_port :: "string \<Rightarrow> t_float \<Rightarrow> t_udpserver \<Rightarrow> t_udpserver" where
  "udpserver_port junk fportno w =
     (if fportno < 0 \<or> c_int fportno \<ge> 65535
      then emit (Pd_error ''[udpserver] port %d out of range'' [L_int (c_int fportno)]) w
      else udpserver_do_bind junk None (c_ushort fportno) w)"

text \<open>\<open>gf\<close> and \<open>gs\<close> are Pd's \<^verbatim>\<open>atom_getfloat\<close> and \<^verbatim>\<open>atom_getsymbol\<close>.\<close>

definition udpserver_bind ::
    "(t_atom \<Rightarrow> t_float) \<Rightarrow> (t_atom \<Rightarrow> string) \<Rightarrow> string \<Rightarrow> t_atom list \<Rightarrow> t_udpserver \<Rightarrow> t_udpserver" where
  "udpserver_bind gf gs junk argv w =
     (let do_address = (\<lambda>a port. udpserver_do_bind junk (if is_float a then None else Some (gs a)) port w) in
      case argv of
        [a] \<Rightarrow> do_address a (u_port w)
      | [a, b] \<Rightarrow>
          (let fportno = gf b in
           if fportno < 0 \<or> c_int fportno > 65535
           then emit (Pd_error ''[udpserver] port %d out of range'' [L_int (c_int fportno)]) w
           else do_address a (c_ushort fportno))
      | _ \<Rightarrow> w)"

definition udpserver_maxconnections :: "(nat \<Rightarrow> ptr) \<Rightarrow> t_float \<Rightarrow> t_udpserver \<Rightarrow> t_udpserver" where
  "udpserver_maxconnections pad maxconnf w =
     (let maxconn = c_uint maxconnf in
      if maxconnf < 1 then emit (Pd_error ''maximum number of connections must be > 0'' []) w
      else if maxconn < u_nconnections w
      then emit (Pd_error ''maximum number of connections < number of currently connected clients [%d]''
             [L_int (int (u_nconnections w))]) w
      else if maxconn = u_maxconnections w then w
      else
        let (ok, w) = malloc w in
        if ok then (free w)\<lparr>u_sr := resize_cells pad (u_sr w) maxconn, u_maxconnections := maxconn\<rparr>
        else emit (Pd_error ''failed to set maximum number of connections'' []) w)"

section \<open>Creation and destruction\<close>

text \<open>\<^verbatim>\<open>pd_new\<close> gives a zeroed object; the counter of the senders is static.\<close>

definition udpserver_new ::
    "string \<Rightarrow> t_float \<Rightarrow> int \<Rightarrow> rat \<Rightarrow> (rat \<Rightarrow> rat) \<Rightarrow> world \<Rightarrow> t_udpserver res" where
  "udpserver_new junk fportno uniq now timesince w =
     (let (ok, w) = malloc w in
      if \<not> ok then Inl NullDeref
      else res_bind (iemnet__floatlist_create 1024 w) (\<lambda>(fl, w).
        Inr ((udpserver_port junk fportno
          \<lparr>w_io = w_io w, w_sys = w_sys w, w_malloc = w_malloc w, w_live = w_live w, w_errno = w_errno w,
           u_sr = replicate MAX_CONNECT None, u_nconnections = 0, u_maxconnections = MAX_CONNECT,
           u_connectsocket = -1, u_port = -1, u_ifaddr = None, u_accept = 0, u_timeout = 0, u_lastchecked = 0,
           u_defaulttarget = 0, u_receiver = None, u_floatlist = fl, u_senders = [], u_uniq = uniq,
           u_logicaltime = now, u_timesince = timesince\<rparr>)\<lparr>u_accept := 1\<rparr>)))"

definition udp_free_entry :: "nat \<Rightarrow> t_udpserver \<Rightarrow> t_udpserver res" where
  "udp_free_entry i w = res_bind (arr_get (u_sr w) i) (\<lambda>p.
     if p = None then Inr w
     else res_bind (udpserver_sender_free p w) (\<lambda>w.
       res_bind (arr_set (u_sr w) i None) (\<lambda>sr. Inr (w\<lparr>u_sr := sr\<rparr>))))"

definition udpserver_free :: "t_udpserver \<Rightarrow> t_udpserver res" where
  "udpserver_free w =
     res_bind (res_fold udp_free_entry [0..<u_maxconnections w] w) (\<lambda>w.
       let w = (free w)\<lparr>u_sr := []\<rparr>;
           w = (iemnet__receiver_destroy (u_receiver w) False w)\<lparr>u_receiver := None\<rparr>;
           w = (if u_connectsocket w \<ge> 0
                then (iemnet__closesocket (u_connectsocket w) False w)\<lparr>u_connectsocket := -1\<rparr>
                else w);
           w = iemnet__floatlist_destroy (u_floatlist w) w
       in Inr (w\<lparr>u_floatlist := None\<rparr>))"

end
