(* ===== verification/Udp_Server_Table.thy ===== *)
theory Udp_Server_Table
  imports Udp_Server
begin

text \<open>
  The table of peers of the UDP server: its invariant, the list of peers it stands for, finding and adding
  peers, removing those that have not been heard of, and what the removal of a single peer
  does to the table.
\<close>

section \<open>Invariant\<close>

definition usr_ok :: "t_udpserver_sender \<Rightarrow> bool" where
  "usr_ok x \<longleftrightarrow> usr_owner x \<and> 0 \<le> usr_uniq x \<and>
     (case usr_sender x of None \<Rightarrow> True | Some s \<Rightarrow> sender_inv s)"

definition udp_addrs :: "t_udpserver \<Rightarrow> nat list" where
  "udp_addrs w = map the (take (u_nconnections w) (u_sr w))"

definition udp_peers :: "t_udpserver \<Rightarrow> t_udpserver_sender list" where
  "udp_peers w = map (\<lambda>a. the (map_of (u_senders w) a)) (udp_addrs w)"

definition peer_addr :: "t_udpserver_sender \<Rightarrow> 32 word \<times> 16 word" where
  "peer_addr x = (usr_host x, usr_port x)"

definition udp_table_ok :: "t_udpserver \<Rightarrow> nat list \<Rightarrow> bool" where
  "udp_table_ok w as \<longleftrightarrow> u_sr w = map Some as @ replicate (u_maxconnections w - length as) None
     \<and> length as = u_nconnections w \<and> u_nconnections w \<le> u_maxconnections w
     \<and> u_maxconnections w \<le> 16777216
     \<and> distinct as \<and> heap_dom (u_senders w) = set as
     \<and> list_all (\<lambda>a. case map_of (u_senders w) a of None \<Rightarrow> False | Some x \<Rightarrow> usr_ok x) as
     \<and> distinct (map (\<lambda>a. peer_addr (the (map_of (u_senders w) a))) as)
     \<and> 0 \<le> u_uniq w
     \<and> (case u_floatlist w of None \<Rightarrow> True | Some fl \<Rightarrow> wf_floatlist fl)"

definition udp_inv :: "t_udpserver \<Rightarrow> bool" where
  "udp_inv w \<longleftrightarrow> udp_table_ok w (udp_addrs w)"

lemma udp_table_addrs: "udp_table_ok w as \<Longrightarrow> udp_addrs w = as"
  by (simp add: udp_table_ok_def udp_addrs_def)

lemma udp_invI: "udp_table_ok w as \<Longrightarrow> udp_inv w"
  by (simp add: udp_inv_def udp_table_addrs)

lemma udp_inv_cong:
  assumes "world.more w' = world.more (w :: t_udpserver)"
  shows "udp_table_ok w' as = udp_table_ok w as" "udp_inv w' = udp_inv w" "udp_addrs w' = udp_addrs w"
    "udp_peers w' = udp_peers w"
  using udp_more_cong [OF assms]
  by (simp_all add: udp_table_ok_def udp_inv_def udp_addrs_def udp_peers_def)

lemma udp_inv_length:
  assumes "udp_inv w"
  shows "length (udp_addrs w) = u_nconnections w" "length (udp_peers w) = u_nconnections w"
    "length (u_sr w) = u_maxconnections w" "u_nconnections w \<le> u_maxconnections w"
    "u_maxconnections w \<le> 16777216"
  using assms by (simp_all add: udp_inv_def udp_table_ok_def udp_peers_def)

lemma udp_inv_entry:
  assumes "udp_inv w" "i < u_nconnections w"
  shows "u_sr w ! i = Some (udp_addrs w ! i)" "map_of (u_senders w) (udp_addrs w ! i) = Some (udp_peers w ! i)"
    "usr_ok (udp_peers w ! i)" "i < length (u_sr w)"
proof -
  have ok: "udp_table_ok w (udp_addrs w)" and len: "i < length (udp_addrs w)"
    using assms by (simp_all add: udp_inv_def udp_inv_length)
  then have "(case map_of (u_senders w) (udp_addrs w ! i) of None \<Rightarrow> False | Some x \<Rightarrow> usr_ok x)"
    by (simp add: udp_table_ok_def list_all_length)
  then show "map_of (u_senders w) (udp_addrs w ! i) = Some (udp_peers w ! i)" "usr_ok (udp_peers w ! i)"
    using len by (auto simp: udp_peers_def split: option.splits)
  have "u_sr w = map Some (udp_addrs w) @ replicate (u_maxconnections w - length (udp_addrs w)) None"
    using ok unfolding udp_table_ok_def by blast
  then show "u_sr w ! i = Some (udp_addrs w ! i)" using len by (metis length_map nth_append nth_map)
  show "i < length (u_sr w)" using assms udp_inv_length [OF assms(1)] by simp
qed

lemma udp_peers_distinct: "udp_inv w \<Longrightarrow> distinct (map peer_addr (udp_peers w))"
  by (simp add: udp_inv_def udp_table_ok_def udp_peers_def comp_def)

section \<open>Finding a peer\<close>

lemma find_loop_result:
  assumes "\<And>i. i \<in> set is \<Longrightarrow> i < length (u_sr w) \<and> u_sr w ! i \<noteq> None \<and>
      heap_get (u_senders w) (u_sr w ! i) = Inr (f i)"
  shows "find_loop host port w is =
    Inr (case find (\<lambda>i. peer_addr (f i) = (host, port)) is of None \<Rightarrow> -1 | Some i \<Rightarrow> int i)"
  using assms
proof (induction "is")
  case Nil
  show ?case by simp
next
  case (Cons i "is")
  from Cons.prems [of i] obtain a where "arr_get (u_sr w) i = Inr (Some a)"
    "heap_get (u_senders w) (Some a) = Inr (f i)" by (auto simp: arr_get_def)
  moreover have "equal_addr host port (usr_host x) (usr_port x) \<longleftrightarrow> peer_addr x = (host, port)" for x
    by (auto simp: equal_addr_def peer_addr_def)
  moreover have "find_loop host port w is =
      Inr (case find (\<lambda>i. peer_addr (f i) = (host, port)) is of None \<Rightarrow> -1 | Some i \<Rightarrow> int i)"
    by (rule Cons.IH) (use Cons.prems in simp)
  ultimately show ?case by simp
qed

lemma find_sender_result:
  assumes "udp_inv w"
  shows "udpserver__find_sender host port w =
    Inr (case find (\<lambda>i. peer_addr (udp_peers w ! i) = (host, port)) [0..<u_nconnections w] of
           None \<Rightarrow> -1 | Some i \<Rightarrow> int i)"
  unfolding udpserver__find_sender_def
  by (rule find_loop_result) (use udp_inv_entry [OF assms] in auto)

lemma find_sender_hit:
  assumes "udp_inv w" "i < u_nconnections w" "peer_addr (udp_peers w ! i) = (host, port)"
  shows "udpserver__find_sender host port w = Inr (int i)"
proof -
  have "find (\<lambda>j. peer_addr (udp_peers w ! j) = (host, port)) [0..<u_nconnections w] = Some i"
  proof -
    have "peer_addr (udp_peers w ! j) \<noteq> (host, port)" if "j < i" for j
    proof -
      have "j < length (udp_peers w)" "i < length (udp_peers w)"
        using that assms(2) udp_inv_length(2) [OF assms(1)] by simp_all
      with nth_eq_iff_index_eq [OF udp_peers_distinct [OF assms(1)], of j i] that assms(3) show ?thesis by simp
    qed
    then show ?thesis unfolding find_Some_iff using assms(2,3) by (intro exI [of _ i]) simp
  qed
  then show ?thesis by (simp add: find_sender_result [OF assms(1)])
qed

lemma find_sender_miss:
  assumes "udp_inv w" "(host, port) \<notin> set (map peer_addr (udp_peers w))"
  shows "udpserver__find_sender host port w = Inr (-1)"
proof -
  have "find (\<lambda>j. peer_addr (udp_peers w ! j) = (host, port)) [0..<u_nconnections w] = None"
    unfolding find_None_iff udp_inv_length(2) [OF assms(1), symmetric] using assms(2)
    by (metis atLeast_upt in_set_conv_nth length_map lessThan_iff nth_map)
  then show ?thesis by (simp add: find_sender_result [OF assms(1)])
qed

end
