(* ===== verification/Udp_Server_Timeout.thy ===== *)
theory Udp_Server_Timeout
  imports Udp_Server_Table
begin

text \<open>
  Forgetting peers: what \<^verbatim>\<open>udpserver_sender_free\<close> does to the object, and that
  \<^verbatim>\<open>udpserver_sender_autoremove\<close> keeps exactly the peers that were heard of within the timeout.
\<close>

section \<open>Freeing one peer\<close>

definition usr_blocks :: "t_udpserver_sender \<Rightarrow> int" where
  "usr_blocks x = 1 + sender_blocks (usr_sender x)"

lemma usender_free_ok:
  assumes "map_of (u_senders w) a = Some x" "usr_ok x"
  obtains w' where "udpserver_sender_free (Some a) w = Inr w'"
    "world.more w' = world.more (w\<lparr>u_senders := heap_free (u_senders w) a\<rparr>)"
    "closed_fds (w_io w') = closed_fds (w_io w) @ [usr_uniq x]" "messages (w_io w') = messages (w_io w)"
    "w_live w' = w_live w - usr_blocks x" "mem_ok w \<longrightarrow> mem_ok w'"
proof -
  define w0 where "w0 = free (w\<lparr>u_senders := heap_free (u_senders w) a\<rparr>)"
  have w0: "w_io w0 = w_io w" "w_live w0 = w_live w - 1" "mem_ok w0 = mem_ok w"
    "world.more w0 = world.more (w\<lparr>u_senders := heap_free (u_senders w) a\<rparr>)"
    by (simp_all add: w0_def mem_ok_def)
  obtain w1 where w1: "(case usr_sender x of None \<Rightarrow> Inr w0 | Some s \<Rightarrow> iemnet__sender_destroy s w0) = Inr w1"
    "world.more w1 = world.more w0" "w_live w1 = w_live w0 - sender_blocks (usr_sender x)"
    "mem_ok w0 \<longrightarrow> mem_ok w1" "closed_fds (w_io w1) = closed_fds (w_io w0)" "messages (w_io w1) = messages (w_io w0)"
  proof (cases "usr_sender x")
    case None
    then show ?thesis using that by (simp add: sender_blocks_def)
  next
    case (Some s)
    with assms(2) have "sender_inv s" by (simp add: usr_ok_def)
    from sender_destroy_blocks [OF this, of w0] Some show ?thesis using that by auto
  qed
  have "0 \<le> usr_uniq x" using assms(2) by (simp add: usr_ok_def)
  moreover have "udpserver_sender_free (Some a) w =
      Inr (if usr_uniq x \<ge> 0 then iemnet__closesocket (usr_uniq x) True w1 else w1)"
    unfolding udpserver_sender_free_def by (simp add: assms(1) Let_def w1(1) [unfolded w0_def])
  ultimately show thesis
    using that [of "iemnet__closesocket (usr_uniq x) True w1"] w0 w1
    by (simp add: closesocket_facts closesocket_messages usr_blocks_def)
qed

section \<open>The three loops of the timeout\<close>

text \<open>One round of the first loop, on a table whose first cells are the peers kept so far.\<close>

lemma compact_entry_step:
  assumes "u_sr w = kept @ gap @ Some a # rest" "map_of (u_senders w) a = Some x" "usr_ok x"
    and "i = length kept + length gap"
  obtains w' where "compact_entry i (length kept, w) =
      Inr (length kept + (if u_timesince w (usr_lastseen x) > u_timeout w then 0 else 1), w')"
    "world.more w' = world.more (w\<lparr>
      u_sr := (if u_timesince w (usr_lastseen x) > u_timeout w then kept @ (gap @ [None]) @ rest
               else (kept @ [Some a]) @ tl (gap @ [Some a]) @ rest),
      u_senders := (if u_timesince w (usr_lastseen x) > u_timeout w then heap_free (u_senders w) a
               else u_senders w)\<rparr>)"
    "closed_fds (w_io w') = closed_fds (w_io w) @
      (if u_timesince w (usr_lastseen x) > u_timeout w then [usr_uniq x] else [])"
    "messages (w_io w') = messages (w_io w)" "mem_ok w \<longrightarrow> mem_ok w'"
proof -
  have get: "arr_get (u_sr w) i = Inr (Some a)" "i < length (u_sr w)" "length kept < length (u_sr w)"
    using assms(1,4) by (simp_all add: nth_append)
  show thesis
  proof (cases "u_timesince w (usr_lastseen x) > u_timeout w")
    case True
    obtain w1 where w1: "udpserver_sender_free (Some a) w = Inr w1"
      "world.more w1 = world.more (w\<lparr>u_senders := heap_free (u_senders w) a\<rparr>)"
      "closed_fds (w_io w1) = closed_fds (w_io w) @ [usr_uniq x]" "messages (w_io w1) = messages (w_io w)"
      "mem_ok w \<longrightarrow> mem_ok w1"
      by (rule usender_free_ok [OF assms(2,3)])
    note c = udp_more_cong [OF w1(2)]
    have "compact_entry i (length kept, w) = Inr (length kept, w1\<lparr>u_sr := (u_sr w)[i := None]\<rparr>)"
      using get(2) True c
      by (simp add: compact_entry_def get(1) heap_get_mapped [OF assms(2)] w1(1))
    moreover have "(u_sr w)[i := None] = kept @ (gap @ [None]) @ rest"
      using assms(1,4) by (simp add: list_update_append)
    moreover have "world.more (w1\<lparr>u_sr := t\<rparr>) = world.more (w\<lparr>u_sr := t, u_senders := heap_free (u_senders w) a\<rparr>)" for t
      using w1(2) by (cases w; cases w1) simp
    ultimately show ?thesis using that True w1 by (simp add: mem_ok_def)
  next
    case False
    have "compact_entry i (length kept, w) = Inr (length kept + 1, w\<lparr>u_sr := (u_sr w)[length kept := Some a]\<rparr>)"
      using get(3) False
      by (simp add: compact_entry_def get(1) heap_get_mapped [OF assms(2)])
    moreover have "(u_sr w)[length kept := Some a] = (kept @ [Some a]) @ tl (gap @ [Some a]) @ rest"
      using assms(1) by (cases gap) simp_all
    ultimately show ?thesis using that False by (simp add: mem_ok_def)
  qed
qed

lemma upt_first: "[i..<Suc (i + n)] = i # [Suc i..<Suc (i + n)]"
  by (subst upt_conv_Cons) simp_all

text \<open>
  The loop as a whole: \<open>old\<close> tells which of the peers are to be forgotten.
\<close>

lemma compact_loop:
  assumes "u_sr w = kept @ gap @ map Some as @ rest" "distinct as"
    and "\<And>a. a \<in> set as \<Longrightarrow> map_of (u_senders w) a = Some (f a) \<and> usr_ok (f a)"
    and "old = (\<lambda>a. u_timesince w (usr_lastseen (f a)) > u_timeout w)" "i = length kept + length gap"
  shows "\<exists>w' gap'. res_fold compact_entry [i..<i + length as] (length kept, w) =
      Inr (length kept + length (filter (\<lambda>a. \<not> old a) as), w') \<and>
    u_sr w' = kept @ map Some (filter (\<lambda>a. \<not> old a) as) @ gap' @ rest \<and>
    length gap' = length gap + length (filter old as) \<and>
    map_of (u_senders w') = (\<lambda>a. if a \<in> set as \<and> old a then None else map_of (u_senders w) a) \<and>
    (\<exists>h. world.more w' = world.more (w\<lparr>u_sr := u_sr w', u_senders := h\<rparr>)) \<and>
    closed_fds (w_io w') = closed_fds (w_io w) @ map (\<lambda>a. usr_uniq (f a)) (filter old as) \<and>
    messages (w_io w') = messages (w_io w) \<and> (mem_ok w \<longrightarrow> mem_ok w')"
  using assms
proof (induction as arbitrary: i w kept gap)
  case Nil
  have "\<exists>h. world.more w = world.more (w\<lparr>u_sr := kept @ gap @ rest, u_senders := h\<rparr>)"
    using Nil(1) by (intro exI [of _ "u_senders w"]) (cases w; simp)
  with Nil show ?case by (auto intro!: exI [of _ w] exI [of _ gap])
next
  case (Cons a as)
  let ?x = "f a"
  from Cons.prems have a: "u_sr w = kept @ gap @ Some a # map Some as @ rest" "map_of (u_senders w) a = Some ?x" "usr_ok ?x"
    and i: "i = length kept + length gap" by simp_all
  have old: "(u_timesince w (usr_lastseen ?x) > u_timeout w) = old a" using Cons.prems(4) by simp
  let ?kept = "if old a then kept else kept @ [Some a]" and ?gap = "if old a then gap @ [None] else tl (gap @ [Some a])"
  obtain w1 where w1: "compact_entry i (length kept, w) = Inr (length ?kept, w1)"
    "world.more w1 = world.more (w\<lparr>u_sr := ?kept @ ?gap @ map Some as @ rest,
        u_senders := (if old a then heap_free (u_senders w) a else u_senders w)\<rparr>)"
    "closed_fds (w_io w1) = closed_fds (w_io w) @ (if old a then [usr_uniq ?x] else [])"
    "messages (w_io w1) = messages (w_io w)" "mem_ok w \<longrightarrow> mem_ok w1"
    by (rule compact_entry_step [OF a i]) (auto simp: old)
  note c = udp_more_cong [OF w1(2)]
  have len: "Suc i = length ?kept + length ?gap" using i by simp
  have old1: "old = (\<lambda>a. u_timesince w1 (usr_lastseen (f a)) > u_timeout w1)"
    unfolding c using Cons.prems(4) by simp
  have in1: "map_of (u_senders w1) b = Some (f b) \<and> usr_ok (f b)" if "b \<in> set as" for b
    unfolding c using Cons.prems(2) Cons.prems(3) [of b] that by auto
  have sr1: "u_sr w1 = ?kept @ ?gap @ map Some as @ rest" and dist1: "distinct as"
    using c(1) Cons.prems(2) by simp_all
  obtain w' gap' h where IH: "res_fold compact_entry [Suc i..<Suc i + length as] (length ?kept, w1) =
      Inr (length ?kept + length (filter (\<lambda>a. \<not> old a) as), w')"
    "u_sr w' = ?kept @ map Some (filter (\<lambda>a. \<not> old a) as) @ gap' @ rest"
    "length gap' = length ?gap + length (filter old as)"
    "map_of (u_senders w') = (\<lambda>a. if a \<in> set as \<and> old a then None else map_of (u_senders w1) a)"
    "world.more w' = world.more (w1\<lparr>u_sr := u_sr w', u_senders := h\<rparr>)"
    "closed_fds (w_io w') = closed_fds (w_io w1) @ map (\<lambda>a. usr_uniq (f a)) (filter old as)"
    "messages (w_io w') = messages (w_io w1)" "mem_ok w1 \<longrightarrow> mem_ok w'"
    using Cons.IH [OF sr1 dist1 in1 old1 len] by blast
  have "[i..<i + length (a # as)] = i # [Suc i..<Suc i + length as]" by (simp add: upt_first del: upt_Suc)
  then have "res_fold compact_entry [i..<i + length (a # as)] (length kept, w) =
      Inr (length kept + length (filter (\<lambda>a. \<not> old a) (a # as)), w')"
    using w1(1) IH(1) by simp
  moreover have "world.more w' = world.more (w\<lparr>u_sr := u_sr w', u_senders := h\<rparr>)"
    using IH(5) w1(2) by (cases w; cases w1) simp
  moreover have "map_of (u_senders w') = (\<lambda>b. if b \<in> set (a # as) \<and> old b then None else map_of (u_senders w) b)"
    using IH(4) c(4) by (auto simp: fun_eq_iff)
  ultimately show ?case using IH w1 by (intro exI [of _ w'] exI [of _ gap']) auto
qed

lemma clear_loop:
  "res_fold (\<lambda>i sr. arr_set sr i None) [length xs..<length xs + length ys] (xs @ ys) =
     Inr (xs @ replicate (length ys) (None :: ptr))"
proof (induction ys arbitrary: xs)
  case Nil
  show ?case by simp
next
  case (Cons y ys)
  have "[length xs..<length xs + length (y # ys)] = length xs # [Suc (length xs)..<Suc (length xs) + length ys]"
    by (simp add: upt_first del: upt_Suc)
  with Cons.IH [of "xs @ [None]"] show ?case by (simp add: list_update_append)
qed

lemma count_live_table:
  "count_live (map Some as @ replicate k None) [n..<length as + k] n' = Inr (n' + (length as - n))"
  if "n \<le> length as"
  using that
proof (induction "length as - n" arbitrary: n n')
  case 0
  then have "n = length as" by simp
  then show ?case by (cases k) (simp_all add: upt_first nth_append del: upt_Suc)
next
  case (Suc d)
  then have n: "n < length as" by simp
  then have "[n..<length as + k] = n # [Suc n..<length as + k]" by (simp add: upt_conv_Cons)
  with Suc.hyps(1) [of "Suc n" "n' + 1"] Suc.hyps(2) n show ?case by (simp add: nth_append)
qed

section \<open>The timeout as a filter\<close>

text \<open>Does the object look for timed-out peers now? Which of them are too old?\<close>

definition udp_checks :: "t_udpserver \<Rightarrow> bool" where
  "udp_checks w \<longleftrightarrow> 0 < u_timeout w \<and> 0 < u_timesince w (u_lastchecked w)"

definition expired :: "t_udpserver \<Rightarrow> t_udpserver_sender \<Rightarrow> bool" where
  "expired w x \<longleftrightarrow> udp_checks w \<and> u_timesince w (usr_lastseen x) > u_timeout w"

text \<open>What stays the same when peers are forgotten.\<close>

definition udp_settings :: "t_udpserver \<Rightarrow> _" where
  "udp_settings w = (u_maxconnections w, u_connectsocket w, u_port w, u_ifaddr w, u_accept w, u_timeout w,
     u_defaulttarget w, u_receiver w, u_floatlist w, u_uniq w, u_logicaltime w, u_timesince w)"

lemma udp_settings_eq:
  "udp_settings w' = udp_settings w \<longleftrightarrow> u_maxconnections w' = u_maxconnections w \<and>
     u_connectsocket w' = u_connectsocket w \<and> u_port w' = u_port w \<and> u_ifaddr w' = u_ifaddr w \<and>
     u_accept w' = u_accept w \<and> u_timeout w' = u_timeout w \<and> u_defaulttarget w' = u_defaulttarget w \<and>
     u_receiver w' = u_receiver w \<and> u_floatlist w' = u_floatlist w \<and> u_uniq w' = u_uniq w \<and>
     u_logicaltime w' = u_logicaltime w \<and> u_timesince w' = u_timesince w"
  by (simp add: udp_settings_def)

lemma table_filter:
  assumes "udp_inv w" "udp_settings w' = udp_settings w"
    and "u_sr w' = map Some (filter p (udp_addrs w)) @
      replicate (u_maxconnections w - length (filter p (udp_addrs w))) None"
    and "u_nconnections w' = length (filter p (udp_addrs w))"
    and "map_of (u_senders w') = (\<lambda>a. if a \<in> set (udp_addrs w) \<and> \<not> p a then None else map_of (u_senders w) a)"
  shows "udp_table_ok w' (filter p (udp_addrs w))"
    and "udp_peers w' = map (\<lambda>a. the (map_of (u_senders w) a)) (filter p (udp_addrs w))"
proof -
  let ?as = "filter p (udp_addrs w)"
  have ok: "udp_table_ok w (udp_addrs w)" using assms(1) by (simp add: udp_inv_def)
  have same: "map_of (u_senders w') a = map_of (u_senders w) a" if "a \<in> set ?as" for a
    using that assms(5) by simp
  have "heap_dom (u_senders w') = heap_dom (u_senders w) - {a \<in> set (udp_addrs w). \<not> p a}"
    unfolding heap_dom_map_of assms(5) by (auto simp: dom_def split: if_splits)
  then have dom: "heap_dom (u_senders w') = set ?as" using ok by (auto simp: udp_table_ok_def)
  have peers: "map (\<lambda>a. peer_addr (the (map_of (u_senders w') a))) ?as =
      map (\<lambda>a. peer_addr (the (map_of (u_senders w) a))) ?as"
    using same by (intro map_cong) simp_all
  have "distinct (map (\<lambda>a. peer_addr (the (map_of (u_senders w) a))) ?as)"
    using ok by (auto simp: udp_table_ok_def intro: distinct_map_filter)
  moreover have "list_all (\<lambda>a. case map_of (u_senders w') a of None \<Rightarrow> False | Some x \<Rightarrow> usr_ok x) ?as"
    using ok same by (simp add: udp_table_ok_def list_all_iff)
  moreover have "length ?as \<le> length (udp_addrs w)" by simp
  ultimately show "udp_table_ok w' ?as"
    using ok assms(2-4) dom unfolding udp_table_ok_def peers udp_settings_eq by auto
  then show "udp_peers w' = map (\<lambda>a. the (map_of (u_senders w) a)) ?as"
    using same by (simp add: udp_peers_def udp_table_addrs)
qed

lemma autoremove_idle: "\<not> udp_checks w \<Longrightarrow> udpserver_sender_autoremove w = Inr w"
  by (auto simp: udp_checks_def udpserver_sender_autoremove_def)

text \<open>The three loops on the whole table: compaction, clearing of the rest, counting.\<close>

lemma compact_table:
  assumes "udp_inv w" "w1 = w\<lparr>u_lastchecked := u_logicaltime w\<rparr>" "f = (\<lambda>a. the (map_of (u_senders w) a))"
    and "old = (\<lambda>a. u_timesince w (usr_lastseen (f a)) > u_timeout w)" "keep = filter (\<lambda>a. \<not> old a) (udp_addrs w)"
  obtains w2 gap h where "res_fold compact_entry [0..<u_nconnections w] (0, w1) = Inr (length keep, w2)"
    "u_sr w2 = map Some keep @ gap" "length keep + length gap = u_maxconnections w"
    "map_of (u_senders w2) = (\<lambda>a. if a \<in> set (udp_addrs w) \<and> old a then None else map_of (u_senders w) a)"
    "world.more w2 = world.more (w1\<lparr>u_sr := u_sr w2, u_senders := h\<rparr>)"
    "closed_fds (w_io w2) = closed_fds (w_io w) @ map (\<lambda>a. usr_uniq (f a)) (filter old (udp_addrs w))"
    "messages (w_io w2) = messages (w_io w)" "mem_ok w \<longrightarrow> mem_ok w2"
proof -
  let ?as = "udp_addrs w" and ?n = "u_nconnections w" and ?m = "u_maxconnections w"
  have ok: "udp_table_ok w ?as" using assms(1) by (simp add: udp_inv_def)
  then have t: "u_sr w1 = [] @ [] @ map Some ?as @ replicate (?m - ?n) None" "distinct ?as" "length ?as = ?n" "?n \<le> ?m"
    by (simp_all add: udp_table_ok_def assms(2))
  have "map_of (u_senders w1) a = Some (f a) \<and> usr_ok (f a)" if "a \<in> set ?as" for a
    using ok that by (auto simp: udp_table_ok_def list_all_iff assms(2,3) split: option.splits)
  moreover have "old = (\<lambda>a. u_timesince w1 (usr_lastseen (f a)) > u_timeout w1)" by (simp add: assms(2,4))
  moreover have "0 = length ([] :: ptr list) + length ([] :: ptr list)" by simp
  ultimately obtain w2 gap h where w2:
    "res_fold compact_entry [0..<0 + length ?as] (length ([] :: ptr list), w1) = Inr (length ([] :: ptr list) + length keep, w2)"
    "u_sr w2 = [] @ map Some keep @ gap @ replicate (?m - ?n) None"
    "length gap = length ([] :: ptr list) + length (filter old ?as)"
    "map_of (u_senders w2) = (\<lambda>a. if a \<in> set ?as \<and> old a then None else map_of (u_senders w1) a)"
    "world.more w2 = world.more (w1\<lparr>u_sr := u_sr w2, u_senders := h\<rparr>)"
    "closed_fds (w_io w2) = closed_fds (w_io w1) @ map (\<lambda>a. usr_uniq (f a)) (filter old ?as)"
    "messages (w_io w2) = messages (w_io w1)" "mem_ok w1 \<longrightarrow> mem_ok w2"
    using compact_loop [OF t(1,2)] unfolding assms(5) by blast
  have io: "u_senders w1 = u_senders w" "w_io w1 = w_io w" "mem_ok w1 = mem_ok w"
    by (simp_all add: assms(2) mem_ok_def)
  have "length keep + length (gap @ replicate (?m - ?n) None) = ?m"
    using t(3,4) sum_length_filter_compl [of old ?as] w2(3) by (simp add: assms(5))
  with w2 io show thesis by (intro that [of w2 "gap @ replicate (?m - ?n) None" h]) (simp_all only: t(3), simp_all)
qed

lemma clear_table:
  assumes "sr = map Some keep @ gap" "length keep + length gap = m" "sr' = map Some keep @ replicate (m - length keep) None"
  shows "res_fold (\<lambda>i sr. arr_set sr i None) [length keep..<m] sr = Inr sr'"
    and "count_live sr' [0..<m] 0 = Inr (length keep)"
proof -
  have "length gap = m - length keep" using assms(2) by simp
  with clear_loop [of "map Some keep" gap, unfolded length_map assms(2)]
  show "res_fold (\<lambda>i sr. arr_set sr i None) [length keep..<m] sr = Inr sr'" by (simp only: assms(1,3) simp_thms)
  show "count_live sr' [0..<m] 0 = Inr (length keep)"
    using count_live_table [of 0 keep "m - length keep" 0] assms(2,3) by auto
qed

lemma autoremove_ok:
  assumes "udp_inv w"
  obtains w' where "udpserver_sender_autoremove w = Inr w'" "udp_inv w'"
    "udp_peers w' = filter (\<lambda>x. \<not> expired w x) (udp_peers w)" "udp_settings w' = udp_settings w"
    "closed_fds (w_io w') = closed_fds (w_io w) @ map usr_uniq (filter (expired w) (udp_peers w))"
    "messages (w_io w') = messages (w_io w)" "mem_ok w \<longrightarrow> mem_ok w'"
proof (cases "udp_checks w")
  case False
  then show thesis using that [of w] assms by (simp add: autoremove_idle expired_def)
next
  case True
  define f where "f = (\<lambda>a. the (map_of (u_senders w) a))"
  define old where "old = (\<lambda>a. u_timesince w (usr_lastseen (f a)) > u_timeout w)"
  let ?keep = "filter (\<lambda>a. \<not> old a) (udp_addrs w)" and ?w = "w\<lparr>u_lastchecked := u_logicaltime w\<rparr>"
  obtain w1 gap h where w1: "res_fold compact_entry [0..<u_nconnections w] (0, ?w) = Inr (length ?keep, w1)"
    "u_sr w1 = map Some ?keep @ gap" "length ?keep + length gap = u_maxconnections w"
    "map_of (u_senders w1) = (\<lambda>a. if a \<in> set (udp_addrs w) \<and> old a then None else map_of (u_senders w) a)"
    "world.more w1 = world.more (?w\<lparr>u_sr := u_sr w1, u_senders := h\<rparr>)"
    "closed_fds (w_io w1) = closed_fds (w_io w) @ map (\<lambda>a. usr_uniq (f a)) (filter old (udp_addrs w))"
    "messages (w_io w1) = messages (w_io w)" "mem_ok w \<longrightarrow> mem_ok w1"
    by (rule compact_table [OF assms refl f_def old_def refl])
  note c = udp_more_cong [OF w1(5)]
  let ?sr = "map Some ?keep @ replicate (u_maxconnections w - length ?keep) None"
  define w' where "w' = w1\<lparr>u_sr := ?sr, u_nconnections := length ?keep\<rparr>"
  have run: "udpserver_sender_autoremove w = Inr w'"
    using True w1(1) clear_table [OF w1(2,3) refl] c(3)
    by (simp add: udpserver_sender_autoremove_def udp_checks_def w'_def Let_def)
  have set: "udp_settings w' = udp_settings w" using c by (simp add: udp_settings_eq w'_def)
  have e: "expired w (f a) = old a" for a using True by (simp add: expired_def old_def)
  have "udp_table_ok w' ?keep" "udp_peers w' = map f ?keep"
    using table_filter [OF assms set, of "\<lambda>a. \<not> old a"] w1(4) unfolding f_def by (simp_all add: w'_def)
  moreover have "udp_peers w = map f (udp_addrs w)" by (simp add: udp_peers_def f_def)
  ultimately show thesis using that [OF run _ _ set] w1 udp_invI
    by (simp add: w'_def filter_map comp_def e mem_ok_def)
qed

end
