(* ===== verification/Udp_Server_Receive.thy ===== *)
theory Udp_Server_Receive
  imports Udp_Server_Timeout
begin

text \<open>
  Peers become known when they are heard of: adding to the table and refreshing an entry, and what the
  receive callback hands on to Pd.
\<close>

section \<open>Changing and adding entries\<close>

lemma table_put:
  assumes "udp_inv w" "i < u_nconnections w" "usr_ok x" "peer_addr x = peer_addr (udp_peers w ! i)"
    and "world.more w' = world.more (w\<lparr>u_senders := heap_put (u_senders w) (udp_addrs w ! i) x\<rparr>)"
  shows "udp_table_ok w' (udp_addrs w)" "udp_peers w' = (udp_peers w)[i := x]"
proof -
  let ?as = "udp_addrs w" and ?a = "udp_addrs w ! i"
  note c = udp_more_cong [OF assms(5)]
  have ok: "udp_table_ok w ?as" using assms(1) by (simp add: udp_inv_def)
  then have len: "i < length ?as" and dist: "distinct ?as" using assms(2) by (simp_all add: udp_table_ok_def)
  note e = udp_inv_entry [OF assms(1,2)]
  have m: "map_of (u_senders w') = (map_of (u_senders w))(?a \<mapsto> x)" by (simp add: c)
  have same: "peer_addr (the (map_of (u_senders w') a)) = peer_addr (the (map_of (u_senders w) a))" for a
    using e(2) assms(4) by (simp add: m)
  have "heap_dom (u_senders w') = heap_dom (u_senders w)"
    using e(2) by (auto simp: heap_dom_map_of m)
  moreover have "list_all (\<lambda>a. case map_of (u_senders w') a of None \<Rightarrow> False | Some x \<Rightarrow> usr_ok x) ?as"
    using ok assms(3) by (simp add: udp_table_ok_def list_all_iff m)
  ultimately show t: "udp_table_ok w' ?as" using ok same by (simp add: udp_table_ok_def c)
  have "map (\<lambda>a. the (map_of (u_senders w') a)) ?as = (map (\<lambda>a. the (map_of (u_senders w) a)) ?as)[i := x]"
    by (rule nth_equalityI) (use len dist in \<open>auto simp: m nth_list_update nth_eq_iff_index_eq\<close>)
  then show "udp_peers w' = (udp_peers w)[i := x]" by (simp add: udp_peers_def udp_table_addrs [OF t])
qed

lemma table_snoc:
  assumes "udp_inv w" "u_nconnections w < u_maxconnections w" "usr_ok x"
    "peer_addr x \<notin> set (map peer_addr (udp_peers w))" "map_of (u_senders w) a = None" "0 \<le> k"
    and "world.more w' = world.more (w\<lparr>u_uniq := k, u_senders := heap_put (u_senders w) a x,
      u_sr := (u_sr w)[u_nconnections w := Some a], u_nconnections := u_nconnections w + 1\<rparr>)"
  shows "udp_table_ok w' (udp_addrs w @ [a])" "udp_peers w' = udp_peers w @ [x]"
proof -
  let ?as = "udp_addrs w" and ?n = "u_nconnections w" and ?m = "u_maxconnections w"
  note c = udp_more_cong [OF assms(7)]
  have ok: "udp_table_ok w ?as" using assms(1) by (simp add: udp_inv_def)
  then have sr: "u_sr w = map Some ?as @ replicate (?m - ?n) None" and len: "length ?as = ?n"
    and dom: "heap_dom (u_senders w) = set ?as" by (simp_all add: udp_table_ok_def)
  have new: "a \<notin> set ?as" using assms(5) dom by (auto simp: heap_dom_map_of)
  have m: "map_of (u_senders w') = (map_of (u_senders w))(a \<mapsto> x)" by (simp add: c)
  obtain d where "?m - ?n = Suc d" using assms(2) by (cases "?m - ?n") simp_all
  then have "u_sr w' = map Some (?as @ [a]) @ replicate (?m - length (?as @ [a])) None"
    using assms(2) len by (simp add: c sr list_update_append)
  moreover have "heap_dom (u_senders w') = set (?as @ [a])"
    using dom by (simp add: c)
  moreover have "list_all (\<lambda>a. case map_of (u_senders w') a of None \<Rightarrow> False | Some x \<Rightarrow> usr_ok x) (?as @ [a])"
    using ok new assms(3) by (auto simp: udp_table_ok_def list_all_iff m)
  moreover have old: "map (\<lambda>a. the (map_of (u_senders w') a)) ?as = udp_peers w"
    using new by (simp add: udp_peers_def m)
  then have "map (\<lambda>a. peer_addr (the (map_of (u_senders w') a))) (?as @ [a]) = map peer_addr (udp_peers w) @ [peer_addr x]"
    by (simp add: udp_peers_def m comp_def)
  ultimately show t: "udp_table_ok w' (?as @ [a])"
    using ok assms(2,4,6) new udp_peers_distinct [OF assms(1)]
    unfolding udp_table_ok_def by (simp add: c)
  show "udp_peers w' = udp_peers w @ [x]"
    using old by (simp add: udp_peers_def [of w'] udp_table_addrs [OF t] m)
qed

section \<open>Adding a peer\<close>

lemma usender_new_ok:
  assumes "mem_ok w" "w_sys w = r # rs" "0 \<le> u_uniq w"
  obtains x w' where "udpserver_sender_new host port w = Inr (Some (heap_fresh (u_senders w)), w')"
    "world.more w' = world.more (w\<lparr>u_uniq := u_uniq w + 1,
      u_senders := heap_put (u_senders w) (heap_fresh (u_senders w)) x\<rparr>)"
    "usr_ok x" "peer_addr x = (host, port)" "usr_lastseen x = u_logicaltime w" "usr_uniq x = u_uniq w"
    "mem_ok w'" "messages (w_io w') = messages (w_io w)" "closed_fds (w_io w') = closed_fds (w_io w)"
    "a_ret r = 0 \<longrightarrow> (\<exists>s. usr_sender x = Some s \<and> s_isrunning s \<and> s_queue s = Some queue_empty \<and>
       s_sockfd s = u_connectsocket w)"
proof -
  obtain ok w1 where m: "malloc w = (ok, w1)" by fastforce
  from mem_ok_malloc [OF assms(1)] mem_step_malloc [of w] m have ok: ok "mem_step w 1 w1" by auto
  let ?w1 = "w1\<lparr>u_uniq := u_uniq w1 + 1\<rparr>"
  have w1: "mem_ok ?w1" "w_sys ?w1 = r # rs" "world.more w1 = world.more w" "w_io ?w1 = w_io w"
    using ok assms(1,2) by (auto simp: mem_step_def mem_ok_def)
  note c1 = udp_more_cong [OF w1(3)]
  obtain s w2 where s: "iemnet__sender_create (u_connectsocket ?w1) None None ?w1 = Inr (s, w2)"
    "world.more w2 = world.more ?w1" "mem_ok w2" "w_io w2 = w_io ?w1 @ [Syscall ''pthread_create'' [] (a_ret r)]"
    "(s = None) = (a_ret r \<noteq> 0)" "\<forall>s'. s = Some s' \<longrightarrow> sender_inv s' \<and> s_isrunning s' \<and>
      s_sockfd s' = u_connectsocket ?w1 \<and> s_queue s' = Some queue_empty"
    using sender_create_result [OF w1(1,2)] by blast
  note c2 = udp_more_cong [OF s(2)]
  let ?x = "\<lparr>usr_owner = True, usr_host = host, usr_port = port, usr_hostname = dotted_quads host,
     usr_uniq = u_uniq w, usr_sender = s, usr_lastseen = u_logicaltime w\<rparr>"
  let ?a = "heap_fresh (u_senders w)"
  have "udpserver_sender_new host port w = Inr (Some ?a, w2\<lparr>u_senders := heap_put (u_senders w) ?a ?x\<rparr>)"
    using ok(1) s(1) c1 c2 by (simp add: udpserver_sender_new_def m Let_def)
  moreover have "world.more (w2\<lparr>u_senders := h\<rparr>) = world.more (w\<lparr>u_uniq := u_uniq w + 1, u_senders := h\<rparr>)" for h
    using s(2) w1(3) by (cases w; cases w1; cases w2) simp
  moreover have "usr_ok ?x" using s(6) assms(3) by (auto simp: usr_ok_def split: option.splits)
  moreover have "a_ret r = 0 \<longrightarrow> (\<exists>s'. s = Some s' \<and> s_isrunning s' \<and> s_queue s' = Some queue_empty \<and>
      s_sockfd s' = u_connectsocket w)"
    using s(5,6) c1 by (cases s) auto
  ultimately show thesis using that [of "w2\<lparr>u_senders := heap_put (u_senders w) ?a ?x\<rparr>" ?x] s w1
    by (simp add: mem_ok_def peer_addr_def)
qed

text \<open>
  The abstract table: the addresses of the peers with the time each was last heard of. Hearing from \<open>a\<close>
  refreshes its entry or appends a new one; \<open>None\<close> means that there is no room for it.
\<close>

type_synonym peer = "(32 word \<times> 16 word) \<times> rat"

definition abs_peer :: "t_udpserver_sender \<Rightarrow> peer" where
  "abs_peer x = (peer_addr x, usr_lastseen x)"

definition udp_known :: "t_udpserver \<Rightarrow> peer list" where
  "udp_known w = map abs_peer (udp_peers w)"

definition heard :: "nat \<Rightarrow> 32 word \<times> 16 word \<Rightarrow> rat \<Rightarrow> peer list \<Rightarrow> peer list option" where
  "heard limit a now ps =
     (if a \<in> fst ` set ps then Some (map (\<lambda>p. if fst p = a then (a, now) else p) ps)
      else if length ps < limit then Some (ps @ [(a, now)]) else None)"

lemma heard_known:
  assumes "distinct (map fst ps)" "i < length ps" "fst (ps ! i) = a"
  shows "heard limit a now ps = Some (ps[i := (a, now)])"
proof -
  have "map (\<lambda>p. if fst p = a then (a, now) else p) ps = ps[i := (a, now)]"
  proof (rule nth_equalityI)
    fix j
    assume "j < length (map (\<lambda>p. if fst p = a then (a, now) else p) ps)"
    then have j: "j < length ps" by simp
    then have "(fst (ps ! j) = a) = (j = i)"
      using nth_eq_iff_index_eq [OF assms(1), of j i] assms(2,3) by simp
    with j show "map (\<lambda>p. if fst p = a then (a, now) else p) ps ! j = ps[i := (a, now)] ! j"
      by (simp add: nth_list_update)
  qed simp
  moreover have "a \<in> fst ` set ps" using assms(2,3) by force
  ultimately show ?thesis by (simp add: heard_def)
qed

text \<open>
  The outcome of \<^verbatim>\<open>udpserver_sender_add\<close> when the peer is in the table afterwards: its entry is \<open>x\<close>, at address \<open>a\<close>.
\<close>

definition noted :: "32 word \<Rightarrow> 16 word \<Rightarrow> t_udpserver \<Rightarrow> nat \<Rightarrow> t_udpserver_sender \<Rightarrow> t_udpserver \<Rightarrow> bool" where
  "noted host port w a x w' \<longleftrightarrow> udpserver_sender_add host port w = Inr (Some a, w') \<and>
     heard (u_maxconnections w) (host, port) (u_logicaltime w) (udp_known w) = Some (udp_known w') \<and>
     udp_inv w' \<and> map_of (u_senders w') a = Some x \<and> peer_addr x = (host, port) \<and>
     mem_ok w' \<and> messages (w_io w') = messages (w_io w) \<and> closed_fds (w_io w') = closed_fds (w_io w) \<and>
     u_accept w' = u_accept w \<and> u_maxconnections w' = u_maxconnections w \<and> u_floatlist w' = u_floatlist w \<and>
     u_timeout w' = u_timeout w \<and> u_receiver w' = u_receiver w"

lemma notedD:
  assumes "noted host port w a x w'"
  shows "udpserver_sender_add host port w = Inr (Some a, w')" "udp_inv w'" "map_of (u_senders w') a = Some x"
    "mem_ok w'" "messages (w_io w') = messages (w_io w)" "closed_fds (w_io w') = closed_fds (w_io w)"
  using assms by (simp_all add: noted_def)

lemma sender_add_known:
  assumes "udp_inv w" "mem_ok w" "u_accept w \<noteq> 0" "(host, port) \<in> set (map peer_addr (udp_peers w))"
  shows "\<exists>a x w'. noted host port w a x w'"
proof -
  from assms(4) obtain i where i: "i < u_nconnections w" "peer_addr (udp_peers w ! i) = (host, port)"
    using udp_inv_length(2) [OF assms(1)] by (auto simp: in_set_conv_nth)
  note e = udp_inv_entry [OF assms(1) i(1)]
  let ?x = "(udp_peers w ! i)\<lparr>usr_lastseen := u_logicaltime w\<rparr>"
  let ?w = "w\<lparr>u_senders := heap_put (u_senders w) (udp_addrs w ! i) ?x\<rparr>"
  have run: "udpserver_sender_add host port w = Inr (Some (udp_addrs w ! i), ?w)"
    using assms(3) e by (simp add: udpserver_sender_add_def find_sender_hit [OF assms(1) i])
  have x: "usr_ok ?x" "peer_addr ?x = peer_addr (udp_peers w ! i)"
    using e(3) by (simp_all add: usr_ok_def peer_addr_def)
  note t = table_put [OF assms(1) i(1) x refl]
  have "udp_known ?w = (udp_known w)[i := ((host, port), u_logicaltime w)]"
    using x(2) i(2) by (simp add: udp_known_def t(2) map_update abs_peer_def)
  moreover have "distinct (map fst (udp_known w))" "i < length (udp_known w)" "fst (udp_known w ! i) = (host, port)"
    using udp_peers_distinct [OF assms(1)] i udp_inv_length(2) [OF assms(1)]
    by (simp_all add: udp_known_def abs_peer_def comp_def)
  ultimately have "heard (u_maxconnections w) (host, port) (u_logicaltime w) (udp_known w) = Some (udp_known ?w)"
    using heard_known by metis
  with run have "noted host port w (udp_addrs w ! i) ?x ?w"
    using udp_invI [OF t(1)] x(2) i(2) assms(2) by (simp add: noted_def mem_ok_def)
  then show ?thesis by blast
qed

lemma sender_add_new:
  assumes "udp_inv w" "mem_ok w" "u_accept w \<noteq> 0" "w_sys w \<noteq> []"
    and "(host, port) \<notin> set (map peer_addr (udp_peers w))" "u_nconnections w < u_maxconnections w"
  shows "\<exists>a x w'. noted host port w a x w' \<and> udp_peers w' = udp_peers w @ [x] \<and>
    (a_ret (hd (w_sys w)) = 0 \<longrightarrow> (\<exists>s. usr_sender x = Some s \<and> s_isrunning s \<and> s_queue s = Some queue_empty))"
proof -
  let ?n = "u_nconnections w" and ?a = "heap_fresh (u_senders w)"
  have known: "(host, port) \<notin> fst ` set (udp_known w)" "length (udp_known w) = ?n"
    using assms(5) udp_inv_length(2) [OF assms(1)] by (auto simp: udp_known_def abs_peer_def)
  obtain r rs where sys: "w_sys w = r # rs" using assms(4) by (cases "w_sys w") auto
  have uniq: "0 \<le> u_uniq w" using assms(1) by (simp add: udp_inv_def udp_table_ok_def)
  obtain x w1 where w1: "udpserver_sender_new host port w = Inr (Some ?a, w1)"
    "world.more w1 = world.more (w\<lparr>u_uniq := u_uniq w + 1, u_senders := heap_put (u_senders w) ?a x\<rparr>)"
    "usr_ok x" "peer_addr x = (host, port)" "usr_lastseen x = u_logicaltime w"
    "mem_ok w1" "messages (w_io w1) = messages (w_io w)" "closed_fds (w_io w1) = closed_fds (w_io w)"
    "a_ret r = 0 \<longrightarrow> (\<exists>s. usr_sender x = Some s \<and> s_isrunning s \<and> s_queue s = Some queue_empty \<and> s_sockfd s = u_connectsocket w)"
    by (rule usender_new_ok [OF assms(2) sys uniq])
  note c = udp_more_cong [OF w1(2)]
  let ?w = "w1\<lparr>u_sr := (u_sr w)[?n := Some ?a], u_nconnections := ?n + 1\<rparr>"
  have run: "udpserver_sender_add host port w = Inr (Some ?a, ?w)"
    using assms(3,6) find_sender_miss [OF assms(1,5)] udp_inv_length(3-5) [OF assms(1)] w1(1) c
    by (simp add: udpserver_sender_add_def)
  have more: "world.more ?w = world.more (w\<lparr>u_uniq := u_uniq w + 1, u_senders := heap_put (u_senders w) ?a x,
      u_sr := (u_sr w)[?n := Some ?a], u_nconnections := ?n + 1\<rparr>)"
    using w1(2) by (cases w; cases w1) simp
  have "peer_addr x \<notin> set (map peer_addr (udp_peers w))" "map_of (u_senders w) ?a = None" "0 \<le> u_uniq w + 1"
    using assms(5) w1(4) uniq by simp_all
  note t = table_snoc [OF assms(1,6) w1(3) this more]
  have "udp_known ?w = udp_known w @ [((host, port), u_logicaltime w)]"
    unfolding udp_known_def t(2) using w1(4,5) by (simp add: abs_peer_def)
  then have "heard (u_maxconnections w) (host, port) (u_logicaltime w) (udp_known w) = Some (udp_known ?w)"
    using known assms(6) by (simp add: heard_def)
  with run have "noted host port w ?a x ?w" using udp_invI [OF t(1)] w1 c by (simp add: noted_def mem_ok_def)
  moreover have "a_ret (hd (w_sys w)) = 0 \<longrightarrow> (\<exists>s. usr_sender x = Some s \<and> s_isrunning s \<and> s_queue s = Some queue_empty)"
    using w1(9) sys by auto
  ultimately show ?thesis using t(2) by blast
qed

lemma sender_add_refines:
  assumes "udp_inv w" "mem_ok w" "u_accept w \<noteq> 0" "w_sys w \<noteq> []"
  obtains (dropped) "udpserver_sender_add host port w = Inr (None, w)"
      "heard (u_maxconnections w) (host, port) (u_logicaltime w) (udp_known w) = None"
  | (added) a x w' where "noted host port w a x w'"
proof (cases "(host, port) \<in> set (map peer_addr (udp_peers w)) \<or> u_nconnections w < u_maxconnections w")
  case True
  then show thesis using sender_add_known [OF assms(1-3)] sender_add_new [OF assms] added by blast
next
  case False
  then have "(host, port) \<notin> fst ` set (udp_known w)" "length (udp_known w) = u_nconnections w"
    using udp_inv_length(2) [OF assms(1)] by (auto simp: udp_known_def abs_peer_def)
  with False show thesis using dropped assms(3) find_sender_miss [OF assms(1)] udp_inv_length(4,5) [OF assms(1)]
    by (simp add: udpserver_sender_add_def heard_def)
qed

section \<open>The receive callback\<close>

text \<open>The rest of the callback, after the peer has been noted.\<close>

lemma receive_noted:
  assumes "noted (c_addr c) (c_port c) w a x w1" "wf_chunk c" "y \<noteq> None"
  shows "\<exists>w'. udpserver_receive_callback y (Some c) w = Inr w' \<and> udp_inv w' \<and> mem_ok w' \<and>
    closed_fds (w_io w') = closed_fds (w_io w) \<and> udp_peers w' = udp_peers w1 \<and>
    messages (w_io w') = messages (w_io w) @ [byte_atoms (chunk_bytes c)]"
proof -
  note added = notedD [OF assms(1)]
  let ?w2 = "udpserver_info_connection (usr_host x) (usr_port x) w1"
  have w2: "world.more ?w2 = world.more w1" "mem_ok ?w2" "messages (w_io ?w2) = messages (w_io w1)"
    "closed_fds (w_io ?w2) = closed_fds (w_io w1)"
    using added by (simp_all add: udpserver_info_connection_def out_defs mem_ok_def Let_def)
  note c2 = udp_more_cong [OF w2(1)]
  have "case u_floatlist ?w2 of None \<Rightarrow> True | Some fl \<Rightarrow> wf_floatlist fl"
    using added(2) by (simp add: c2 udp_inv_def udp_table_ok_def)
  then obtain fl w3 where w3: "iemnet__chunk2list (Some c) (u_floatlist ?w2) ?w2 = Inr (Some fl, w3)"
    "world.more w3 = world.more ?w2" "w_io w3 = w_io ?w2" "mem_ok w3" "wf_floatlist fl"
    "floatlist_atoms fl = byte_atoms (chunk_bytes c)"
    by (rule chunk2list_ok [OF assms(2) w2(2)])
  let ?w3 = "w3\<lparr>u_floatlist := Some fl\<rparr>"
  let ?w4 = "if u_nconnections w \<noteq> u_nconnections ?w3
    then iemnet__numconnout (Some Statusout) (Some Connectout) (int (u_nconnections ?w3)) ?w3 else ?w3"
  define w5 where "w5 = emit (Outlet_list Msgout ''list'' (floatlist_atoms fl)) ?w4"
  have run: "udpserver_receive_callback y (Some c) w = Inr w5"
    using assms(3) added(1,3) w3(1)
    by (auto simp: w5_def udpserver_receive_callback_def Let_def outlet_floatlist_ok [OF w3(5)])
  have more: "world.more w5 = world.more (w1\<lparr>u_floatlist := Some fl\<rparr>)"
    using w3(2) w2(1) by (cases w1; cases ?w2; cases w3) (simp add: w5_def split: if_splits)
  note c5 = udp_more_cong [OF more]
  have "udp_table_ok w5 (udp_addrs w1)"
    using added(2) w3(5) by (simp add: udp_inv_def udp_table_ok_def c5)
  then have "udp_inv w5" "udp_addrs w5 = udp_addrs w1" by (auto intro: udp_invI udp_table_addrs)
  moreover have "udp_peers w5 = udp_peers w1"
    by (simp add: udp_peers_def calculation(2) c5)
  moreover have "messages (w_io w5) = messages (w_io w) @ [byte_atoms (chunk_bytes c)]"
    "closed_fds (w_io w5) = closed_fds (w_io w)" "mem_ok w5"
    using added w2 w3 by (simp_all add: w5_def numconnout_facts mem_ok_def)
  ultimately show ?thesis using run by blast
qed

lemma receive_refines:
  assumes "udp_inv w" "mem_ok w" "w_sys w \<noteq> []" "wf_chunk c" "y \<noteq> None"
  shows "\<exists>w'. udpserver_receive_callback y (Some c) w = Inr w' \<and> udp_inv w' \<and> mem_ok w' \<and>
    closed_fds (w_io w') = closed_fds (w_io w) \<and>
    (case (if u_accept w = 0 then None
           else heard (u_maxconnections w) (c_addr c, c_port c) (u_logicaltime w) (udp_known w)) of
       None \<Rightarrow> w' = w
     | Some ps \<Rightarrow> udp_known w' = ps \<and> messages (w_io w') = messages (w_io w) @ [byte_atoms (chunk_bytes c)])"
proof (cases "u_accept w = 0")
  case True
  then have "udpserver_receive_callback y (Some c) w = Inr w"
    using assms(5) by (simp add: udpserver_receive_callback_def udpserver_sender_add_def)
  with True assms show ?thesis by simp
next
  case False
  from assms(1,2) False assms(3) show ?thesis
  proof (cases rule: sender_add_refines [of w "c_addr c" "c_port c"])
    case dropped
    with assms(5) have "udpserver_receive_callback y (Some c) w = Inr w"
      by (simp add: udpserver_receive_callback_def)
    with dropped(2) False assms show ?thesis by simp
  next
    case (added a x w1)
    with receive_noted [OF added assms(4,5)] False show ?thesis by (auto simp: noted_def udp_known_def)
  qed
qed

text \<open>The first datagram to a server without peers: its sender becomes a peer, with a send thread that runs.\<close>

lemma receive_first:
  assumes "udp_inv w" "mem_ok w" "u_accept w \<noteq> 0" "w_sys w = r # rs" "a_ret r = 0" "wf_chunk c" "y \<noteq> None"
    and "udp_peers w = []" "0 < u_maxconnections w"
  shows "\<exists>x s w'. udpserver_receive_callback y (Some c) w = Inr w' \<and> udp_inv w' \<and> mem_ok w' \<and> udp_peers w' = [x] \<and>
    peer_addr x = (c_addr c, c_port c) \<and> usr_sender x = Some s \<and> s_isrunning s \<and> s_queue s = Some queue_empty"
proof -
  have "w_sys w \<noteq> []" "(c_addr c, c_port c) \<notin> set (map peer_addr (udp_peers w))" "u_nconnections w < u_maxconnections w"
    using assms(4,8,9) udp_inv_length(2) [OF assms(1)] by simp_all
  from sender_add_new [OF assms(1-3) this] assms(4,5,8) obtain a x s w1 where
    w1: "noted (c_addr c) (c_port c) w a x w1" "udp_peers w1 = [x]" "usr_sender x = Some s" "s_isrunning s" "s_queue s = Some queue_empty"
    by auto
  with receive_noted [OF w1(1) assms(6,7)] show ?thesis by (fastforce simp: noted_def)
qed

end
