(* ===== verification/Udp_Server_Send.thy ===== *)
theory Udp_Server_Send
  imports Udp_Server_Receive
begin

text \<open>
  Sending from the UDP server: every peer has a queue of its own, and a message is addressed to the peer
  before it is queued.
\<close>

section \<open>The queues of the peers\<close>

definition peer_pending :: "t_udpserver_sender \<Rightarrow> t_iemnet_chunk list" where
  "peer_pending x = (case usr_sender x of None \<Rightarrow> [] | Some s \<Rightarrow> sender_pending s)"

definition udp_queues :: "t_udpserver \<Rightarrow> ((32 word \<times> 16 word) \<times> t_iemnet_chunk list) list" where
  "udp_queues w = map (\<lambda>x. (peer_addr x, peer_pending x)) (udp_peers w)"

text \<open>The send thread of the peer is running, and the fill state of its queue stays below \<open>2 ^ 31\<close>.\<close>

definition peer_takes :: "nat \<Rightarrow> t_udpserver_sender \<Rightarrow> bool" where
  "peer_takes n x \<longleftrightarrow> (case usr_sender x of None \<Rightarrow> False
     | Some s \<Rightarrow> s_isrunning s \<and> s_queue s \<noteq> None \<and> chunks_size (sender_pending s) + n < 2147483648)"

text \<open>The chunk as it is queued for a peer.\<close>

definition addressed :: "t_iemnet_chunk \<Rightarrow> 32 word \<times> 16 word \<Rightarrow> t_iemnet_chunk" where
  "addressed c a = c\<lparr>c_addr := fst a, c_port := snd a, c_family := AF_INET\<rparr>"

definition queued :: "t_iemnet_chunk \<Rightarrow> (32 word \<times> 16 word) \<times> t_iemnet_chunk list \<Rightarrow>
    (32 word \<times> 16 word) \<times> t_iemnet_chunk list" where
  "queued c p = (fst p, snd p @ [addressed c (fst p)])"

lemma wf_chunk_address: "wf_chunk c \<Longrightarrow> wf_chunk (c\<lparr>c_addr := a, c_port := p\<rparr>)"
  by (simp add: wf_chunk_def split: option.splits)

lemma addressed_again [simp]:
  "queued (c\<lparr>c_addr := a, c_port := p\<rparr>) x = queued c x" "c_size (c\<lparr>c_addr := a, c_port := p\<rparr>) = c_size c"
  by (simp_all add: queued_def addressed_def)

lemma usend_bytes_ok:
  assumes "udp_inv w" "i < u_nconnections w" "mem_ok w" "wf_chunk c" "peer_takes (c_size c) (udp_peers w ! i)"
  obtains x' w' where "udpserver_send_bytes i (Some c) w =
      Inr (Some (c\<lparr>c_addr := usr_host (udp_peers w ! i), c_port := usr_port (udp_peers w ! i)\<rparr>), w')"
    "udp_inv w'" "udp_addrs w' = udp_addrs w" "udp_peers w' = (udp_peers w)[i := x']" "mem_ok w'"
    "udp_queues w' = (udp_queues w)[i := queued c (udp_queues w ! i)]"
    "u_nconnections w' = u_nconnections w"
proof -
  note e = udp_inv_entry [OF assms(1,2)]
  let ?x = "udp_peers w ! i" and ?a = "udp_addrs w ! i"
  let ?c = "c\<lparr>c_addr := usr_host ?x, c_port := usr_port ?x\<rparr>"
  from assms(5) obtain s where s: "usr_sender ?x = Some s" "s_isrunning s" "s_queue s \<noteq> None"
    "chunks_size (sender_pending s) + c_size ?c < 2147483648"
    by (auto simp: peer_takes_def split: option.splits)
  have inv: "sender_inv s" using e(3) s(1) by (simp add: usr_ok_def)
  obtain s' w1 where q': "iemnet__sender_send s (Some ?c) w = Inr (int (chunks_size (sender_pending s')), s', w1)"
    "sender_inv s'" "sender_pending s' = sender_pending s @ [?c\<lparr>c_family := AF_INET\<rparr>]" "mem_step w 3 w1"
    by (rule sender_send_fits [OF inv s(2,3) wf_chunk_address [OF assms(4)] assms(3) s(4)])
  let ?x' = "?x\<lparr>usr_sender := Some s'\<rparr>"
  define w' where "w' = emit (Outlet_anything Statusout ''sendbuffersize''
    [SETFLOAT (int i + 1), SETFLOAT (int (chunks_size (sender_pending s'))), SETFLOAT (usr_uniq ?x)])
    (w1\<lparr>u_senders := heap_put (u_senders w1) ?a ?x'\<rparr>)"
  have more1: "world.more w1 = world.more w" using q'(4) by (simp add: mem_step_def)
  have len: "i < u_maxconnections w" using e(4) udp_inv_length(3) [OF assms(1)] by simp
  have run: "udpserver_send_bytes i (Some c) w = Inr (Some ?c, w')"
    using len e s q'(1) by (simp add: udpserver_send_bytes_def w'_def)
  have more: "world.more w' = world.more (w\<lparr>u_senders := heap_put (u_senders w) ?a ?x'\<rparr>)"
    using more1 by (cases w; cases w1) (simp add: w'_def)
  have "usr_ok ?x'" "peer_addr ?x' = peer_addr ?x" using e(3) q'(2) by (simp_all add: usr_ok_def peer_addr_def)
  note t = table_put [OF assms(1,2) this more]
  have "udp_queues w' = (udp_queues w)[i := queued c (udp_queues w ! i)]"
    using s(1) q'(3) assms(2) udp_inv_length(2) [OF assms(1)]
    by (simp add: udp_queues_def t(2) map_update queued_def addressed_def peer_addr_def peer_pending_def)
  moreover have "u_nconnections w' = u_nconnections w" using udp_more_cong(2) [OF more] by simp
  moreover have "mem_ok w'" using q'(4) assms(3) by (simp add: w'_def mem_step_def mem_ok_def)
  ultimately show thesis using that [OF run udp_invI [OF t(1)] udp_table_addrs [OF t(1)] t(2)] by simp
qed

section \<open>Sending to many peers\<close>

lemma send_all_ok:
  assumes "udp_inv w" "mem_ok w" "wf_chunk c"
    and "\<And>j. k \<le> j \<Longrightarrow> j < u_nconnections w \<Longrightarrow> \<not> skip j \<Longrightarrow> peer_takes (c_size c) (udp_peers w ! j)"
  shows "\<exists>c' w'. send_all_from skip k (Some c) w = Inr (Some c', w') \<and> udp_inv w' \<and> mem_ok w' \<and>
    u_nconnections w' = u_nconnections w \<and> length (udp_queues w') = length (udp_queues w) \<and>
    (\<forall>j<u_nconnections w. udp_queues w' ! j =
      (if k \<le> j \<and> \<not> skip j then queued c (udp_queues w ! j) else udp_queues w ! j))"
  using assms
proof (induction "u_nconnections w - k" arbitrary: k c w)
  case 0
  then show ?case by (subst send_all_from.simps) simp
next
  case (Suc d)
  then have k: "k < u_nconnections w" by simp
  show ?case
  proof (cases "skip k")
    case True
    have "d = u_nconnections w - (k + 1)" using Suc.hyps(2) by simp
    from Suc.hyps(1) [OF this Suc.prems(1-3)] Suc.prems(4) obtain c' w' where
      "send_all_from skip (k + 1) (Some c) w = Inr (Some c', w')" "udp_inv w'" "mem_ok w'"
      "u_nconnections w' = u_nconnections w" "length (udp_queues w') = length (udp_queues w)"
      "\<forall>j<u_nconnections w. udp_queues w' ! j =
        (if k + 1 \<le> j \<and> \<not> skip j then queued c (udp_queues w ! j) else udp_queues w ! j)" by auto
    moreover have "(k + 1 \<le> j \<and> \<not> skip j) = (k \<le> j \<and> \<not> skip j)" for j using True by (cases "j = k") auto
    ultimately show ?thesis using True k by (subst send_all_from.simps) simp
  next
    case False
    let ?x = "udp_peers w ! k"
    let ?c = "c\<lparr>c_addr := usr_host ?x, c_port := usr_port ?x\<rparr>"
    obtain x' w1 where w1: "udpserver_send_bytes k (Some c) w = Inr (Some ?c, w1)"
      "udp_inv w1" "udp_peers w1 = (udp_peers w)[k := x']" "mem_ok w1"
      "udp_queues w1 = (udp_queues w)[k := queued c (udp_queues w ! k)]" "u_nconnections w1 = u_nconnections w"
      by (rule usend_bytes_ok [OF Suc.prems(1) k Suc.prems(2,3)]) (use Suc.prems(4) k False in auto)
    have "d = u_nconnections w1 - (k + 1)" using Suc.hyps(2) w1(6) by simp
    moreover have "peer_takes (c_size ?c) (udp_peers w1 ! j)"
      if "k + 1 \<le> j" "j < u_nconnections w1" "\<not> skip j" for j
      using that Suc.prems(4) w1(3,6) by simp
    ultimately obtain c' w' where w': "send_all_from skip (k + 1) (Some ?c) w1 = Inr (Some c', w')" "udp_inv w'" "mem_ok w'"
      "u_nconnections w' = u_nconnections w1" "length (udp_queues w') = length (udp_queues w1)"
      "\<forall>j<u_nconnections w1. udp_queues w' ! j =
        (if k + 1 \<le> j \<and> \<not> skip j then queued ?c (udp_queues w1 ! j) else udp_queues w1 ! j)"
      using Suc.hyps(1) [OF _ w1(2,4) wf_chunk_address [OF Suc.prems(3)], of "k + 1"] by blast
    have "length (udp_queues w) = u_nconnections w"
      using udp_inv_length(2) [OF Suc.prems(1)] by (simp add: udp_queues_def)
    then have "udp_queues w' ! j = (if k \<le> j \<and> \<not> skip j then queued c (udp_queues w ! j) else udp_queues w ! j)"
      if "j < u_nconnections w" for j
      using w'(6) w1(5,6) that False by (cases "j = k") (auto simp: nth_list_update)
    moreover have "send_all_from skip k (Some c) w = Inr (Some c', w')"
      using False k w1(1) w'(1) by (subst send_all_from.simps) simp
    ultimately show ?thesis using w' w1 by simp
  qed
qed

lemma queues_length: "udp_inv w \<Longrightarrow> length (udp_queues w) = u_nconnections w"
  by (simp add: udp_queues_def udp_inv_length(2))

lemma send_all_list:
  assumes "udp_inv w" "mem_ok w" "argv \<noteq> []" "length argv < 2147483648"
    and "\<And>j. j < u_nconnections w \<Longrightarrow> \<not> skip j \<Longrightarrow> peer_takes (length argv) (udp_peers w ! j)"
  obtains c w' where "send_all_from skip 0 (Some (list_chunk gi argv)) w = Inr (c, w')" "udp_inv w'" "mem_ok w'"
    "u_nconnections w' = u_nconnections w"
    "udp_queues w' = map (\<lambda>j. if skip j then udp_queues w ! j else queued (list_chunk gi argv) (udp_queues w ! j))
      [0..<u_nconnections w]"
proof -
  obtain c' w' where w': "send_all_from skip 0 (Some (list_chunk gi argv)) w = Inr (Some c', w')" "udp_inv w'" "mem_ok w'"
    "u_nconnections w' = u_nconnections w" "length (udp_queues w') = length (udp_queues w)"
    "\<forall>j<u_nconnections w. udp_queues w' ! j =
      (if 0 \<le> j \<and> \<not> skip j then queued (list_chunk gi argv) (udp_queues w ! j) else udp_queues w ! j)"
    using send_all_ok [OF assms(1,2) wf_list_chunk [OF assms(3,4)], of 0 skip gi] assms(5) unfolding list_chunk_sel
    by blast
  have "udp_queues w' = map (\<lambda>j. if skip j then udp_queues w ! j else queued (list_chunk gi argv) (udp_queues w ! j))
      [0..<u_nconnections w]"
    by (rule nth_equalityI) (use w'(5,6) queues_length [OF assms(1)] in auto)
  with w' show thesis using that by blast
qed

lemma udp_create_list:
  assumes "mem_ok w" "argv \<noteq> []"
  obtains w' where "iemnet__chunk_create_list gi (int (length argv)) argv w = Inr (Some (list_chunk gi argv), w')"
    "world.more w' = world.more w" "mem_ok w'" "w_io w' = w_io w"
  by (rule create_list_ok [OF assms, of gi]) (auto simp: mem_step_def assms(1) intro: that)

lemma broadcast_peers_ok:
  assumes "udp_inv w" "mem_ok w" "argv \<noteq> []" "length argv < 2147483648"
    and "list_all (peer_takes (length argv)) (filter (\<lambda>x. \<not> expired w x) (udp_peers w))"
  shows "\<exists>w'. udpserver_broadcast gi argv w = Inr w' \<and> udp_inv w' \<and> mem_ok w' \<and>
    udp_queues w' = map (\<lambda>x. queued (list_chunk gi argv) (peer_addr x, peer_pending x))
      (filter (\<lambda>x. \<not> expired w x) (udp_peers w))"
proof -
  obtain w1 where w1: "iemnet__chunk_create_list gi (int (length argv)) argv w = Inr (Some (list_chunk gi argv), w1)"
    "world.more w1 = world.more w" "mem_ok w1" by (rule udp_create_list [OF assms(2,3), of gi])
  note c1 = udp_inv_cong [OF w1(2)] udp_more_cong [OF w1(2)]
  have e1: "expired w1 = expired w" by (simp add: fun_eq_iff expired_def udp_checks_def c1)
  have inv1: "udp_inv w1" using assms(1) c1 by simp
  obtain w2 where w2: "udpserver_sender_autoremove w1 = Inr w2" "udp_inv w2"
    "udp_peers w2 = filter (\<lambda>x. \<not> expired w x) (udp_peers w)" "mem_ok w1 \<longrightarrow> mem_ok w2"
    by (rule autoremove_ok [OF inv1]) (auto simp: e1 c1)
  have takes: "peer_takes (length argv) (udp_peers w2 ! j)" if "j < u_nconnections w2" for j
    using assms(5) that udp_inv_length(2) [OF w2(2)] unfolding w2(3) [symmetric] by (simp add: list_all_length)
  have ok2: "mem_ok w2" using w2(4) w1(3) by blast
  obtain c w3 where w3: "send_all_from (\<lambda>_. False) 0 (Some (list_chunk gi argv)) w2 = Inr (c, w3)" "udp_inv w3" "mem_ok w3"
    "u_nconnections w3 = u_nconnections w2"
    "udp_queues w3 = map (\<lambda>j. if False then udp_queues w2 ! j else queued (list_chunk gi argv) (udp_queues w2 ! j))
      [0..<u_nconnections w2]"
    by (rule send_all_list [OF w2(2) ok2 assms(3,4), of "\<lambda>_. False" gi]) (use takes in auto)
  let ?w4 = "iemnet__chunk_destroy c w3"
  let ?w' = "if u_nconnections w \<noteq> u_nconnections ?w4
    then emit (Outlet_anything Statusout ''connections'' [SETFLOAT (int (u_nconnections ?w4))]) ?w4 else ?w4"
  have "world.more ?w' = world.more w3" by simp
  note c3 = udp_inv_cong [OF this]
  have "udp_queues w3 = map (queued (list_chunk gi argv)) (udp_queues w2)"
    using w3(5) queues_length [OF w2(2)] by (auto intro!: nth_equalityI)
  moreover have "udpserver_broadcast gi argv w = Inr ?w'"
    using w1(1) w2(1) w3(1) by (simp add: udpserver_broadcast_def Let_def)
  ultimately show ?thesis using w3 c3 w2(3) by (intro exI [of _ ?w']) (simp add: udp_queues_def comp_def)
qed

lemma toclient_peer_ok:
  assumes "udp_inv w" "mem_ok w" "argv \<noteq> []" "length argv < 2147483648" "i < u_nconnections w"
    and "peer_takes (length argv) (udp_peers w ! i)"
  shows "\<exists>w'. udpserver_send_toclient gi i argv w = Inr w' \<and> udp_inv w' \<and> mem_ok w' \<and>
    udp_queues w' = (udp_queues w)[i := queued (list_chunk gi argv) (udp_queues w ! i)]"
proof -
  obtain w1 where w1: "iemnet__chunk_create_list gi (int (length argv)) argv w = Inr (Some (list_chunk gi argv), w1)"
    "world.more w1 = world.more w" "mem_ok w1" by (rule udp_create_list [OF assms(2,3), of gi])
  note c1 = udp_inv_cong [OF w1(2)] udp_more_cong [OF w1(2)]
  have q1: "udp_queues w1 = udp_queues w" by (simp add: udp_queues_def c1)
  have pre: "udp_inv w1" "i < u_nconnections w1" "peer_takes (c_size (list_chunk gi argv)) (udp_peers w1 ! i)"
    using assms(1,5,6) by (simp_all add: c1)
  obtain c w2 where w2: "udpserver_send_bytes i (Some (list_chunk gi argv)) w1 = Inr (c, w2)" "udp_inv w2" "mem_ok w2"
    "udp_queues w2 = (udp_queues w)[i := queued (list_chunk gi argv) (udp_queues w ! i)]"
    by (rule usend_bytes_ok [OF pre(1,2) w1(3) wf_list_chunk [OF assms(3,4)] pre(3)]) (auto simp: q1)
  have "udpserver_send_toclient gi i argv w = Inr (iemnet__chunk_destroy c w2)"
    using w1(1) w2(1) by (simp add: udpserver_send_toclient_def)
  moreover have "world.more (iemnet__chunk_destroy c w2) = world.more w2" by simp
  note udp_inv_cong [OF this]
  ultimately show ?thesis using w2 by (simp add: udp_queues_def)
qed

lemma butclient_peers_ok:
  assumes "udp_inv w" "mem_ok w" "argv \<noteq> []" "length argv < 2147483648"
    and "\<And>j. j < u_nconnections w \<Longrightarrow> j \<noteq> but \<Longrightarrow> peer_takes (length argv) (udp_peers w ! j)"
  shows "\<exists>w'. udpserver_send_butclient gi but argv w = Inr w' \<and> udp_inv w' \<and> mem_ok w' \<and>
    udp_queues w' = map (\<lambda>j. if j = but then udp_queues w ! j else queued (list_chunk gi argv) (udp_queues w ! j))
      [0..<u_nconnections w]"
proof -
  obtain w1 where w1: "iemnet__chunk_create_list gi (int (length argv)) argv w = Inr (Some (list_chunk gi argv), w1)"
    "world.more w1 = world.more w" "mem_ok w1" by (rule udp_create_list [OF assms(2,3), of gi])
  note c1 = udp_inv_cong [OF w1(2)] udp_more_cong [OF w1(2)]
  have q1: "udp_queues w1 = udp_queues w" by (simp add: udp_queues_def c1)
  have inv1: "udp_inv w1" using assms(1) by (simp add: c1)
  obtain c w2 where w2: "send_all_from (\<lambda>j. j = but) 0 (Some (list_chunk gi argv)) w1 = Inr (c, w2)" "udp_inv w2" "mem_ok w2"
    "udp_queues w2 = map (\<lambda>j. if j = but then udp_queues w1 ! j else queued (list_chunk gi argv) (udp_queues w1 ! j))
      [0..<u_nconnections w1]"
    by (rule send_all_list [OF inv1 w1(3) assms(3,4), of "\<lambda>j. j = but" gi]) (use assms(5) c1 in auto)
  have "udpserver_send_butclient gi but argv w = Inr (iemnet__chunk_destroy c w2)"
    using w1(1) w2(1) by (simp add: udpserver_send_butclient_def)
  moreover have "world.more (iemnet__chunk_destroy c w2) = world.more w2" by simp
  note udp_inv_cong [OF this]
  ultimately show ?thesis using w2 q1 by (simp add: udp_queues_def c1)
qed

section \<open>Messages without content\<close>

text \<open>An empty message gives no chunk, and the address of the first peer is written into it.\<close>

lemma usend_bytes_null:
  assumes "udp_inv w" "i < u_nconnections w"
  shows "udpserver_send_bytes i None w = Inl NullDeref"
proof -
  note e = udp_inv_entry [OF assms]
  have "i < u_maxconnections w" using e(4) udp_inv_length(3) [OF assms(1)] by simp
  then show ?thesis using e by (simp add: udpserver_send_bytes_def)
qed

lemma broadcast_empty_faults:
  assumes "udp_inv w" "\<exists>x\<in>set (udp_peers w). \<not> expired w x"
  shows "udpserver_broadcast gi [] w = Inl NullDeref"
proof -
  obtain w1 where w1: "udpserver_sender_autoremove w = Inr w1" "udp_inv w1"
    "udp_peers w1 = filter (\<lambda>x. \<not> expired w x) (udp_peers w)"
    by (rule autoremove_ok [OF assms(1)])
  have "udp_peers w1 \<noteq> []" using assms(2) w1(3) by (auto simp: filter_empty_conv)
  then have "0 < u_nconnections w1" using udp_inv_length(2) [OF w1(2)] by (metis length_greater_0_conv)
  then have "send_all_from (\<lambda>_. False) 0 None w1 = Inl NullDeref"
    by (subst send_all_from.simps) (simp add: usend_bytes_null [OF w1(2)])
  then show ?thesis using w1(1) by (simp add: udpserver_broadcast_def empty_chunk)
qed

end
