(* ===== verification/Udp_Server_Remove.thy ===== *)
theory Udp_Server_Remove
  imports Udp_Server_Timeout
begin

text \<open>
  Removing peers from the UDP server one by one: what \<^verbatim>\<open>udpserver_sender_remove\<close> leaves behind, and what
  deleting the whole object gives back.
\<close>

section \<open>Removing one peer\<close>

lemma copy_next_loop:
  assumes "Suc k < length sr"
  shows "res_fold (copy_next k) is sr = Inr (if is = [] then sr else sr[k := sr ! Suc k])"
proof -
  have step: "copy_next k i t = Inr (t[k := t ! Suc k])" if "Suc k < length t" for i t
    using that by (simp add: copy_next_def)
  have again: "res_fold (copy_next k) js (sr[k := sr ! Suc k]) = Inr (sr[k := sr ! Suc k])" for js
    using assms by (induction js) (simp_all add: step)
  then show ?thesis using assms by (cases "is") (simp_all add: step)
qed

text \<open>The cell of the peer is cleared and the counter goes down; no other cell moves.\<close>

lemma sender_remove_ok:
  assumes "udp_inv w" "i < u_nconnections w" "Suc i < u_maxconnections w"
  obtains w' where "udpserver_sender_remove i w = Inr w'"
    "u_sr w' = (u_sr w)[i := None]" "u_nconnections w' = u_nconnections w - 1"
    "map_of (u_senders w') = (map_of (u_senders w))(udp_addrs w ! i := None)"
    "udp_settings w' = udp_settings w" "u_lastchecked w' = u_lastchecked w"
    "closed_fds (w_io w') = closed_fds (w_io w) @ [usr_uniq (udp_peers w ! i)]"
    "w_live w' = w_live w - usr_blocks (udp_peers w ! i)" "mem_ok w \<longrightarrow> mem_ok w'"
proof -
  note e = udp_inv_entry [OF assms(1,2)]
  obtain w1 where w1: "udpserver_sender_free (Some (udp_addrs w ! i)) w = Inr w1"
    "world.more w1 = world.more (w\<lparr>u_senders := heap_free (u_senders w) (udp_addrs w ! i)\<rparr>)"
    "closed_fds (w_io w1) = closed_fds (w_io w) @ [usr_uniq (udp_peers w ! i)]"
    "w_live w1 = w_live w - usr_blocks (udp_peers w ! i)" "mem_ok w \<longrightarrow> mem_ok w1"
    by (rule usender_free_ok [OF e(2,3)])
  note c = udp_more_cong [OF w1(2)]
  have len: "Suc i < length (u_sr w)" using assms(3) udp_inv_length(3) [OF assms(1)] by simp
  let ?w = "w1\<lparr>u_sr := (u_sr w)[i := None], u_nconnections := u_nconnections w - 1\<rparr>"
  have "udpserver_sender_remove i w = Inr ?w"
    using assms(2) e w1(1) c len by (simp add: udpserver_sender_remove_def copy_next_loop [OF len])
  then show thesis using that [of ?w] w1 c by (simp add: udp_settings_eq mem_ok_def)
qed

lemma sender_remove_overrun:
  assumes "udp_inv w" "i < u_nconnections w" "Suc i = u_maxconnections w"
  shows "udpserver_sender_remove i w = Inl (OutOfBounds (u_maxconnections w))"
proof -
  note e = udp_inv_entry [OF assms(1,2)]
  obtain w1 where w1: "udpserver_sender_free (Some (udp_addrs w ! i)) w = Inr w1"
    "world.more w1 = world.more (w\<lparr>u_senders := heap_free (u_senders w) (udp_addrs w ! i)\<rparr>)"
    by (rule usender_free_ok [OF e(2,3)])
  note c = udp_more_cong [OF w1(2)]
  have "length (u_sr w) = Suc i" using assms(3) udp_inv_length(3) [OF assms(1)] by simp
  moreover have "[i..<u_nconnections w] = i # [Suc i..<u_nconnections w]" using assms(2) by (rule upt_conv_Cons)
  ultimately show ?thesis
    using assms e w1(1) c by (simp add: udpserver_sender_remove_def copy_next_def)
qed

text \<open>The last peer can be removed: the table stays in order.\<close>

lemma remove_last_inv:
  assumes "udp_inv w" "Suc i = u_nconnections w"
    and "u_sr w' = (u_sr w)[i := None]" "u_nconnections w' = u_nconnections w - 1"
    and "map_of (u_senders w') = (map_of (u_senders w))(udp_addrs w ! i := None)"
    and "udp_settings w' = udp_settings w"
  shows "udp_inv w'" "udp_peers w' = butlast (udp_peers w)"
proof -
  let ?as = "udp_addrs w" and ?m = "u_maxconnections w"
  have ok: "udp_table_ok w ?as" using assms(1) by (simp add: udp_inv_def)
  then have len: "length ?as = Suc i" and dist: "distinct ?as" and le: "Suc i \<le> ?m"
    and sr: "u_sr w = map Some ?as @ replicate (?m - Suc i) None"
    using assms(2) by (simp_all add: udp_table_ok_def)
  define bs where "bs = butlast ?as"
  have as: "?as = bs @ [?as ! i]" and b: "length bs = i"
    unfolding bs_def using len by (metis append_butlast_last_id diff_Suc_1 last_conv_nth length_0_conv nat.simps(3))
      (simp add: len)
  have notin: "?as ! i \<notin> set bs" using dist as by (metis distinct_append disjoint_insert(1) list.set(2) set_empty2 not_distinct_conv_prefix)
  have filt: "filter (\<lambda>a. a \<noteq> ?as ! i) ?as = bs"
    using notin by (subst (2) as) (simp add: filter_id_conv, metis)
  have sr': "u_sr w' = map Some bs @ replicate (?m - length bs) None"
  proof -
    have "?m - i = Suc (?m - Suc i)" using le by simp
    then show ?thesis unfolding assms(3) sr by (subst as) (simp add: b list_update_append)
  qed
  have n: "u_nconnections w' = length bs" using assms(2,4) b by simp
  have m: "map_of (u_senders w') = (\<lambda>a. if a \<in> set ?as \<and> \<not> a \<noteq> ?as ! i then None else map_of (u_senders w) a)"
    unfolding assms(5) using len by (auto simp: fun_eq_iff)
  note t = table_filter [OF assms(1,6), of "\<lambda>a. a \<noteq> ?as ! i", unfolded filt, OF sr' n m]
  show "udp_inv w'" by (rule udp_invI [OF t(1)])
  show "udp_peers w' = butlast (udp_peers w)" unfolding t(2) by (simp add: udp_peers_def bs_def map_butlast)
qed

section \<open>Disconnecting\<close>

lemma info_connection_udp [simp]:
  "world.more (udpserver_info_connection h p w) = world.more w"
  "closed_fds (w_io (udpserver_info_connection h p w)) = closed_fds (w_io w)"
  "mem_ok (udpserver_info_connection h p w) = mem_ok w"
  by (simp_all add: udpserver_info_connection_def out_defs mem_ok_def Let_def)

text \<open>Without a timeout, a disconnect is the removal of the peer and two reports.\<close>

lemma disconnect_peer:
  assumes "udp_inv w" "i < u_nconnections w" "Suc i < u_maxconnections w" "\<not> udp_checks w"
  obtains w1 w' where "udpserver_disconnect i w = Inr w'" "world.more w' = world.more w1"
    "u_sr w1 = (u_sr w)[i := None]" "u_nconnections w1 = u_nconnections w - 1"
    "map_of (u_senders w1) = (map_of (u_senders w))(udp_addrs w ! i := None)"
    "udp_settings w1 = udp_settings w"
    "closed_fds (w_io w') = closed_fds (w_io w) @ [usr_uniq (udp_peers w ! i)]" "mem_ok w \<longrightarrow> mem_ok w'"
proof -
  obtain ok w0 where m: "malloc w = (ok, w0)" by fastforce
  have w0: "world.more w0 = world.more w" "w_io w0 = w_io w" "mem_ok w \<longrightarrow> mem_ok w0"
    using malloc_snd [of w] mem_ok_malloc [of w] by (simp_all add: m)
  note c0 = udp_inv_cong [OF w0(1)] udp_more_cong [OF w0(1)]
  note e = udp_inv_entry [OF assms(1,2)]
  have pre: "udp_inv w0" "i < u_nconnections w0" "Suc i < u_maxconnections w0" using assms(1-3) by (simp_all add: c0)
  obtain w1 where w1: "udpserver_sender_remove i w0 = Inr w1"
    "u_sr w1 = (u_sr w0)[i := None]" "u_nconnections w1 = u_nconnections w0 - 1"
    "map_of (u_senders w1) = (map_of (u_senders w0))(udp_addrs w0 ! i := None)"
    "udp_settings w1 = udp_settings w0" "u_lastchecked w1 = u_lastchecked w0"
    "closed_fds (w_io w1) = closed_fds (w_io w0) @ [usr_uniq (udp_peers w0 ! i)]" "mem_ok w0 \<longrightarrow> mem_ok w1"
    by (rule sender_remove_ok [OF pre])
  have "udp_settings w1 = udp_settings w" using w1(5) by (simp add: udp_settings_eq c0)
  moreover have idle: "udpserver_sender_autoremove w1 = Inr w1"
    using assms(4) w1(5,6) by (intro autoremove_idle) (simp add: udp_checks_def udp_settings_eq c0)
  have at: "usr_at i w0 = Inr (udp_peers w ! i)" using e by (simp add: usr_at_def c0)
  let ?w2 = "if ok then free (udpserver_info_connection (usr_host (udp_peers w ! i)) (usr_port (udp_peers w ! i)) w1) else w1"
  let ?w' = "iemnet__numconnout (Some Statusout) (Some Connectout) (int (u_nconnections w1)) ?w2"
  have "udpserver_disconnect i w = Inr ?w'"
    using assms(2) m at w1(1) idle by (simp add: udpserver_disconnect_def)
  moreover have "world.more ?w' = world.more w1" "closed_fds (w_io ?w') = closed_fds (w_io w1)" "mem_ok ?w' = mem_ok w1"
    by (simp_all add: numconnout_facts)
  ultimately show thesis using that [of ?w' w1] w0 w1 by (simp add: c0)
qed

text \<open>
  After any other removal the table has a hole: the last peer is cut off, the ones behind the hole are not
  found by their addresses, and a search by number runs into the empty cell.
\<close>

text \<open>Both searches stop at a hole at position \<open>i\<close>, when the positions before it hold the entries \<open>xs\<close>.\<close>

lemma loops_stop_at_hole:
  assumes "u_sr w ! i = None" "i < length (u_sr w)" "\<forall>k\<in>set ks. k < length (u_sr w) \<and>
      (\<exists>a. u_sr w ! k = Some a \<and> map_of (u_senders w) a = Some (xs ! k))"
  shows "find_loop host port w (ks @ i # js) =
      Inr (case find (\<lambda>k. peer_addr (xs ! k) = (host, port)) ks of None \<Rightarrow> -1 | Some k \<Rightarrow> int k)"
    and "\<forall>k\<in>set ks. usr_uniq (xs ! k) \<noteq> fd \<Longrightarrow>
      index_loop (\<lambda>i. res_bind (usr_at i w) (\<lambda>x. Inr (usr_uniq x = fd))) (ks @ i # js) = Inl NullDeref"
  using assms(3)
proof (induction ks)
  case Nil
  { case 1 then show ?case using assms(1,2) by simp }
  { case 2 then show ?case using assms(1,2) by (simp add: usr_at_def) }
next
  case (Cons k ks)
  { case 1 then show ?case using Cons.IH(1) by (auto simp: equal_addr_def peer_addr_def) }
  { case 2 then show ?case using Cons.IH(2) by (auto simp: usr_at_def) }
qed

lemma find_stops_at_hole:
  assumes "udp_inv w" "i < u_nconnections w"
    and "u_sr w' = (u_sr w)[i := None]" "i < u_nconnections w'" "u_nconnections w' \<le> u_nconnections w"
    and "map_of (u_senders w') = (map_of (u_senders w))(udp_addrs w ! i := None)"
  shows "udpserver__find_sender host port w' =
      Inr (case find (\<lambda>k. peer_addr (udp_peers w ! k) = (host, port)) [0..<i] of None \<Rightarrow> -1 | Some k \<Rightarrow> int k)"
    and "fd \<notin> set (map usr_uniq (take i (udp_peers w))) \<Longrightarrow> udpserver_socket2index fd w' = Inl NullDeref"
proof -
  have len: "i < length (u_sr w)" "length (udp_addrs w) = u_nconnections w" "i < length (udp_peers w)"
    using udp_inv_entry(4) [OF assms(1,2)] udp_inv_length(1,2) [OF assms(1)] assms(2) by simp_all
  have dist: "distinct (udp_addrs w)" using assms(1) by (simp add: udp_inv_def udp_table_ok_def)
  have before: "\<forall>k\<in>set [0..<i]. k < length (u_sr w') \<and>
      (\<exists>a. u_sr w' ! k = Some a \<and> map_of (u_senders w') a = Some (udp_peers w ! k))"
    using udp_inv_entry [OF assms(1)] assms(2) len dist by (auto simp: assms(3,6) nth_eq_iff_index_eq)
  have "u_sr w' ! i = None" "i < length (u_sr w')" using len by (simp_all add: assms(3))
  note stop = loops_stop_at_hole [OF this before]
  have range: "[0..<u_nconnections w'] = [0..<i] @ i # [Suc i..<u_nconnections w']"
    using upt_add_eq_append [of 0 i "u_nconnections w' - i"] upt_conv_Cons [OF assms(4)] assms(4) by simp
  show "udpserver__find_sender host port w' =
      Inr (case find (\<lambda>k. peer_addr (udp_peers w ! k) = (host, port)) [0..<i] of None \<Rightarrow> -1 | Some k \<Rightarrow> int k)"
    unfolding udpserver__find_sender_def range by (rule stop(1))
  assume "fd \<notin> set (map usr_uniq (take i (udp_peers w)))"
  then have "\<forall>k\<in>set [0..<i]. usr_uniq (udp_peers w ! k) \<noteq> fd" using len(3) by (force simp: in_set_conv_nth)
  from stop(2) [OF this] show "udpserver_socket2index fd w' = Inl NullDeref"
    unfolding udpserver_socket2index_def range by simp
qed

section \<open>Deleting the object\<close>

lemma udp_free_loop:
  assumes "u_sr w = replicate k None @ map Some as @ rest" "distinct as"
    and "\<And>a. a \<in> set as \<Longrightarrow> map_of (u_senders w) a = Some (f a) \<and> usr_ok (f a)"
  shows "\<exists>w'. res_fold udp_free_entry [k..<k + length as] w = Inr w' \<and>
    u_sr w' = replicate (k + length as) None @ rest \<and>
    map_of (u_senders w') = (\<lambda>a. if a \<in> set as then None else map_of (u_senders w) a) \<and>
    closed_fds (w_io w') = closed_fds (w_io w) @ map (\<lambda>a. usr_uniq (f a)) as \<and>
    w_live w' = w_live w - sum_list (map (\<lambda>a. usr_blocks (f a)) as) \<and> udp_settings w' = udp_settings w"
  using assms
proof (induction as arbitrary: k w)
  case Nil
  then show ?case by simp
next
  case (Cons a as)
  then have a: "map_of (u_senders w) a = Some (f a)" "usr_ok (f a)" by simp_all
  obtain w1 where w1: "udpserver_sender_free (Some a) w = Inr w1"
    "world.more w1 = world.more (w\<lparr>u_senders := heap_free (u_senders w) a\<rparr>)"
    "closed_fds (w_io w1) = closed_fds (w_io w) @ [usr_uniq (f a)]" "w_live w1 = w_live w - usr_blocks (f a)"
    by (rule usender_free_ok [OF a])
  note c = udp_more_cong [OF w1(2)]
  let ?w = "w1\<lparr>u_sr := (u_sr w)[k := None]\<rparr>"
  have step: "udp_free_entry k w = Inr ?w"
    using Cons.prems(1) w1(1) c by (simp add: udp_free_entry_def nth_append)
  have sr: "u_sr ?w = replicate (Suc k) None @ map Some as @ rest"
    using Cons.prems(1) by (simp add: list_update_append replicate_append_same [symmetric])
  have "map_of (u_senders ?w) b = Some (f b) \<and> usr_ok (f b)" if "b \<in> set as" for b
    using Cons.prems(2) Cons.prems(3) [of b] that by (auto simp: c)
  from Cons.IH [OF sr _ this] Cons.prems(2) obtain w' where w':
    "res_fold udp_free_entry [Suc k..<Suc k + length as] ?w = Inr w'"
    "u_sr w' = replicate (Suc k + length as) None @ rest"
    "map_of (u_senders w') = (\<lambda>a. if a \<in> set as then None else map_of (u_senders ?w) a)"
    "closed_fds (w_io w') = closed_fds (w_io ?w) @ map (\<lambda>a. usr_uniq (f a)) as"
    "w_live w' = w_live ?w - sum_list (map (\<lambda>a. usr_blocks (f a)) as)" "udp_settings w' = udp_settings ?w"
    by auto
  have "[k..<k + length (a # as)] = k # [Suc k..<Suc k + length as]" by (simp add: upt_first del: upt_Suc)
  then have "res_fold udp_free_entry [k..<k + length (a # as)] w = Inr w'" using step w'(1) by simp
  moreover have "udp_settings w' = udp_settings w" using w'(6) c by (simp add: udp_settings_eq)
  moreover have "map_of (u_senders w') = (\<lambda>b. if b \<in> set (a # as) then None else map_of (u_senders w) b)"
    using w'(3) c by (auto simp: fun_eq_iff)
  ultimately show ?case using w' w1 by simp
qed

definition udp_blocks :: "t_udpserver \<Rightarrow> int" where
  "udp_blocks w = sum_list (map usr_blocks (udp_peers w)) + 1 + (if u_receiver w = None then 0 else 1) +
     (if u_floatlist w = None then 0 else 2)"

lemma udp_free_ok:
  assumes "udp_inv w"
  shows "\<exists>w'. udpserver_free w = Inr w' \<and> heap_dom (u_senders w') = {} \<and> w_live w' = w_live w - udp_blocks w \<and>
    closed_fds (w_io w') = closed_fds (w_io w) @ map usr_uniq (udp_peers w) @
      (if 0 \<le> u_connectsocket w then [u_connectsocket w] else [])"
proof -
  let ?as = "udp_addrs w" and ?n = "u_nconnections w" and ?m = "u_maxconnections w"
  have ok: "udp_table_ok w ?as" using assms by (simp add: udp_inv_def)
  then have sr: "u_sr w = replicate 0 None @ map Some ?as @ replicate (?m - ?n) None" and dist: "distinct ?as"
    and len: "length ?as = ?n" and le: "?n \<le> ?m" and dom: "heap_dom (u_senders w) = set ?as"
    and fl: "case u_floatlist w of None \<Rightarrow> True | Some cl \<Rightarrow> wf_floatlist cl"
    by (simp_all add: udp_table_ok_def)
  let ?f = "\<lambda>a. the (map_of (u_senders w) a)"
  have "map_of (u_senders w) a = Some (?f a) \<and> usr_ok (?f a)" if "a \<in> set ?as" for a
    using ok that by (auto simp: udp_table_ok_def list_all_iff split: option.splits)
  from udp_free_loop [OF sr dist this] obtain w1 where w1: "res_fold udp_free_entry [0..<?n] w = Inr w1"
    "u_sr w1 = replicate ?n None @ replicate (?m - ?n) None"
    "map_of (u_senders w1) = (\<lambda>a. if a \<in> set ?as then None else map_of (u_senders w) a)"
    "closed_fds (w_io w1) = closed_fds (w_io w) @ map usr_uniq (udp_peers w)"
    "w_live w1 = w_live w - sum_list (map usr_blocks (udp_peers w))" "udp_settings w1 = udp_settings w"
    by (auto simp: len udp_peers_def comp_def)
  have x1: "u_sr w1 = replicate ?m None" using le by (simp add: w1(2) flip: replicate_add)
  have "map_of (u_senders w1) a = None" for a using dom by (auto simp: w1(3) heap_dom_map_of domIff)
  then have dom1: "heap_dom (u_senders w1) = {}" unfolding heap_dom_map_of dom_def by simp
  have "res_fold udp_free_entry [?n..<k] w1 = Inr w1" if "?n \<le> k" "k \<le> ?m" for k
    using that by (induction k rule: nat_induct_at_least) (simp_all add: res_fold_append udp_free_entry_def x1)
  then have loop: "res_fold udp_free_entry [0..<?m] w = Inr w1"
    using le w1(1) upt_add_eq_append [of 0 ?n "?m - ?n"] by (simp add: res_fold_append)
  then show ?thesis
    using w1 dom1 fl
    by (simp add: udpserver_free_def Let_def floatlist_destroy_blocks udp_blocks_def closesocket_facts
        receiver_destroy_facts udp_settings_eq udp_more_cong(4) [OF floatlist_destroy_blocks(3)])
qed

end
