(* ===== verification/Udp_Server_Reach.thy ===== *)
theory Udp_Server_Reach
  imports Udp_Server_Send Udp_Server_Remove
begin

text \<open>
  The UDP server as a state machine: an object that was created and has then received messages and
  datagrams, in any order, while its send threads and the clock went on. All its states have a table in
  order. \<^verbatim>\<open>disconnectclient\<close> and \<^verbatim>\<open>disconnect\<close> are not among the steps: they break the table. Nor are messages
  that the server cannot take: an empty one writes through NULL, and one for a peer whose send thread has ended disconnects it.
\<close>

section \<open>Handlers that leave the peers alone\<close>

lemma udp_inv_same:
  assumes "udp_inv w" "u_sr w' = u_sr w" "u_nconnections w' = u_nconnections w" "u_maxconnections w' = u_maxconnections w"
    "u_senders w' = u_senders w" "u_floatlist w' = u_floatlist w" "u_uniq w' = u_uniq w"
  shows "udp_inv w'" "udp_peers w' = udp_peers w"
proof -
  have "udp_addrs w' = udp_addrs w" using assms(2,3) by (simp add: udp_addrs_def)
  with assms show "udp_inv w'" "udp_peers w' = udp_peers w"
    by (simp_all add: udp_inv_def udp_table_ok_def udp_peers_def)
qed

lemma receiver_create_udp [simp]: "world.more (snd (iemnet__receiver_create fd u b w)) = world.more w"
  by (simp add: iemnet__receiver_create_def Let_def case_prod_beta)

lemmas [simp] = udp_more_cong [OF receiver_create_udp] udp_more_cong [OF gethostbyname_snd(1)]

lemma do_bind_frame:
  "u_sr (udpserver_do_bind junk ifaddr p w) = u_sr w \<and> u_nconnections (udpserver_do_bind junk ifaddr p w) = u_nconnections w \<and>
   u_maxconnections (udpserver_do_bind junk ifaddr p w) = u_maxconnections w \<and>
   u_senders (udpserver_do_bind junk ifaddr p w) = u_senders w \<and> u_floatlist (udpserver_do_bind junk ifaddr p w) = u_floatlist w \<and>
   u_uniq (udpserver_do_bind junk ifaddr p w) = u_uniq w"
  by (simp add: udpserver_do_bind_def Let_def case_prod_beta split: option.splits)

lemma do_bind_inv: "udp_inv w \<Longrightarrow> udp_inv (udpserver_do_bind junk ifaddr p w)"
  by (rule udp_inv_same(1)) (simp_all add: do_bind_frame)

lemma port_inv_udp: "udp_inv w \<Longrightarrow> udp_inv (udpserver_port junk f w)"
  by (auto simp: udpserver_port_def do_bind_inv udp_inv_cong(2) [OF emit_sel(5)])

lemma bind_inv: "udp_inv w \<Longrightarrow> udp_inv (udpserver_bind gf gs junk argv w)"
  by (auto simp: udpserver_bind_def Let_def do_bind_inv udp_inv_cong(2) [OF emit_sel(5)] split: list.splits)

lemma umaxconnections_inv:
  assumes "udp_inv w" "f \<le> 16777216" "\<And>i. pad i = None"
  shows "udp_inv (udpserver_maxconnections pad f w)"
proof (cases "f < 1 \<or> c_uint f < u_nconnections w \<or> c_uint f = u_maxconnections w \<or> \<not> fst (malloc w)")
  case True
  then show ?thesis using assms(1)
    by (auto simp: udpserver_maxconnections_def Let_def case_prod_beta udp_inv_cong(2) [OF emit_sel(5)]
        udp_inv_cong(2) [OF malloc_snd(3)])
next
  case False
  obtain w1 where m: "malloc w = (True, w1)" using False by (metis (full_types) prod.collapse)
  then have "world.more w1 = world.more w" using malloc_snd(3) [of w] by simp
  note c = udp_more_cong [OF this] udp_inv_cong [OF this]
  let ?n = "u_nconnections w" and ?as = "udp_addrs w"
  have ok: "udp_table_ok w ?as" and len: "length ?as = ?n" using assms(1) by (simp_all add: udp_inv_def udp_inv_length(1))
  have sr: "u_sr w = map Some ?as @ replicate (u_maxconnections w - length ?as) None" and le: "?n \<le> u_maxconnections w"
    using ok by (simp_all add: udp_table_ok_def)
  have "resize_cells pad (u_sr w) (c_uint f) = map Some ?as @ replicate (c_uint f - length ?as) None"
    unfolding sr using False le len assms(3) by (intro resize_cells_table) simp_all
  moreover have "c_uint f \<le> 16777216"
  proof -
    have "int (c_uint f) = \<lfloor>f\<rfloor>" using c_uint_pos [of f] False assms(2) by simp
    moreover have "\<lfloor>f\<rfloor> \<le> 16777216" using assms(2) by linarith
    ultimately show ?thesis by linarith
  qed
  ultimately have "udp_table_ok ((free w1)\<lparr>u_sr := resize_cells pad (u_sr w) (c_uint f), u_maxconnections := c_uint f\<rparr>) ?as"
    using ok False by (simp add: udp_table_ok_def c)
  then have "udp_inv ((free w1)\<lparr>u_sr := resize_cells pad (u_sr w) (c_uint f), u_maxconnections := c_uint f\<rparr>)"
    by (rule udp_invI)
  then show ?thesis using False m by (simp add: udpserver_maxconnections_def c Let_def)
qed

lemma uinfo_ok:
  assumes "udp_inv w"
  shows "\<exists>w'. udpserver_info junk w = Inr w' \<and> udp_inv w' \<and>
    udp_peers w' = filter (\<lambda>x. \<not> expired w x) (udp_peers w)"
proof -
  define w0 where "w0 = (if u_connectsocket w < 0 then emit (Iemnet_log IEMNET_ERROR ''no open socket'' []) w else w)"
  have "world.more w0 = world.more w" by (simp add: w0_def)
  note c0 = udp_inv_cong [OF this] udp_more_cong [OF this]
  have inv0: "udp_inv w0" using assms by (simp add: c0)
  have e0: "expired w0 = expired w" by (simp add: fun_eq_iff expired_def udp_checks_def c0)
  obtain w1 where w1: "udpserver_sender_autoremove w0 = Inr w1" "udp_inv w1"
    "udp_peers w1 = filter (\<lambda>x. \<not> expired w x) (udp_peers w)"
    by (rule autoremove_ok [OF inv0]) (auto simp: e0 c0)
  define w2 where "w2 = (if uint (u_port w1) \<le> 0 then
      let (r, w') = sys_call ''getsockname'' [u_connectsocket w] w1 in
      if a_ret r = 0 then (uint (name_port (a_name r)), w'\<lparr>u_port := name_port (a_name r)\<rparr>)
      else (uint (u_port w), emit (Sys_sockerror ''getsockname'')
             (emit (Iemnet_log IEMNET_ERROR ''getsockname failed for socket:%d'' [L_int (u_connectsocket w)]) w'))
    else (uint (u_port w), w1))"
  have "udp_inv (snd w2) \<and> udp_peers (snd w2) = udp_peers w1"
    using udp_inv_same [OF w1(2), of "snd w2"] by (simp add: w2_def Let_def case_prod_beta)
  moreover have "\<exists>w'. udpserver_info junk w = Inr w' \<and> world.more w' = world.more (snd w2)"
    unfolding udpserver_info_def Let_def w0_def [symmetric] w1(1) res_bind_simps
    by (simp add: w2_def Let_def case_prod_beta)
  ultimately show ?thesis using w1(3) udp_inv_cong by metis
qed

section \<open>Handlers that send\<close>

text \<open>
  A message the server can take: it has at least one byte, unless there is no peer, and every peer can take it: its send
  thread is running and there is room in its queue.
\<close>

definition udp_takes :: "t_atom list \<Rightarrow> t_udpserver \<Rightarrow> bool" where
  "udp_takes argv w \<longleftrightarrow> length argv < 2147483648 \<and> (argv = [] \<longrightarrow> udp_peers w = []) \<and>
     list_all (peer_takes (length argv)) (udp_peers w)"

lemma udp_takes_peer:
  assumes "udp_takes argv w" "udp_inv w" "i < u_nconnections w"
  shows "argv \<noteq> []" "length argv < 2147483648" "peer_takes (length argv) (udp_peers w ! i)"
  using assms udp_inv_length(2) [OF assms(2)] by (auto simp: udp_takes_def list_all_length)

lemma ubroadcast_ok:
  assumes "udp_inv w" "mem_ok w" "udp_takes argv w"
  shows "\<exists>w'. udpserver_broadcast gi argv w = Inr w' \<and> udp_inv w'"
proof (cases "argv = []")
  case True
  then have none: "udp_peers w = []" using assms(3) by (simp add: udp_takes_def)
  obtain w1 where w1: "udpserver_sender_autoremove w = Inr w1" "udp_inv w1"
    "udp_peers w1 = filter (\<lambda>x. \<not> expired w x) (udp_peers w)"
    by (rule autoremove_ok [OF assms(1)])
  have n: "u_nconnections w = 0" "u_nconnections w1 = 0"
    using none w1(3) udp_inv_length(2) [OF assms(1)] udp_inv_length(2) [OF w1(2)] by simp_all
  then have "send_all_from (\<lambda>_. False) 0 None w1 = Inr (None, w1)" by (subst send_all_from.simps) simp
  then show ?thesis using w1(1,2) n True
    by (simp add: udpserver_broadcast_def empty_chunk iemnet__chunk_destroy_def)
next
  case False
  have "list_all (peer_takes (length argv)) (filter (\<lambda>x. \<not> expired w x) (udp_peers w))" "length argv < 2147483648"
    using assms(3) by (auto simp: udp_takes_def list_all_iff)
  with broadcast_peers_ok [OF assms(1,2) False] show ?thesis by blast
qed

lemma ubutclient_ok:
  assumes "udp_inv w" "mem_ok w" "udp_takes argv w" "argv \<noteq> []"
  shows "\<exists>w'. udpserver_send_butclient gi but argv w = Inr w' \<and> udp_inv w'"
proof -
  have "length argv < 2147483648" using assms(3) by (simp add: udp_takes_def)
  from butclient_peers_ok [OF assms(1,2,4) this, of but gi] udp_takes_peer(3) [OF assms(3,1)] show ?thesis by blast
qed

lemma usocket2index_ok:
  assumes "udp_inv w"
  shows "\<exists>k. udpserver_socket2index fd w = Inr k \<and> (k < 0 \<or> nat k < u_nconnections w)"
proof -
  have "res_bind (usr_at i w) (\<lambda>x. Inr (usr_uniq x = fd)) = Inr (usr_uniq (udp_peers w ! i) = fd)"
    if "i \<in> set [0..<u_nconnections w]" for i
    using udp_inv_entry [OF assms, of i] that by (simp add: usr_at_def)
  then have "udpserver_socket2index fd w =
      Inr (case find (\<lambda>i. usr_uniq (udp_peers w ! i) = fd) [0..<u_nconnections w] of None \<Rightarrow> -1 | Some i \<Rightarrow> int i)"
    unfolding udpserver_socket2index_def by (rule index_loop_found)
  then show ?thesis by (auto simp: find_Some_iff split: option.splits)
qed

lemma udefaultsend_ok:
  assumes "udp_inv w" "mem_ok w" "udp_takes argv w"
  shows "\<exists>w'. udpserver_defaultsend gi argv w = Inr w' \<and> udp_inv w'"
proof -
  have bc: "\<exists>w'. udpserver_broadcast gi argv ((emit e w)\<lparr>u_defaulttarget := 0\<rparr>) = Inr w' \<and> udp_inv w'" for e
  proof -
    let ?w = "(emit e w)\<lparr>u_defaulttarget := 0\<rparr>"
    have f: "udp_inv ?w" "udp_peers ?w = udp_peers w" by (rule udp_inv_same [OF assms(1)]; simp)+
    then have "udp_takes argv ?w" using assms(3) by (simp add: udp_takes_def)
    moreover have "mem_ok ?w" using assms(2) by (simp add: mem_ok_def)
    ultimately show ?thesis using ubroadcast_ok [OF f(1)] by blast
  qed
  obtain k where k: "udpserver_socket2index (u_defaulttarget w) w = Inr k" "k < 0 \<or> nat k < u_nconnections w"
    using usocket2index_ok [OF assms(1)] by blast
  obtain l where l: "udpserver_socket2index (c_neg (u_defaulttarget w)) w = Inr l" "l < 0 \<or> nat l < u_nconnections w"
    using usocket2index_ok [OF assms(1)] by blast
  have one: "\<exists>w'. udpserver_send_toclient gi i argv w = Inr w' \<and> udp_inv w'" if "i < u_nconnections w" for i
    using toclient_peer_ok [OF assms(1,2) udp_takes_peer(1,2) [OF assms(3,1) that] that udp_takes_peer(3) [OF assms(3,1) that]] by blast
  have but: "\<exists>w'. udpserver_send_butclient gi i argv w = Inr w' \<and> udp_inv w'" if "i < u_nconnections w" for i
    using ubutclient_ok [OF assms udp_takes_peer(1) [OF assms(3,1) that]] by blast
  show ?thesis
    using k l bc one but ubroadcast_ok [OF assms]
    by (cases "u_defaulttarget w" "0 :: int" rule: linorder_cases) (auto simp: udpserver_defaultsend_def)
qed

lemma uinfo_client_ok:
  assumes "udp_inv w"
  shows "\<exists>w'. udpserver_info_client i w = Inr w' \<and> world.more w' = world.more w"
proof (cases "i < u_maxconnections w")
  case True
  show ?thesis
  proof (cases "i < u_nconnections w")
    case i: True
    from udp_inv_entry [OF assms this] True show ?thesis by (simp add: udpserver_info_client_def Let_def)
  next
    case False
    have ok: "udp_table_ok w (udp_addrs w)" using assms by (simp add: udp_inv_def)
    then have "arr_get (u_sr w) i = Inr None" using True False udp_inv_length(1) [OF assms]
      by (simp add: udp_table_ok_def nth_append)
    with True show ?thesis by (simp add: udpserver_info_client_def)
  qed
qed (simp add: udpserver_info_client_def)

lemma uinfo_clients_ok:
  assumes "udp_inv w"
  shows "\<exists>w'. res_fold udpserver_info_client ks w = Inr w' \<and> udp_inv w'"
  using assms
proof (induction ks arbitrary: w)
  case (Cons k ks)
  obtain w1 where w1: "udpserver_info_client k w = Inr w1" "world.more w1 = world.more w"
    using uinfo_client_ok [OF Cons.prems] by blast
  have "udp_inv w1" using Cons.prems udp_inv_cong(2) [OF w1(2)] by simp
  from Cons.IH [OF this] w1(1) show ?case by simp
qed simp

text \<open>The \<^verbatim>\<open>client\<close> message: information if there is nothing behind the number of the client, else a message to it.\<close>

lemma usend_client_ok:
  assumes "udp_inv w" "mem_ok w" "tl argv \<noteq> [] \<longrightarrow> udp_takes (tl argv) w"
  shows "\<exists>w'. udpserver_send_client gi argv w = Inr w' \<and> udp_inv w'"
proof (cases argv)
  case Nil
  then show ?thesis using uinfo_clients_ok [OF assms(1)] by (simp add: udpserver_send_client_def)
next
  case (Cons a rest)
  obtain k w1 where k: "udpserver_fixindex (c_int_of_long (gi a)) w = (k, w1)" by fastforce
  then have w1: "world.more w1 = world.more w" "mem_ok w1" "k < 0 \<or> nat k < u_nconnections w1"
    using assms(2) by (auto simp: udpserver_fixindex_def mem_ok_def Let_def split: if_splits)
  note c = udp_inv_cong [OF w1(1)]
  have inv: "udp_inv w1" using assms(1) c by simp
  have to: "\<exists>w'. udpserver_send_toclient gi (nat k) rest w1 = Inr w' \<and> udp_inv w'" if "nat k < u_nconnections w1" "rest \<noteq> []"
  proof -
    have "udp_takes rest w1" using assms(3) Cons that(2) c by (simp add: udp_takes_def)
    from udp_takes_peer [OF this inv that(1)] toclient_peer_ok [OF inv w1(2) that(2) _ that(1)] show ?thesis by blast
  qed
  obtain w2 where w2: "udpserver_info_client (nat k) w1 = Inr w2" "world.more w2 = world.more w1"
    using uinfo_client_ok [OF inv] by blast
  show ?thesis using k w1(3) to w2(1) udp_inv_cong(2) [OF w2(2)] inv Cons
    by (auto simp: udpserver_send_client_def)
qed

section \<open>Reachable states\<close>

text \<open>
  The environment: the answers of the operating system and of the allocator to come, and the clock, are
  arbitrary at every point; the send thread of a peer may have taken chunks from its queue or given up.
\<close>

definition udp_environment :: "sysret list \<Rightarrow> bool list \<Rightarrow> rat \<Rightarrow> (rat \<Rightarrow> rat) \<Rightarrow> t_udpserver \<Rightarrow> t_udpserver" where
  "udp_environment answers mallocs now timesince w =
     w\<lparr>w_sys := answers, w_malloc := mallocs, u_logicaltime := now, u_timesince := timesince\<rparr>"

definition udp_sender_runs :: "nat \<Rightarrow> t_iemnet_sender \<Rightarrow> t_udpserver \<Rightarrow> t_udpserver" where
  "udp_sender_runs i s w =
     w\<lparr>u_senders := heap_put (u_senders w) (udp_addrs w ! i) ((udp_peers w ! i)\<lparr>usr_sender := Some s\<rparr>)\<rparr>"

text \<open>
  The steps. Datagrams need an answer of the operating system for the thread that may be started, and a sending message is
  one the server can take. \<^verbatim>\<open>udpserver_send_toclient\<close> and \<^verbatim>\<open>udpserver_send_butclient\<close> are no messages of their own,
  but what \<^verbatim>\<open>send\<close> and \<^verbatim>\<open>client\<close> lead to; they have steps too, with the weaker condition that only the peers addressed can
  take the message.
\<close>

inductive udp_reach :: "t_udpserver \<Rightarrow> bool" where
  created: "mem_ok (w0 :: world) \<Longrightarrow> 0 \<le> uniq \<Longrightarrow> udpserver_new junk f uniq now timesince w0 = Inr w \<Longrightarrow> udp_reach w"
| received: "udp_reach w \<Longrightarrow> mem_ok w \<Longrightarrow> w_sys w \<noteq> [] \<Longrightarrow> wf_chunk c \<Longrightarrow>
    udpserver_receive_callback this (Some c) w = Inr w' \<Longrightarrow> udp_reach w'"
| hungup: "udp_reach w \<Longrightarrow> udpserver_receive_callback this None w = Inr w' \<Longrightarrow> udp_reach w'"
| clientadded: "udp_reach w \<Longrightarrow> mem_ok w \<Longrightarrow> w_sys w \<noteq> [] \<Longrightarrow> tl (w_sys w) \<noteq> [] \<Longrightarrow>
    udpserver_add_client s f w = Inr w' \<Longrightarrow> udp_reach w'"
| accepting: "udp_reach w \<Longrightarrow> udp_reach (udpserver_accept f w)"
| timed: "udp_reach w \<Longrightarrow> udp_reach (udpserver_timeout f w)"
| resized: "udp_reach w \<Longrightarrow> f \<le> 16777216 \<Longrightarrow> udp_reach (udpserver_maxconnections (\<lambda>_. None) f w)"
| targeted: "udp_reach w \<Longrightarrow> udpserver_defaulttarget f w = Inr w' \<Longrightarrow> udp_reach w'"
| banged: "udp_reach w \<Longrightarrow> udpserver_info junk w = Inr w' \<Longrightarrow> udp_reach w'"
| ported: "udp_reach w \<Longrightarrow> udp_reach (udpserver_port junk f w)"
| bound: "udp_reach w \<Longrightarrow> udp_reach (udpserver_bind gf gs junk argv w)"
| sent: "udp_reach w \<Longrightarrow> mem_ok w \<Longrightarrow> udp_takes argv w \<Longrightarrow> udpserver_defaultsend gi argv w = Inr w' \<Longrightarrow> udp_reach w'"
| broadcasted: "udp_reach w \<Longrightarrow> mem_ok w \<Longrightarrow> udp_takes argv w \<Longrightarrow> udpserver_broadcast gi argv w = Inr w' \<Longrightarrow> udp_reach w'"
| sentclient: "udp_reach w \<Longrightarrow> mem_ok w \<Longrightarrow> tl argv \<noteq> [] \<longrightarrow> udp_takes (tl argv) w \<Longrightarrow>
    udpserver_send_client gi argv w = Inr w' \<Longrightarrow> udp_reach w'"
| sentto: "udp_reach w \<Longrightarrow> mem_ok w \<Longrightarrow> argv \<noteq> [] \<Longrightarrow> length argv < 2147483648 \<Longrightarrow> i < u_nconnections w \<Longrightarrow>
    peer_takes (length argv) (udp_peers w ! i) \<Longrightarrow> udpserver_send_toclient gi i argv w = Inr w' \<Longrightarrow> udp_reach w'"
| sentbut: "udp_reach w \<Longrightarrow> mem_ok w \<Longrightarrow> argv \<noteq> [] \<Longrightarrow> length argv < 2147483648 \<Longrightarrow>
    \<forall>j<u_nconnections w. j \<noteq> but \<longrightarrow> peer_takes (length argv) (udp_peers w ! j) \<Longrightarrow>
    udpserver_send_butclient gi but argv w = Inr w' \<Longrightarrow> udp_reach w'"
| environment: "udp_reach w \<Longrightarrow> udp_reach (udp_environment answers mallocs now timesince w)"
| thread: "udp_reach w \<Longrightarrow> i < u_nconnections w \<Longrightarrow> usr_sender (udp_peers w ! i) \<noteq> None \<Longrightarrow> sender_inv s \<Longrightarrow>
    udp_reach (udp_sender_runs i s w)"

lemma unew_ok:
  assumes "mem_ok (w :: world)" "0 \<le> uniq"
  shows "\<exists>w'. udpserver_new junk f uniq now timesince w = Inr w' \<and> udp_inv w' \<and> udp_peers w' = [] \<and>
    u_accept w' = 1 \<and> u_maxconnections w' = 32"
proof -
  obtain ok w1 where m: "malloc w = (ok, w1)" by fastforce
  from mem_ok_malloc [OF assms(1)] mem_step_malloc [of w] m have ok: ok "mem_step w 1 w1" by auto
  have ok1: "mem_ok w1" using ok(2) assms by (simp add: mem_step_def)
  obtain fl w2 where fl: "iemnet__floatlist_create 1024 w1 = Inr (Some fl, w2)" "wf_floatlist fl"
    using floatlist_create_result [of 1024 w1] ok1 by auto
  define w3 :: t_udpserver where "w3 = \<lparr>w_io = w_io w2, w_sys = w_sys w2, w_malloc = w_malloc w2, w_live = w_live w2,
    w_errno = w_errno w2, u_sr = replicate MAX_CONNECT None, u_nconnections = 0, u_maxconnections = MAX_CONNECT,
    u_connectsocket = -1, u_port = -1, u_ifaddr = None, u_accept = 0, u_timeout = 0, u_lastchecked = 0,
    u_defaulttarget = 0, u_receiver = None, u_floatlist = Some fl, u_senders = [], u_uniq = uniq,
    u_logicaltime = now, u_timesince = timesince\<rparr>"
  have run: "udpserver_new junk f uniq now timesince w = Inr ((udpserver_port junk f w3)\<lparr>u_accept := 1\<rparr>)"
    using ok(1) by (simp add: udpserver_new_def m fl(1) w3_def)
  have "udp_table_ok w3 []" using fl(2) assms(2) by (simp add: udp_table_ok_def w3_def)
  then have inv: "udp_inv (udpserver_port junk f w3)" by (intro port_inv_udp udp_invI)
  have fr: "u_nconnections (udpserver_port junk f w3) = 0" "u_maxconnections (udpserver_port junk f w3) = 32"
    by (simp_all add: udpserver_port_def do_bind_frame) (simp_all add: w3_def)
  let ?w = "(udpserver_port junk f w3)\<lparr>u_accept := 1\<rparr>"
  have inv': "udp_inv ?w" by (rule udp_inv_same(1) [OF inv]) simp_all
  then have "udp_peers ?w = []" using udp_inv_length(2) [of ?w] fr by simp
  with run inv' fr show ?thesis by simp
qed

lemma udefaulttarget_ok:
  assumes "udp_inv w"
  shows "\<exists>w'. udpserver_defaulttarget f w = Inr w' \<and> udp_inv w' \<and> udp_peers w' = udp_peers w"
proof (cases "nat \<bar>c_int f\<bar> > u_nconnections w")
  case True
  then show ?thesis using assms
    by (simp add: udpserver_defaulttarget_def Let_def udp_inv_cong [OF emit_sel(5)])
next
  case False
  have set: "udp_inv (w\<lparr>u_defaulttarget := fd\<rparr>)" "udp_peers (w\<lparr>u_defaulttarget := fd\<rparr>) = udp_peers w" for fd
    using udp_inv_same [OF assms, of "w\<lparr>u_defaulttarget := fd\<rparr>"] by simp_all
  show ?thesis
  proof (cases "nat \<bar>c_int f\<bar> > 0")
    case True
    with False have "nat \<bar>c_int f\<bar> - 1 < u_nconnections w" by simp
    from udp_inv_entry [OF assms this] have "usr_at (nat \<bar>c_int f\<bar> - 1) w = Inr (udp_peers w ! (nat \<bar>c_int f\<bar> - 1))"
      by (simp add: usr_at_def)
    with True False set show ?thesis by (simp add: udpserver_defaulttarget_def Let_def)
  next
    case zero: False
    with False set show ?thesis by (simp add: udpserver_defaulttarget_def Let_def)
  qed
qed

lemma uadd_client_ok:
  assumes "udp_inv w" "mem_ok w" "w_sys w = r # r' # rs"
  shows "\<exists>w'. udpserver_add_client s f w = Inr w' \<and> udp_inv w'"
proof (cases "c_int f < 1 \<or> c_int f \<ge> 65535")
  case True
  then show ?thesis using assms(1) by (auto simp: udpserver_add_client_def udp_inv_cong(2) [OF emit_sel(5)])
next
  case False
  obtain w1 where w1: "gethostbyname s w = (r, w1)" "world.more w1 = world.more w" "mem_ok w1" "w_sys w1 \<noteq> []"
    using assms(2,3) by (simp add: gethostbyname_def sys_call_def sys_answer_def mem_ok_def)
  note c1 = udp_inv_cong [OF w1(2)] udp_more_cong [OF w1(2)]
  have inv1: "udp_inv w1" using assms(1) by (simp add: c1)
  show ?thesis
  proof (cases "a_host r")
    case None
    then show ?thesis using False w1(1) inv1 by (simp add: udpserver_add_client_def udp_inv_cong [OF emit_sel(5)])
  next
    case (Some addr)
    let ?add = "udpserver_sender_add (ntohl addr) (of_nat (c_uint f)) w1"
    have "\<exists>p w2. ?add = Inr (p, w2) \<and> udp_inv w2"
    proof (cases "u_accept w1 = 0")
      case True
      then show ?thesis using inv1 by (simp add: udpserver_sender_add_def)
    next
      case acc: False
      show ?thesis by (rule sender_add_refines [OF inv1 w1(3) acc w1(4)]) (use inv1 notedD in blast)+
    qed
    then obtain p w2 where "?add = Inr (p, w2)" "udp_inv w2" by blast
    then show ?thesis using False w1(1) Some by (simp add: udpserver_add_client_def udp_inv_cong [OF emit_sel(5)])
  qed
qed

lemma udp_reach_inv: "udp_reach w \<Longrightarrow> udp_inv w"
proof (induction rule: udp_reach.induct)
  case (created w0 uniq junk f now timesince w)
  then show ?case using unew_ok [OF created(1,2), of junk f now timesince] by simp
next
  case (received w c w')
  with receive_refines [of w c this] show ?case by (auto simp: this_def)
next
  case (clientadded w s f w')
  then obtain r r' rs where "w_sys w = r # r' # rs" by (metis list.exhaust list.sel(3))
  with uadd_client_ok [OF clientadded.IH clientadded.hyps(2) this, of s f] clientadded.hyps show ?case by auto
next
  case (accepting w f)
  show ?case by (rule udp_inv_same [OF accepting.IH]) (simp_all add: udpserver_accept_def)
next
  case (timed w f)
  show ?case by (rule udp_inv_same [OF timed.IH]) (simp_all add: udpserver_timeout_def)
next
  case (targeted w f w')
  then show ?case using udefaulttarget_ok [OF targeted.IH, of f] by simp
next
  case (banged w junk w')
  then show ?case using uinfo_ok [OF banged.IH, of junk] by auto
next
  case (hungup w w')
  then show ?case by (auto simp: udpserver_receive_callback_def this_def udp_inv_cong(2) [OF emit_sel(5)])
next
  case (sent w argv gi w')
  then show ?case using udefaultsend_ok [OF sent.IH sent.hyps(2,3), of gi] by auto
next
  case (broadcasted w argv gi w')
  then show ?case using ubroadcast_ok [OF broadcasted.IH broadcasted.hyps(2,3), of gi] by auto
next
  case (sentclient w argv gi w')
  then show ?case using usend_client_ok [OF sentclient.IH sentclient.hyps(2,3), of gi] by auto
next
  case (sentbut w argv but gi w')
  then show ?case using butclient_peers_ok [OF sentbut.IH sentbut.hyps(2-4), of but gi] by auto
next
  case (sentto w argv i gi w')
  with toclient_peer_ok [OF sentto.IH sentto.hyps(2-6), of gi] show ?case by auto
next
  case (environment w answers mallocs now timesince)
  show ?case by (rule udp_inv_same [OF environment.IH]) (simp_all add: udp_environment_def)
next
  case (thread w i s)
  then have ok: "usr_ok ((udp_peers w ! i)\<lparr>usr_sender := Some s\<rparr>)"
    using udp_inv_entry(3) [of w i] by (simp add: usr_ok_def)
  show ?case unfolding udp_sender_runs_def
    by (rule udp_invI [OF table_put(1) [OF thread.IH thread.hyps(2) ok _ refl]]) (simp add: peer_addr_def)
qed (simp_all add: umaxconnections_inv port_inv_udp bind_inv)

end
