(* ===== verification/Udp_Server_Properties.thy ===== *)
theory Udp_Server_Properties
  imports Udp_Server_Reach
begin

text \<open>
  What the UDP server guarantees, stated over its handlers, the addresses of the peers it knows with the
  times they were last heard of (\<open>udp_known\<close>) and the chunks queued for each of them (\<open>udp_queues\<close>).
\<close>

section \<open>A server with two peers\<close>

definition sample_peer :: "16 word \<Rightarrow> int \<Rightarrow> rat \<Rightarrow> t_udpserver_sender" where
  "sample_peer port uniq seen = \<lparr>usr_owner = True, usr_host = 2130706433, usr_port = port,
     usr_hostname = ''127.0.0.1'', usr_uniq = uniq, usr_sender = Some (sample_sender\<lparr>s_sockfd := 3\<rparr>), usr_lastseen = seen\<rparr>"

text \<open>The clock shows 5000; \<open>timeout\<close> is the timeout in force.\<close>

definition sample_udp :: "rat \<Rightarrow> t_udpserver" where
  "sample_udp timeout = \<lparr>w_io = [], w_sys = [sys_ret 0], w_malloc = [], w_live = 0, w_errno = 0,
     u_sr = map Some [1, 2] @ replicate 30 None, u_nconnections = 2, u_maxconnections = 32, u_connectsocket = 3,
     u_port = 9997, u_ifaddr = None, u_accept = 1, u_timeout = timeout, u_lastchecked = 0, u_defaulttarget = 0,
     u_receiver = Some \<lparr>r_sockfd = 3, r_userdata = this\<rparr>,
     u_floatlist = Some \<lparr>fl_argv = Some [], fl_argc = 0, fl_size = 0\<rparr>,
     u_senders = [(1, sample_peer 5000 1000 100), (2, sample_peer 5001 1001 4500)], u_uniq = 1002,
     u_logicaltime = 5000, u_timesince = (\<lambda>t. 5000 - t)\<rparr>"

lemma sample_peer_facts [simp]:
  "usr_ok (sample_peer p 1000 t)" "usr_ok (sample_peer p 1001 t)" "peer_addr (sample_peer p u t) = (2130706433, p)"
  "usr_lastseen (sample_peer p u t) = t" "usr_uniq (sample_peer p u t) = u" "peer_pending (sample_peer p u t) = []"
  "peer_takes n (sample_peer p u t) = (n < 2147483648)"
  by (simp_all add: sample_peer_def usr_ok_def sender_inv_def sample_sender_def peer_addr_def peer_pending_def
      sender_pending_def peer_takes_def chunks_size_def queue_empty_def [THEN arg_cong, of q_used])

lemma sample_udp_addrs: "udp_addrs (sample_udp t) = [1, 2]"
  by (simp add: udp_addrs_def sample_udp_def)

lemma sample_udp_facts:
  "udp_inv (sample_udp t)" "mem_ok (sample_udp t)" "w_sys (sample_udp t) = [sys_ret 0]"
  "udp_peers (sample_udp t) = [sample_peer 5000 1000 100, sample_peer 5001 1001 4500]"
  "u_nconnections (sample_udp t) = 2" "u_maxconnections (sample_udp t) = 32" "u_accept (sample_udp t) = 1"
  "u_logicaltime (sample_udp t) = 5000" "w_io (sample_udp t) = []" "udp_checks (sample_udp t) = (0 < t)"
  "u_timeout (sample_udp t) = t" "u_timesince (sample_udp t) = (\<lambda>t. 5000 - t)"
  "u_sr (sample_udp t) = map Some [1, 2] @ replicate 30 None" "u_connectsocket (sample_udp t) = 3"
proof -
  show "udp_inv (sample_udp t)"
    unfolding udp_inv_def sample_udp_addrs udp_table_ok_def
    by (simp add: sample_udp_def heap_dom_def wf_floatlist_def)
  show "udp_peers (sample_udp t) = [sample_peer 5000 1000 100, sample_peer 5001 1001 4500]"
    unfolding udp_peers_def sample_udp_addrs by (simp add: sample_udp_def)
qed (simp_all add: sample_udp_def mem_ok_def udp_checks_def)

section \<open>Properties\<close>

text \<open>
  C36. Forgetting peers: when a timeout is set and time has passed since the last look, exactly the peers that
  have not been heard of for longer than the timeout are removed; the others stay in their order, and the
  table stays in order. Nothing of what the object is set to changes.
\<close>

theorem timeout_keeps_recent:
  assumes "udp_inv w"
  shows "\<exists>w'. udpserver_sender_autoremove w = Inr w' \<and> udp_inv w' \<and> udp_settings w' = udp_settings w \<and>
    udp_peers w' = filter (\<lambda>x. \<not> (0 < u_timeout w \<and> 0 < u_timesince w (u_lastchecked w) \<and>
      u_timesince w (usr_lastseen x) > u_timeout w)) (udp_peers w)"
  by (rule autoremove_ok [OF assms]) (auto simp: expired_def udp_checks_def)

theorem timeout_keeps_recent_witness:
  "\<exists>w'. udpserver_sender_autoremove (sample_udp 1000) = Inr w' \<and> udp_inv w' \<and>
     udp_peers w' = [sample_peer 5001 1001 4500]"
  using timeout_keeps_recent [OF sample_udp_facts(1) [of 1000]]
  by (auto simp: sample_udp_facts) (auto simp: sample_udp_def)

text \<open>
  C35. Broadcasting over UDP while the send threads of all remaining peers are running and there is room in their
  queues: after the timed-out peers are forgotten, every remaining one gets the message appended to its own queue,
  addressed to its own host and port, exactly once. (A peer whose send thread has ended is disconnected inside the
  loop, with the consequences of the hole that this leaves.)
\<close>

theorem udp_broadcast_addresses_each:
  assumes "udp_inv w" "mem_ok w" "argv \<noteq> []" "length argv < 2147483648"
    and "list_all (peer_takes (length argv)) (filter (\<lambda>x. \<not> expired w x) (udp_peers w))"
  shows "\<exists>w'. udpserver_broadcast gi argv w = Inr w' \<and> udp_inv w' \<and>
    udp_queues w' = map (\<lambda>x. (peer_addr x, peer_pending x @
        [(list_chunk gi argv)\<lparr>c_addr := usr_host x, c_port := usr_port x, c_family := AF_INET\<rparr>]))
      (filter (\<lambda>x. \<not> expired w x) (udp_peers w))"
  using broadcast_peers_ok [OF assms, of gi] by (auto simp: queued_def addressed_def peer_addr_def)

theorem udp_broadcast_addresses_each_witness:
  "\<exists>w'. udpserver_broadcast sample_getint [A_FLOAT 65] (sample_udp 0) = Inr w' \<and>
    map (map c_port \<circ> snd) (udp_queues w') = [[5000], [5001]]"
  using udp_broadcast_addresses_each [OF sample_udp_facts(1,2) [of 0], of "[A_FLOAT 65]" sample_getint]
  by (auto simp: sample_udp_facts expired_def) (auto simp: sample_peer_def)

text \<open>
  C37. The server as a state machine: from its creation on, through any sequence of datagrams, messages other than the
  disconnecting ones, clock ticks and work of the send threads, the table stays in order and no two entries have the same
  address. In every such state the next datagram and the next \<^verbatim>\<open>send\<close>, \<^verbatim>\<open>broadcast\<close>, \<^verbatim>\<open>client\<close>, \<^verbatim>\<open>target\<close> and bang message is
  handled without touching memory the server must not touch. The messages that send are to be ones the server can take: they have
  at least one byte, unless there is no peer, and all peers have a running send thread and room in their queue.
  Allocations succeed, and the limit on the number of peers stays below \<open>2 ^ 24\<close>.
\<close>

theorem udp_reachable_safe:
  assumes "udp_reach w"
  shows "udp_inv w \<and> distinct (map peer_addr (udp_peers w)) \<and>
    (mem_ok w \<and> w_sys w \<noteq> [] \<and> wf_chunk c \<longrightarrow> (\<exists>w'. udpserver_receive_callback this (Some c) w = Inr w')) \<and>
    (mem_ok w \<and> udp_takes argv w \<longrightarrow>
      (\<exists>w'. udpserver_defaultsend gi argv w = Inr w') \<and> (\<exists>w'. udpserver_broadcast gi argv w = Inr w')) \<and>
    (mem_ok w \<and> (rest \<noteq> [] \<longrightarrow> udp_takes rest w) \<longrightarrow> (\<exists>w'. udpserver_send_client gi (a # rest) w = Inr w')) \<and>
    (\<exists>w'. udpserver_send_client gi [] w = Inr w') \<and>
    (\<exists>w'. udpserver_defaulttarget f w = Inr w') \<and> (\<exists>w'. udpserver_info junk w = Inr w')"
proof -
  have inv: "udp_inv w" by (rule udp_reach_inv [OF assms])
  have "\<exists>w'. udpserver_send_client gi [] w = Inr w'"
    using uinfo_clients_ok [OF inv] unfolding udpserver_send_client_def by (simp, blast)
  then show ?thesis
    using udp_peers_distinct [OF inv] receive_refines [OF inv, of c this] udefaultsend_ok [OF inv, of argv gi] ubroadcast_ok [OF inv, of argv gi]
      usend_client_ok [OF inv, of "a # rest" gi] udefaulttarget_ok [OF inv, of f] uinfo_ok [OF inv, of junk] inv
    by (simp add: this_def) blast
qed

text \<open>A server that was created, has received a datagram from port 5000, and then sends to that peer.\<close>

definition hello :: t_iemnet_chunk where
  "hello = \<lparr>c_data = Some [104, 105], c_size = 2, c_addr = 2130706433, c_port = 5000, c_family = AF_INET\<rparr>"

lemma sample_reach:
  obtains w w1 x where "udpserver_new [] 9997 1000 0 (\<lambda>t. - t) world0 = Inr w"
    "udpserver_receive_callback this (Some hello) (udp_environment [sys_ret 0] [] 10 (\<lambda>t. 10 - t) w) = Inr w1"
    "udp_reach w1" "mem_ok w1" "udp_peers w1 = [x]" "peer_addr x = (2130706433, 5000)" "udp_takes [A_FLOAT 65] w1"
proof -
  obtain w where w: "udpserver_new [] 9997 1000 0 (\<lambda>t. - t) world0 = Inr w" "udp_inv w" "udp_peers w = []"
    "u_accept w = 1" "u_maxconnections w = 32" using unew_ok [of world0 1000 "[]" 9997 0 "\<lambda>t. - t"] by auto
  let ?w = "udp_environment [sys_ret 0] [] 10 (\<lambda>t. 10 - t) w"
  have f: "udp_inv ?w" "udp_peers ?w = udp_peers w" by (rule udp_inv_same [OF w(2)]; simp add: udp_environment_def)+
  have wf: "wf_chunk hello" by (simp add: hello_def wf_chunk_def)
  have e: "mem_ok ?w" "u_accept ?w \<noteq> 0" "w_sys ?w = [sys_ret 0]" "0 < u_maxconnections ?w"
    using w(4,5) by (simp_all add: udp_environment_def mem_ok_def)
  have "udp_peers ?w = []" using f(2) w(3) by simp
  then obtain x s w1 where w1: "udpserver_receive_callback this (Some hello) ?w = Inr w1" "mem_ok w1" "udp_peers w1 = [x]"
    "peer_addr x = (c_addr hello, c_port hello)" "usr_sender x = Some s" "s_isrunning s" "s_queue s = Some queue_empty"
    using receive_first [OF f(1) e(1-3) _ wf, of this] e(4) by (auto simp: this_def)
  have r: "udp_reach w" using udp_reach.created [OF _ _ w(1)] by simp
  have "udp_reach w1" by (rule udp_reach.received [OF udp_reach.environment [OF r] e(1) _ wf w1(1)]) (simp add: e(3))
  moreover have "udp_takes [A_FLOAT 65] w1"
    using w1(3,5-7) by (simp add: udp_takes_def peer_takes_def sender_pending_def chunks_size_def queue_empty_def [THEN arg_cong, of q_used])
  ultimately show thesis using that w(1) w1 by (simp add: hello_def)
qed

theorem udp_reachable_safe_witness:
  "\<exists>w w1 w2. udpserver_new [] 9997 1000 0 (\<lambda>t. - t) world0 = Inr w \<and>
    udpserver_receive_callback this (Some hello) (udp_environment [sys_ret 0] [] 10 (\<lambda>t. 10 - t) w) = Inr w1 \<and>
    udp_inv w1 \<and> map peer_addr (udp_peers w1) = [(2130706433, 5000)] \<and>
    udpserver_defaultsend sample_getint [A_FLOAT 65] w1 = Inr w2 \<and> udp_inv w2"
proof -
  obtain w w1 x where w: "udpserver_new [] 9997 1000 0 (\<lambda>t. - t) world0 = Inr w"
    "udpserver_receive_callback this (Some hello) (udp_environment [sys_ret 0] [] 10 (\<lambda>t. 10 - t) w) = Inr w1"
    "udp_reach w1" "mem_ok w1" "udp_peers w1 = [x]" "peer_addr x = (2130706433, 5000)" "udp_takes [A_FLOAT 65] w1"
    by (rule sample_reach)
  from udp_reachable_safe [OF w(3)] w(4,7)
  obtain w2 where w2: "udp_inv w1" "udpserver_defaultsend sample_getint [A_FLOAT 65] w1 = Inr w2" by blast
  from udp_reachable_safe [OF udp_reach.sent [OF w(3,4,7) w2(2)]] have "udp_inv w2" by blast
  with w w2 show ?thesis by auto
qed

text \<open>
  C38. Disconnecting any peer but the last one while no timeout check is due (no timeout is set, or no time has passed
  since the last check) leaves a hole: the cell of the removed peer becomes empty and nothing moves up, while the number
  of peers goes down by one. The peers behind the hole are not recognised any more when they send, and a lookup by number
  that gets as far as the hole dereferences NULL. (The loop meant to close the gap copies one cell over and over; a
  check that is due would close the gap.)
\<close>

theorem udp_disconnect_leaves_hole:
  assumes "udp_inv w" "i + 1 < u_nconnections w" "\<not> udp_checks w"
  shows "\<exists>w'. udpserver_disconnect i w = Inr w' \<and> u_nconnections w' = u_nconnections w - 1 \<and>
    u_sr w' = (u_sr w)[i := None] \<and>
    (\<forall>j. i < j \<and> j < u_nconnections w \<longrightarrow>
      udpserver__find_sender (usr_host (udp_peers w ! j)) (usr_port (udp_peers w ! j)) w' = Inr (-1)) \<and>
    (\<forall>fd. fd \<notin> set (map usr_uniq (take i (udp_peers w))) \<longrightarrow> udpserver_socket2index fd w' = Inl NullDeref)"
proof -
  have i: "i < u_nconnections w" "Suc i < u_maxconnections w"
    using assms(2) udp_inv_length(4) [OF assms(1)] by simp_all
  obtain w1 w' where w': "udpserver_disconnect i w = Inr w'" "world.more w' = world.more w1"
    and w1: "u_sr w1 = (u_sr w)[i := None]" "u_nconnections w1 = u_nconnections w - 1"
    "map_of (u_senders w1) = (map_of (u_senders w))(udp_addrs w ! i := None)"
    by (rule disconnect_peer [OF assms(1) i assms(3)])
  note c = udp_more_cong [OF w'(2)]
  have n: "i < u_nconnections w'" "u_nconnections w' \<le> u_nconnections w" using assms(2) by (simp_all add: c w1)
  note hole = find_stops_at_hole [OF assms(1) i(1), of w', unfolded c, OF w1(1) n [unfolded c] w1(3)]
  have "find (\<lambda>k. peer_addr (udp_peers w ! k) = peer_addr (udp_peers w ! j)) [0..<i] = None"
    if "i < j" "j < u_nconnections w" for j
    using that nth_eq_iff_index_eq [OF udp_peers_distinct [OF assms(1)], of _ j] udp_inv_length(2) [OF assms(1)]
    by (auto simp: find_None_iff)
  then have "\<forall>j. i < j \<and> j < u_nconnections w \<longrightarrow>
      udpserver__find_sender (usr_host (udp_peers w ! j)) (usr_port (udp_peers w ! j)) w' = Inr (-1)"
    using hole(1) by (simp add: peer_addr_def)
  then show ?thesis using w'(1) c w1 hole(2) by simp
qed

theorem udp_disconnect_leaves_hole_witness:
  "\<exists>w'. udpserver_disconnect 0 (sample_udp 0) = Inr w' \<and> u_nconnections w' = 1 \<and> u_sr w' ! 0 = None \<and>
     udpserver_socket2index 1001 w' = Inl NullDeref"
  using udp_disconnect_leaves_hole [OF sample_udp_facts(1) [of 0], of 0] by (auto simp: sample_udp_facts)

text \<open>
  C39. An empty message to the UDP server crashes it as soon as it knows a peer: there is no chunk, and the
  address of the peer is written through the NULL pointer.
\<close>

theorem udp_empty_message_faults:
  assumes "udp_inv w" "filter (\<lambda>x. \<not> expired w x) (udp_peers w) \<noteq> []"
  shows "udpserver_broadcast gi [] w = Inl NullDeref"
  using assms by (intro broadcast_empty_faults) (auto simp: filter_empty_conv)

theorem udp_empty_message_faults_witness:
  "udpserver_broadcast sample_getint [] (sample_udp 0) = Inl NullDeref"
  using udp_empty_message_faults [OF sample_udp_facts(1) [of 0]] by (simp add: sample_udp_facts expired_def)

text \<open>
  C40. Deleting the UDP server frees every block of memory it held and closes its socket. Before that it closes,
  for every peer, a descriptor with the number that only identifies the peer inside the object.
\<close>

theorem udp_free_closes_strangers:
  assumes "udp_inv w"
  shows "\<exists>w'. udpserver_free w = Inr w' \<and> heap_dom (u_senders w') = {} \<and>
    w_live w' = w_live w - (sum_list (map usr_blocks (udp_peers w)) + 1 + (if u_receiver w = None then 0 else 1) +
      (if u_floatlist w = None then 0 else 2)) \<and>
    closed_fds (w_io w') = closed_fds (w_io w) @ map usr_uniq (udp_peers w) @
      (if 0 \<le> u_connectsocket w then [u_connectsocket w] else [])"
  using udp_free_ok [OF assms] by (simp add: udp_blocks_def)

theorem udp_free_closes_strangers_witness:
  "\<exists>w'. udpserver_free (sample_udp 0) = Inr w' \<and> closed_fds (w_io w') = [1000, 1001, 3]"
  using udp_free_closes_strangers [OF sample_udp_facts(1) [of 0]] by (auto simp: sample_udp_facts)

text \<open>
  C28. Binding a UDP server that is bound to another port, on all interfaces, when \<^verbatim>\<open>socket\<close>, \<^verbatim>\<open>bind\<close> and the allocation
  succeed: the old socket is closed and the new one is in use, but neither is the memory of the old receiver given back nor
  its poll function removed. Afterwards one block more is in use than the object knows of.
\<close>

theorem udp_rebind_loses_receiver:
  assumes "mem_ok w" "0 \<le> u_connectsocket w" "u_receiver w \<noteq> None" "u_port w \<noteq> portno"
    and "w_sys w = r0 # r1 # r2 # rs" "0 \<le> a_ret r1" "0 \<le> a_ret r2"
  shows "let w' = udpserver_do_bind junk None portno w in
    u_connectsocket w' = a_ret r1 \<and> closed_fds (w_io w') = closed_fds (w_io w) @ [u_connectsocket w] \<and>
    w_live w' - udp_blocks w' = w_live w - udp_blocks w + 1 \<and>
    filter (\<lambda>e. \<exists>fd. e = Sys_rmpollfn fd) (w_io w') = filter (\<lambda>e. \<exists>fd. e = Sys_rmpollfn fd) (w_io w)"
proof -
  let ?fd = "u_connectsocket w"
  define w1 where "w1 = (iemnet__closesocket ?fd False w)\<lparr>u_connectsocket := -1, u_port := -1, u_ifaddr := None\<rparr>"
  have w1: "w_sys w1 = r1 # r2 # rs" "w_live w1 = w_live w" "w_malloc w1 = w_malloc w"
    "w_io w1 = w_io w @ [Syscall ''shutdown'' [?fd, 2] (a_ret r0), Sys_closesocket ?fd]"
    using assms(2,5) by (simp_all add: w1_def iemnet__closesocket_def sys_call_def sys_answer_def emit_def)
  obtain w2 where w2: "sys_call ''socket'' [AF_INET, SOCK_DGRAM, 0] w1 = (r1, w2)" "w_sys w2 = r2 # rs" "w_live w2 = w_live w1"
    "w_malloc w2 = w_malloc w1" "w_io w2 = w_io w1 @ [Syscall ''socket'' [AF_INET, SOCK_DGRAM, 0] (a_ret r1)]" "world.more w2 = world.more w1"
    using w1(1) by (simp add: sys_call_def sys_answer_def)
  obtain w3 where w3: "sys_call ''bind'' [a_ret r1, uint (ntohl (In_addr 0 0 0 0)), uint portno] w2 = (r2, w3)" "w_live w3 = w_live w2"
    "w_malloc w3 = w_malloc w2" "w_io w3 = w_io w2 @ [Syscall ''bind'' [a_ret r1, uint (ntohl (In_addr 0 0 0 0)), uint portno] (a_ret r2)]"
    "world.more w3 = world.more w2"
    using w2(2) by (simp add: sys_call_def sys_answer_def)
  have "mem_ok w3" using assms(1) w1 w2 w3 by (simp add: mem_ok_def)
  then obtain rec w4 where w4: "iemnet__receiver_create (a_ret r1) this False w3 = (Some rec, w4)" "w_live w4 = w_live w3 + 1"
    "w_io w4 = w_io w3 @ [Sys_addpollfn (a_ret r1)]" "world.more w4 = world.more w3"
    using mem_ok_malloc [of w3] malloc_snd [of w3]
    by (auto simp: iemnet__receiver_create_def case_prod_beta)
  define w5 where "w5 = w4\<lparr>u_receiver := Some rec, u_connectsocket := a_ret r1, u_port := portno, u_ifaddr := None\<rparr>"
  obtain g w6 where w6: "sys_call ''getsockname'' [a_ret r1] w5 = (g, w6)" by fastforce
  have f6: "world.more w6 = world.more w5" "w_live w6 = w_live w5" "w_io w6 = w_io w5 @ [Syscall ''getsockname'' [a_ret r1] (a_ret g)]"
    using sys_call_snd [of "''getsockname''" "[a_ret r1]" w5] by (simp_all add: w6)
  define w7 where "w7 = (if a_ret g = 0 then w6\<lparr>u_port := name_port (a_name g)\<rparr> else w6)"
  define w8 where "w8 = iemnet__socket2addressout junk (a_ret r1) Statusout ''local_address'' w7"
  have w8: "world.more w8 = world.more w7" "w_live w8 = w_live w7" "closed_fds (w_io w8) = closed_fds (w_io w7)"
    "filter (\<lambda>e. \<exists>fd. e = Sys_rmpollfn fd) (w_io w8) = filter (\<lambda>e. \<exists>fd. e = Sys_rmpollfn fd) (w_io w7)"
    by (simp_all add: w8_def iemnet__socket2addressout_def Let_def case_prod_beta)
  define w9 where "w9 = emit (Outlet_anything Statusout ''port'' [SETFLOAT (uint (u_port w8))]) w8"
  have run: "udpserver_do_bind junk None portno w = w9"
    using assms(2,4,6,7) w2(1) w3(1) w4(1) w6
    by (simp add: udpserver_do_bind_def w1_def [symmetric] w5_def w7_def w8_def w9_def)
  note c = udp_more_cong [OF w8(1)] udp_more_cong [OF f6(1)] udp_more_cong [OF w4(4)] udp_more_cong [OF w3(5)] udp_more_cong [OF w2(6)]
  have keep: "u_sr w9 = u_sr w" "u_nconnections w9 = u_nconnections w" "u_senders w9 = u_senders w" "u_floatlist w9 = u_floatlist w"
    unfolding run [symmetric] using do_bind_frame by blast+
  then have peers: "udp_peers w9 = udp_peers w" by (simp add: udp_peers_def udp_addrs_def)
  have rec: "u_receiver w9 = Some rec" "u_connectsocket w9 = a_ret r1" using c by (simp_all add: w9_def w7_def w5_def)
  have "w_live w9 = w_live w + 1" using w1 w2 w3 w4 f6 w8 by (simp add: w9_def w7_def w5_def)
  moreover have "udp_blocks w9 = udp_blocks w" using peers rec keep(4) assms(3) by (simp add: udp_blocks_def)
  ultimately show ?thesis
    using rec w1 w2 w3 w4 f6 w8 by (simp add: run Let_def w9_def w7_def w5_def)
qed

theorem udp_rebind_loses_receiver_witness:
  "let w = (sample_udp 0)\<lparr>w_sys := [sys_ret 0, sys_ret 6, sys_ret 0]\<rparr>; w' = udpserver_do_bind ''?'' None 9998 w in
    u_connectsocket w' = 6 \<and> closed_fds (w_io w') = [3] \<and> w_live w' - udp_blocks w' = w_live w - udp_blocks w + 1"
  using udp_rebind_loses_receiver [of "(sample_udp 0)\<lparr>w_sys := [sys_ret 0, sys_ret 6, sys_ret 0]\<rparr>" 9998 "sys_ret 0" "sys_ret 6"
    "sys_ret 0" "[]" "''?''"]
  by (simp add: Let_def) (simp add: sample_udp_def mem_ok_def)

end
