(* ===== verification/Tcp_Send.thy ===== *)
theory Tcp_Send
  imports Pd_Object
begin

text \<open>
  The object of \<^verbatim>\<open>tcpsend.c\<close>: one outgoing TCP connection with a sender.
\<close>

section \<open>The object\<close>

record t_tcpsend = world +
  ts_fd :: int
  ts_timeout :: t_float
  ts_sender :: "t_iemnet_sender option"

definition tcpsend_disconnect :: "t_tcpsend \<Rightarrow> t_tcpsend res" where
  "tcpsend_disconnect w =
     res_bind (case ts_sender w of None \<Rightarrow> Inr w | Some s \<Rightarrow> iemnet__sender_destroy s w) (\<lambda>w.
       let w = w\<lparr>ts_sender := None\<rparr> in
       Inr (if ts_fd w \<ge> 0
            then emit (Outlet_float Ob_outlet 0) ((iemnet__closesocket (ts_fd w) True w)\<lparr>ts_fd := -1\<rparr>)
            else w))"

definition tcpsend_connect :: "string \<Rightarrow> t_float \<Rightarrow> t_tcpsend \<Rightarrow> t_tcpsend res" where
  "tcpsend_connect hostname fportno w =
     (let portno = c_int fportno in
      if ts_fd w \<ge> 0 then Inr (emit (Iemnet_log IEMNET_ERROR ''already connected'' []) w)
      else
        let (hp, w) = gethostbyname hostname w
        in case a_host hp of
          None \<Rightarrow> Inr (emit (Iemnet_log IEMNET_ERROR ''bad host '%s'?'' [L_str hostname]) w)
        | Some addr \<Rightarrow>
            let (r, w) = sys_call ''socket'' [AF_INET, SOCK_STREAM, 0] w; sockfd = a_ret r
            in if sockfd < 0
               then Inr (emit (Sys_sockerror ''socket'') (emit (Iemnet_log IEMNET_ERROR ''unable to open socket'' []) w))
            else
              let w = enable_option sockfd 6 1 ''unable to enable immediate sending'' ''setsockopt'' w;
                  w = emit (Iemnet_log IEMNET_VERBOSE ''connecting to port %d'' [L_int portno]) w;
                  (c, w) = iemnet__connect sockfd addr (htons (word_of_int portno)) (ts_timeout w) w
              in if c < 0
                 then Inr (iemnet__closesocket sockfd True (emit (Sys_sockerror ''connect'')
                        (emit (Iemnet_log IEMNET_ERROR ''unable to initiate connection on socket %d'' [L_int sockfd]) w)))
              else res_bind (iemnet__sender_create sockfd None None (w\<lparr>ts_fd := sockfd\<rparr>)) (\<lambda>(sender, w).
                Inr (emit (Outlet_float Ob_outlet 1) (w\<lparr>ts_sender := sender\<rparr>))))"

definition tcpsend_timeout :: "t_float \<Rightarrow> t_tcpsend \<Rightarrow> t_tcpsend" where
  "tcpsend_timeout timeout w = w\<lparr>ts_timeout := timeout\<rparr>"

definition tcpsend_send :: "getint \<Rightarrow> t_atom list \<Rightarrow> t_tcpsend \<Rightarrow> t_tcpsend res" where
  "tcpsend_send gi argv w =
     res_bind (iemnet__chunk_create_list gi (int (length argv)) argv w) (\<lambda>(chunk, w).
     res_bind (case ts_sender w of None \<Rightarrow> Inr w
        | Some sender \<Rightarrow> if chunk = None then Inr w
            else res_bind (iemnet__sender_send sender chunk w) (\<lambda>(_, sender, w). Inr (w\<lparr>ts_sender := Some sender\<rparr>)))
     (\<lambda>w. Inr (iemnet__chunk_destroy chunk w)))"

definition tcpsend_free :: "t_tcpsend \<Rightarrow> t_tcpsend res" where
  "tcpsend_free w = tcpsend_disconnect w"

definition tcpsend_new :: "world \<Rightarrow> t_tcpsend" where
  "tcpsend_new w = world.extend w \<lparr>ts_fd = -1, ts_timeout = -1, ts_sender = None\<rparr>"

text \<open>The methods of the class; Pd calls them with the arguments converted to these types.\<close>

datatype tcpsend_msg = TS_connect string t_float | TS_disconnect | TS_send "t_atom list" | TS_timeout t_float

fun tcpsend_method :: "getint \<Rightarrow> tcpsend_msg \<Rightarrow> t_tcpsend \<Rightarrow> t_tcpsend res" where
  "tcpsend_method gi (TS_connect hostname fportno) w = tcpsend_connect hostname fportno w"
| "tcpsend_method gi TS_disconnect w = tcpsend_disconnect w"
| "tcpsend_method gi (TS_send argv) w = tcpsend_send gi argv w"
| "tcpsend_method gi (TS_timeout timeout) w = Inr (tcpsend_timeout timeout w)"

section \<open>Invariant\<close>

definition tcpsend_inv :: "t_tcpsend \<Rightarrow> bool" where
  "tcpsend_inv w \<longleftrightarrow> (case ts_sender w of None \<Rightarrow> True
     | Some s \<Rightarrow> sender_inv s \<and> 0 \<le> ts_fd w \<and> s_sockfd s = ts_fd w)"

definition tcpsend_blocks :: "t_tcpsend \<Rightarrow> int" where
  "tcpsend_blocks w = sender_blocks (ts_sender w)"

definition tcpsend_fds :: "t_tcpsend \<Rightarrow> int list" where
  "tcpsend_fds w = (if 0 \<le> ts_fd w then [ts_fd w] else [])"

text \<open>The number of atoms of a list fits an \<^verbatim>\<open>int\<close>.\<close>

fun tcpsend_safe :: "tcpsend_msg \<Rightarrow> t_tcpsend \<Rightarrow> bool" where
  "tcpsend_safe (TS_send argv) w \<longleftrightarrow> length argv < 2147483648"
| "tcpsend_safe _ w \<longleftrightarrow> True"

definition tcpsend_env :: "t_tcpsend \<Rightarrow> t_tcpsend \<Rightarrow> bool" where
  "tcpsend_env w w' \<longleftrightarrow> ts_fd w' = ts_fd w \<and> ts_timeout w' = ts_timeout w \<and> thread_works (ts_sender w) w (ts_sender w') w'"

lemma ts_more_cong:
  assumes "world.more w' = world.more (w :: t_tcpsend)"
  shows "ts_fd w' = ts_fd w" "ts_timeout w' = ts_timeout w" "ts_sender w' = ts_sender w"
  using assms by (cases w; cases w'; simp)+

lemma ts_sel [simp]:
  "mem_ok (w\<lparr>ts_fd := x\<rparr>) = mem_ok w" "mem_ok (w\<lparr>ts_sender := s\<rparr>) = mem_ok w" "mem_ok (w\<lparr>ts_timeout := t\<rparr>) = mem_ok w"
  by (simp_all add: mem_ok_def)

text \<open>One step of the object, with all that is promised about it.\<close>

definition tcpsend_step :: "t_tcpsend \<Rightarrow> t_tcpsend \<Rightarrow> bool" where
  "tcpsend_step w w' \<longleftrightarrow> tcpsend_inv w' \<and> mem_ok w' \<and> w_live w' - tcpsend_blocks w' = w_live w - tcpsend_blocks w \<and>
     (fd_balance (w_io w) (tcpsend_fds w) \<longrightarrow> fd_balance (w_io w') (tcpsend_fds w'))"

lemmas tcpsend_step_defs = tcpsend_step_def tcpsend_inv_def tcpsend_blocks_def tcpsend_fds_def fd_balance_def

text \<open>A step of the world that leaves the sockets alone is a step of the object.\<close>

lemma tcpsend_step_world:
  assumes "tcpsend_inv w" "mem_ok w" "wstep w 0 op cl w'" "mset op = mset cl"
  shows "tcpsend_step w w'"
  using assms(1,2,4) wstepD [OF assms(3)] ts_more_cong [OF wstepD(1) [OF assms(3)]]
  by (auto simp: tcpsend_step_defs split: option.splits)

lemma tcpsend_disconnect_ok:
  assumes "tcpsend_inv w" "mem_ok w"
  obtains w' where "tcpsend_disconnect w = Inr w'" "tcpsend_step w w'" "ts_fd w' < 0" "ts_sender w' = None"
proof -
  have "case ts_sender w of None \<Rightarrow> True | Some s \<Rightarrow> sender_inv s"
    using assms(1) by (auto simp: tcpsend_inv_def split: option.splits)
  then obtain w1 where w1: "(case ts_sender w of None \<Rightarrow> Inr w | Some s \<Rightarrow> iemnet__sender_destroy s w) = Inr w1"
    "wstep w (- sender_blocks (ts_sender w)) [] [] w1"
    by (rule sender_destroy_wstep)
  note f1 = wstepD [OF w1(2)] note c1 = ts_more_cong [OF f1(1)]
  let ?w2 = "w1\<lparr>ts_sender := None\<rparr>"
  show thesis
  proof (cases "0 \<le> ts_fd w")
    case True
    define w3 where "w3 = iemnet__closesocket (ts_fd w) True ?w2"
    have s: "wstep ?w2 0 [] [ts_fd w] w3" unfolding w3_def by (rule wstep_closesocket [OF True])
    note f3 = wstepD [OF s] note c3 = ts_more_cong [OF f3(1)]
    let ?w' = "emit (Outlet_float Ob_outlet 0) (w3\<lparr>ts_fd := -1\<rparr>)"
    note c' = ts_more_cong [OF emit_sel(5), of "Outlet_float Ob_outlet 0" "w3\<lparr>ts_fd := -1\<rparr>"]
    have "tcpsend_disconnect w = Inr ?w'" using True w1(1) c1 by (simp add: tcpsend_disconnect_def w3_def)
    moreover have "tcpsend_step w ?w'"
      using True f1 f3 c3 c1 assms(2) by (simp add: tcpsend_step_defs c' sender_blocks_def)
    ultimately show ?thesis using that c3 c' by simp
  next
    case False
    then have "tcpsend_disconnect w = Inr ?w2" using w1(1) c1 by (simp add: tcpsend_disconnect_def)
    moreover have "tcpsend_step w ?w2" using False f1 c1 assms(2) by (simp add: tcpsend_step_defs sender_blocks_def)
    ultimately show ?thesis using that False c1 by simp
  qed
qed

lemma tcpsend_connected:
  assumes "wstep w 0 [fd] [] w1" "0 \<le> fd" "mem_ok w" "ts_fd w < 0" "ts_sender w = None"
  obtains s w2 where "iemnet__sender_create fd None None (w1\<lparr>ts_fd := fd\<rparr>) = Inr (s, w2)"
    "tcpsend_step w (emit (Outlet_float Ob_outlet 1) (w2\<lparr>ts_sender := s\<rparr>))"
proof -
  note f1 = wstepD [OF assms(1)]
  have "mem_ok (w1\<lparr>ts_fd := fd\<rparr>)" using f1(3) assms(3) by simp
  then obtain s w2 where w2: "iemnet__sender_create fd None None (w1\<lparr>ts_fd := fd\<rparr>) = Inr (s, w2)"
    "wstep (w1\<lparr>ts_fd := fd\<rparr>) (sender_blocks s) [] [] w2"
    "case s of None \<Rightarrow> True | Some s \<Rightarrow> sender_inv s \<and> s_sockfd s = fd \<and> s_isrunning s \<and> s_queue s = Some queue_empty"
    by (rule sender_create_wstep)
  note f2 = wstepD [OF w2(2)] note c2 = ts_more_cong [OF f2(1)]
  note c3 = ts_more_cong [OF emit_sel(5), of "Outlet_float Ob_outlet 1" "w2\<lparr>ts_sender := s\<rparr>"]
  have "tcpsend_step w (emit (Outlet_float Ob_outlet 1) (w2\<lparr>ts_sender := s\<rparr>))"
    using f1 f2 c2 c3 assms(2-5) w2(3)
    by (auto simp: tcpsend_step_defs sender_blocks_def [of None] split: option.splits)
  then show thesis by (rule that [OF w2(1)])
qed

lemma tcpsend_connect_ok:
  assumes "tcpsend_inv w" "mem_ok w"
  shows "\<exists>w'. tcpsend_connect hostname fportno w = Inr w' \<and> tcpsend_step w w'"
proof (cases "ts_fd w \<ge> 0")
  case True
  then show ?thesis using tcpsend_step_world [OF assms wstep_emit] by (simp add: tcpsend_connect_def)
next
  case False
  have none: "ts_sender w = None" using assms(1) False by (auto simp: tcpsend_inv_def split: option.splits)
  obtain hp w1 where w1: "gethostbyname hostname w = (hp, w1)" by fastforce
  show ?thesis
  proof (cases "a_host hp")
    case None
    have "tcpsend_step w (emit (Iemnet_log IEMNET_ERROR ''bad host '%s'?'' [L_str hostname]) w1)"
      by (rule tcpsend_step_world [OF assms wstep_quiet [OF wstep_gethostbyname [OF w1] wstep_emit]]) simp_all
    then show ?thesis using False None by (simp add: tcpsend_connect_def w1)
  next
    case (Some addr)
    obtain r w2 where w2: "sys_call ''socket'' [AF_INET, SOCK_STREAM, 0] w1 = (r, w2)" by fastforce
    let ?fd = "a_ret r"
    note s2 = wstep_resolve_open [OF w1 w2]
    define w3 where "w3 = emit (Iemnet_log IEMNET_VERBOSE ''connecting to port %d'' [L_int (c_int fportno)])
      (enable_option ?fd 6 1 ''unable to enable immediate sending'' ''setsockopt'' w2)"
    have s3: "wstep w 0 (if 0 \<le> ?fd then [?fd] else []) [] w3"
      unfolding w3_def by (rule wstep_quiet [OF wstep_quiet [OF s2 wstep_option] wstep_emit]) simp_all
    obtain c w4 where w4: "iemnet__connect ?fd addr (htons (word_of_int (c_int fportno))) (ts_timeout w3) w3 = (c, w4)" by fastforce
    note s4 = wstep_quiet [OF s3 wstep_connect [OF w4]]
    note run = tcpsend_connect_def w1 w2 w3_def [symmetric] w4 Let_def
    consider (nosocket) "?fd < 0" | (fail) "0 \<le> ?fd" "c < 0" | (ok) "0 \<le> ?fd" "0 \<le> c" by linarith
    then show ?thesis
    proof cases
      case nosocket
      then show ?thesis using tcpsend_step_world [OF assms wstep_report [OF s2]] False Some by (simp add: run)
    next
      case fail
      then show ?thesis using tcpsend_step_world [OF assms wstep_report_close [OF s4 fail(1)]] False Some by (simp add: run)
    next
      case ok
      then have "wstep w 0 [?fd] [] w4" "ts_fd w < 0" using s4 False by simp_all
      then show ?thesis
        by (rule tcpsend_connected [OF _ ok(1) assms(2) _ none]) (use False Some ok in \<open>simp_all add: run\<close>)
    qed
  qed
qed

lemma tcpsend_send_ok:
  assumes "tcpsend_inv w" "mem_ok w" "length argv < 2147483648"
  shows "\<exists>w'. tcpsend_send gi argv w = Inr w' \<and> tcpsend_step w w'"
proof -
  obtain c w1 where c: "iemnet__chunk_create_list gi (int (length argv)) argv w = Inr (c, w1)"
    "wstep w (if c = None then 0 else 2) [] [] w1" "case c of None \<Rightarrow> True | Some c \<Rightarrow> wf_chunk c"
    by (rule create_list_wstep [OF assms(2,3)])
  note f1 = wstepD [OF c(2)] note c1 = ts_more_cong [OF f1(1)]
  show ?thesis
  proof (cases "ts_sender w = None \<or> c = None")
    case True
    then have "tcpsend_send gi argv w = Inr (iemnet__chunk_destroy c w1)"
      using c(1) c1 by (auto simp: tcpsend_send_def split: option.splits)
    moreover have "wstep w 0 [] [] (iemnet__chunk_destroy c w1)"
      using wstep_trans [OF c(2) wstep_chunk_destroy [OF c(3)]] by (simp split: if_splits)
    ultimately show ?thesis using tcpsend_step_world [OF assms(1,2)] by blast
  next
    case False
    then obtain s c0 where s: "ts_sender w = Some s" "c = Some c0" by auto
    have inv: "sender_inv s" using assms(1) s(1) by (simp add: tcpsend_inv_def)
    have wf: "wf_chunk c0" using c(3) s(2) by simp
    obtain n s' w2 where w2: "iemnet__sender_send s (Some c0) w1 = Inr (n, s', w2)" "sender_inv s'" "s_sockfd s' = s_sockfd s"
      "wstep w1 (sender_blocks (Some s') - sender_blocks (Some s)) [] [] w2"
      by (rule sender_send_wstep [OF inv f1(3) [OF assms(2)] wf])
    note f2 = wstepD [OF w2(4)] note c2 = ts_more_cong [OF f2(1)]
    let ?w' = "iemnet__chunk_destroy c (w2\<lparr>ts_sender := Some s'\<rparr>)"
    note f3 = wstepD [OF wstep_chunk_destroy [OF c(3), of "w2\<lparr>ts_sender := Some s'\<rparr>"]]
    note c3 = ts_more_cong [OF f3(1)]
    have "tcpsend_send gi argv w = Inr ?w'" using c(1) s c1 w2(1) by (simp add: tcpsend_send_def)
    moreover have "tcpsend_step w ?w'"
      using assms f1 f2 f3 c1 c2 c3 w2(2,3) s by (simp add: tcpsend_step_defs)
    ultimately show ?thesis by blast
  qed
qed

text \<open>What a list of bytes adds to the queue of a connected object, and a sequence of such lists.\<close>

definition byte_chunk :: "8 word list \<Rightarrow> t_iemnet_chunk" where
  "byte_chunk bs = \<lparr>c_data = Some bs, c_size = length bs, c_addr = 0, c_port = 0, c_family = AF_INET\<rparr>"

lemma byte_chunk_list: "getint_integral gi \<Longrightarrow> list_chunk gi (byte_atoms bs) = byte_chunk bs"
  using byte_atoms_getint [of gi bs] by (simp add: list_chunk_def byte_chunk_def byte_atoms_def)

lemma tcpsend_send_data:
  assumes "getint_integral gi" "bs \<noteq> []" "length bs < 2147483648"
    and "tcpsend_inv w" "mem_ok w" "ts_sender w = Some s" "s_isrunning s" "s_queue s \<noteq> None"
  obtains w' s' where "tcpsend_send gi (byte_atoms bs) w = Inr w'" "tcpsend_inv w'" "mem_ok w'" "ts_sender w' = Some s'"
    "s_isrunning s'" "s_queue s' \<noteq> None" "s_sendfun s' = s_sendfun s" "s_sockfd s' = s_sockfd s" "sender_inv s'"
    "sender_pending s' = sender_pending s @ [byte_chunk bs]" "w_sys w' = w_sys w" "w_io w' = w_io w"
proof -
  let ?as = "byte_atoms bs" and ?c = "byte_chunk bs"
  have as: "?as \<noteq> []" "length ?as = length bs" using assms(2) by (simp_all add: byte_atoms_def)
  have wf: "wf_chunk ?c" using assms(2,3) by (simp add: wf_chunk_def byte_chunk_def)
  have inv: "sender_inv s" "s_sockfd s = ts_fd w" "0 \<le> ts_fd w" using assms(4,6) by (simp_all add: tcpsend_inv_def)
  obtain q where q: "s_queue s = Some q" using assms(8) by blast
  obtain w1 where w1: "iemnet__chunk_create_list gi (int (length ?as)) ?as w = Inr (Some ?c, w1)" "mem_step w 2 w1"
    using create_list_ok [OF assms(5) as(1), of gi] byte_chunk_list [OF assms(1)] by metis
  have m1: "mem_ok w1" "world.more w1 = world.more w" using w1(2) assms(5) by (simp_all add: mem_step_def)
  note c1 = ts_more_cong [OF m1(2)]
  obtain q' w2 where w2: "iemnet__sender_send s (Some ?c) w1 = Inr (sint (q_size q'), s\<lparr>s_queue := Some q'\<rparr>, w2)"
    "sender_inv (s\<lparr>s_queue := Some q'\<rparr>)" "queue_content q' = queue_content q @ [?c\<lparr>c_family := AF_INET\<rparr>]" "mem_step w1 3 w2"
    by (rule sender_send_chunk [OF inv(1) assms(7) q wf m1(1)])
  define s' where "s' = s\<lparr>s_queue := Some q'\<rparr>"
  have m2: "mem_ok w2" "world.more w2 = world.more w1" "w_sys w2 = w_sys w" "w_io w2 = w_io w"
    using w2(4) w1(2) m1(1) by (simp_all add: mem_step_def)
  note c2 = ts_more_cong [OF m2(2)]
  define w3 where "w3 = iemnet__chunk_destroy (Some ?c) (w2\<lparr>ts_sender := Some s'\<rparr>)"
  have send: "tcpsend_send gi ?as w = Inr w3"
    using w1(1) w2(1) assms(6) c1 by (simp add: tcpsend_send_def w3_def s'_def)
  have f: "world.more w3 = world.more (w2\<lparr>ts_sender := Some s'\<rparr>)" "w_sys w3 = w_sys w2" "w_io w3 = w_io w2" "mem_ok w3 = mem_ok w2"
    by (simp_all add: w3_def iemnet__chunk_destroy_def)
  note c3 = ts_more_cong [OF f(1)]
  show thesis
    by (rule that [OF send, of s'])
      (use w2 c1 c2 c3 f m2 inv assms(7) q in \<open>simp_all add: s'_def tcpsend_inv_def sender_pending_def byte_chunk_def\<close>)
qed

lemma tcpsend_sends_data:
  assumes "getint_integral gi" "\<forall>bs\<in>set bss. bs \<noteq> [] \<and> length bs < 2147483648"
    and "tcpsend_inv w" "mem_ok w" "ts_sender w = Some s" "s_isrunning s" "s_queue s \<noteq> None"
  shows "\<exists>w' s'. res_fold (\<lambda>bs. tcpsend_send gi (byte_atoms bs)) bss w = Inr w' \<and> tcpsend_inv w' \<and> mem_ok w' \<and>
    ts_sender w' = Some s' \<and> s_isrunning s' \<and> s_queue s' \<noteq> None \<and> s_sendfun s' = s_sendfun s \<and> s_sockfd s' = s_sockfd s \<and>
    sender_pending s' = sender_pending s @ map byte_chunk bss \<and> w_sys w' = w_sys w \<and> w_io w' = w_io w"
  using assms(2-)
proof (induction bss arbitrary: w s)
  case (Cons bs bss)
  have bs: "bs \<noteq> []" "length bs < 2147483648" using Cons.prems(1) by simp_all
  obtain w1 s1 where w1: "tcpsend_send gi (byte_atoms bs) w = Inr w1" "tcpsend_inv w1" "mem_ok w1" "ts_sender w1 = Some s1"
    "s_isrunning s1" "s_queue s1 \<noteq> None" "s_sendfun s1 = s_sendfun s" "s_sockfd s1 = s_sockfd s" "sender_inv s1"
    "sender_pending s1 = sender_pending s @ [byte_chunk bs]" "w_sys w1 = w_sys w" "w_io w1 = w_io w"
    by (rule tcpsend_send_data [OF assms(1) bs Cons.prems(2-)])
  with Cons.IH [of w1 s1] Cons.prems(1) show ?case by simp
qed simp

section \<open>The object keeps its promises\<close>

lemma tcpsend_method_ok:
  assumes "tcpsend_inv w" "mem_ok w" "tcpsend_safe m w"
  shows "\<exists>w'. tcpsend_method gi m w = Inr w' \<and> tcpsend_step w w'"
proof (cases m)
  case (TS_connect hostname fportno)
  then show ?thesis using tcpsend_connect_ok [OF assms(1,2)] by simp
next
  case TS_disconnect
  then show ?thesis using tcpsend_disconnect_ok [OF assms(1,2)] by (metis tcpsend_method.simps(2))
next
  case (TS_send argv)
  then show ?thesis using tcpsend_send_ok [OF assms(1,2), of argv gi] assms(3) by simp
next
  case (TS_timeout t)
  then show ?thesis using assms by (simp add: tcpsend_timeout_def tcpsend_step_defs split: option.splits)
qed

lemma tcpsend_env_step: "tcpsend_inv w \<Longrightarrow> mem_ok w \<Longrightarrow> tcpsend_env w w' \<Longrightarrow> tcpsend_step w w'"
  by (auto simp: tcpsend_env_def thread_works_def tcpsend_step_defs fd_silent_def split: option.splits)

interpretation ts: pd_socket_object tcpsend_inv tcpsend_safe "tcpsend_method gi" tcpsend_env tcpsend_blocks tcpsend_fds
  for gi
proof (unfold_locales, goal_cases)
  case (1 w m)
  with tcpsend_method_ok [of w m gi] show ?case by (auto simp: tcpsend_step_def)
next
  case (2 w w')
  with tcpsend_env_step [of w w'] show ?case by (auto simp: tcpsend_step_def)
next
  case (3 w m w')
  with tcpsend_method_ok [of w m gi] show ?case by (auto simp: tcpsend_step_def)
next
  case (4 w w')
  with tcpsend_env_step [of w w'] show ?case by (auto simp: tcpsend_step_def)
qed

lemma tcpsend_new_ok:
  "tcpsend_inv (tcpsend_new w)" "tcpsend_blocks (tcpsend_new w) = 0" "tcpsend_fds (tcpsend_new w) = []"
  "w_live (tcpsend_new w) = w_live w" "w_io (tcpsend_new w) = w_io w" "mem_ok (tcpsend_new w) = mem_ok w"
  by (simp_all add: tcpsend_new_def tcpsend_inv_def tcpsend_blocks_def tcpsend_fds_def world.defs sender_blocks_def mem_ok_def)

lemma tcpsend_free_ok:
  assumes "tcpsend_inv w" "mem_ok w" "fd_balance (w_io w) (tcpsend_fds w)"
  shows "\<exists>w'. tcpsend_free w = Inr w' \<and> w_live w' = w_live w - tcpsend_blocks w \<and> fd_balance (w_io w') []"
  by (rule tcpsend_disconnect_ok [OF assms(1,2)])
    (use assms(3) in \<open>auto simp: tcpsend_free_def tcpsend_step_def tcpsend_blocks_def tcpsend_fds_def sender_blocks_def\<close>)

interpretation ts_life: pd_mortal_object tcpsend_inv tcpsend_safe "tcpsend_method gi" tcpsend_env tcpsend_blocks tcpsend_fds
    tcpsend_free "\<lambda>_. True"
  for gi
  by unfold_locales (rule tcpsend_free_ok)

end
