(* ===== verification/Udp_Send.thy ===== *)
theory Udp_Send
  imports Pd_Object
begin

text \<open>
  The object of \<^verbatim>\<open>udpsend.c\<close>: a connected datagram socket with a sender.
\<close>

section \<open>The object\<close>

record t_udpsend = world +
  us_sender :: "t_iemnet_sender option"
  us_fd :: int

definition udpsend_connect :: "string \<Rightarrow> t_float \<Rightarrow> t_udpsend \<Rightarrow> t_udpsend res" where
  "udpsend_connect hostname fportno w =
     (let portno = c_int fportno in
      if us_sender w \<noteq> None then Inr (emit (Iemnet_log IEMNET_ERROR ''already connected'' []) w)
      else
        let (hp, w) = gethostbyname hostname w
        in case a_host hp of
          None \<Rightarrow> Inr (emit (Iemnet_log IEMNET_ERROR ''bad host '%s'?'' [L_str hostname]) w)
        | Some addr \<Rightarrow>
            let (r, w) = sys_call ''socket'' [AF_INET, SOCK_DGRAM, 0] w; sockfd = a_ret r
            in if sockfd < 0
               then Inr (emit (Sys_sockerror ''socket'')
                      (emit (Iemnet_log IEMNET_ERROR ''unable to create datagram socket'' []) w))
            else
              let w = enable_broadcast sockfd ''setsockopt:SO_BROADCAST'' w;
                  (c, w) = sys_call ''connect'' [sockfd, uint (ntohl addr), uint (word_of_int portno :: 16 word)] w
              in if a_ret c < 0
                 then Inr (iemnet__closesocket sockfd True (emit (Sys_sockerror ''connect'')
                        (emit (Iemnet_log IEMNET_ERROR ''unable to connect to socket:%d'' [L_int sockfd]) w)))
              else res_bind (iemnet__sender_create sockfd None None w) (\<lambda>(sender, w).
                Inr (emit (Outlet_float Ob_outlet 1) (w\<lparr>us_sender := sender, us_fd := sockfd\<rparr>))))"

definition udpsend_disconnect :: "t_udpsend \<Rightarrow> t_udpsend res" where
  "udpsend_disconnect w =
     res_bind (case us_sender w of None \<Rightarrow> Inr w | Some s \<Rightarrow> iemnet__sender_destroy s w) (\<lambda>w.
       let w = w\<lparr>us_sender := None\<rparr> in
       Inr (if us_fd w \<ge> 0
            then emit (Outlet_float Ob_outlet 0) ((iemnet__closesocket (us_fd w) True w)\<lparr>us_fd := -1\<rparr>)
            else w))"

definition udpsend_send :: "getint \<Rightarrow> t_atom list \<Rightarrow> t_udpsend \<Rightarrow> t_udpsend res" where
  "udpsend_send gi argv w = (case us_sender w of
     Some sender \<Rightarrow>
       res_bind (iemnet__chunk_create_list gi (int (length argv)) argv w) (\<lambda>(chunk, w).
       res_bind (iemnet__sender_send sender chunk w) (\<lambda>(sz, sender, w).
       let w = iemnet__chunk_destroy chunk (w\<lparr>us_sender := Some sender\<rparr>) in
       if sz < 1 then udpsend_disconnect w else Inr w))
   | None \<Rightarrow> Inr (emit (Iemnet_log IEMNET_ERROR ''not connected'' []) w))"

definition udpsend_free :: "t_udpsend \<Rightarrow> t_udpsend res" where
  "udpsend_free w = udpsend_disconnect w"

definition udpsend_new :: "world \<Rightarrow> t_udpsend" where
  "udpsend_new w = world.extend w \<lparr>us_sender = None, us_fd = -1\<rparr>"

datatype udpsend_msg = US_connect string t_float | US_disconnect | US_send "t_atom list"

fun udpsend_method :: "getint \<Rightarrow> udpsend_msg \<Rightarrow> t_udpsend \<Rightarrow> t_udpsend res" where
  "udpsend_method gi (US_connect hostname fportno) w = udpsend_connect hostname fportno w"
| "udpsend_method gi US_disconnect w = udpsend_disconnect w"
| "udpsend_method gi (US_send argv) w = udpsend_send gi argv w"

section \<open>Invariant\<close>

definition udpsend_inv :: "t_udpsend \<Rightarrow> bool" where
  "udpsend_inv w \<longleftrightarrow> (case us_sender w of None \<Rightarrow> True
     | Some s \<Rightarrow> sender_inv s \<and> 0 \<le> us_fd w \<and> s_sockfd s = us_fd w)"

definition udpsend_blocks :: "t_udpsend \<Rightarrow> int" where
  "udpsend_blocks w = sender_blocks (us_sender w)"

definition udpsend_fds :: "t_udpsend \<Rightarrow> int list" where
  "udpsend_fds w = (if 0 \<le> us_fd w then [us_fd w] else [])"

text \<open>
  A connection whose send thread could not be started has a socket but no sender; connecting again forgets the socket.
\<close>

fun udpsend_safe :: "udpsend_msg \<Rightarrow> t_udpsend \<Rightarrow> bool" where
  "udpsend_safe (US_send argv) w \<longleftrightarrow> length argv < 2147483648"
| "udpsend_safe (US_connect _ _) w \<longleftrightarrow> us_sender w \<noteq> None \<or> us_fd w < 0"
| "udpsend_safe US_disconnect w \<longleftrightarrow> True"

definition udpsend_env :: "t_udpsend \<Rightarrow> t_udpsend \<Rightarrow> bool" where
  "udpsend_env w w' \<longleftrightarrow> us_fd w' = us_fd w \<and> thread_works (us_sender w) w (us_sender w') w'"

lemma us_more_cong:
  assumes "world.more w' = world.more (w :: t_udpsend)"
  shows "us_fd w' = us_fd w" "us_sender w' = us_sender w"
  using assms by (cases w; cases w'; simp)+

lemma us_sel [simp]:
  "mem_ok (w\<lparr>us_fd := x\<rparr>) = mem_ok w" "mem_ok (w\<lparr>us_sender := s\<rparr>) = mem_ok w"
  by (simp_all add: mem_ok_def)

text \<open>
  One step of the object. The sockets balance as long as a connection without a sender (its thread could not be
  started) is not connected again.
\<close>

definition udpsend_step :: "t_udpsend \<Rightarrow> t_udpsend \<Rightarrow> bool" where
  "udpsend_step w w' \<longleftrightarrow> udpsend_inv w' \<and> mem_ok w' \<and> w_live w' - udpsend_blocks w' = w_live w - udpsend_blocks w"

definition udpsend_fds_step :: "t_udpsend \<Rightarrow> t_udpsend \<Rightarrow> bool" where
  "udpsend_fds_step w w' \<longleftrightarrow> (fd_balance (w_io w) (udpsend_fds w) \<longrightarrow> fd_balance (w_io w') (udpsend_fds w'))"

lemmas udpsend_step_defs = udpsend_step_def udpsend_fds_step_def udpsend_inv_def udpsend_blocks_def udpsend_fds_def
  fd_balance_def

lemma udpsend_step_world:
  assumes "udpsend_inv w" "mem_ok w" "wstep w 0 op cl w'" "mset op = mset cl"
  shows "udpsend_step w w' \<and> udpsend_fds_step w w'"
  using assms(1,2,4) wstepD [OF assms(3)] us_more_cong [OF wstepD(1) [OF assms(3)]]
  by (auto simp: udpsend_step_defs split: option.splits)

lemma udpsend_disconnect_ok:
  assumes "udpsend_inv w" "mem_ok w"
  obtains w' where "udpsend_disconnect w = Inr w'" "udpsend_step w w' \<and> udpsend_fds_step w w'" "us_fd w' < 0"
    "us_sender w' = None"
proof -
  have "case us_sender w of None \<Rightarrow> True | Some s \<Rightarrow> sender_inv s"
    using assms(1) by (auto simp: udpsend_inv_def split: option.splits)
  then obtain w1 where w1: "(case us_sender w of None \<Rightarrow> Inr w | Some s \<Rightarrow> iemnet__sender_destroy s w) = Inr w1"
    "wstep w (- sender_blocks (us_sender w)) [] [] w1"
    by (rule sender_destroy_wstep)
  note f1 = wstepD [OF w1(2)] note c1 = us_more_cong [OF f1(1)]
  let ?w2 = "w1\<lparr>us_sender := None\<rparr>"
  show thesis
  proof (cases "0 \<le> us_fd w")
    case True
    define w3 where "w3 = iemnet__closesocket (us_fd w) True ?w2"
    have s: "wstep ?w2 0 [] [us_fd w] w3" unfolding w3_def by (rule wstep_closesocket [OF True])
    note f3 = wstepD [OF s] note c3 = us_more_cong [OF f3(1)]
    let ?w' = "emit (Outlet_float Ob_outlet 0) (w3\<lparr>us_fd := -1\<rparr>)"
    note c' = us_more_cong [OF emit_sel(5), of "Outlet_float Ob_outlet 0" "w3\<lparr>us_fd := -1\<rparr>"]
    have "udpsend_disconnect w = Inr ?w'" using True w1(1) c1 by (simp add: udpsend_disconnect_def w3_def)
    moreover have "udpsend_step w ?w' \<and> udpsend_fds_step w ?w'"
      using True f1 f3 c3 c1 assms(2) by (simp add: udpsend_step_defs c' sender_blocks_def)
    ultimately show ?thesis using that c3 c' by simp
  next
    case False
    then have "udpsend_disconnect w = Inr ?w2" using w1(1) c1 by (simp add: udpsend_disconnect_def)
    moreover have "udpsend_step w ?w2 \<and> udpsend_fds_step w ?w2"
      using False f1 c1 assms(2) by (simp add: udpsend_step_defs sender_blocks_def)
    ultimately show ?thesis using that False c1 by simp
  qed
qed

lemma udpsend_connected_ok:
  assumes "wstep w 0 [fd] [] w1" "0 \<le> fd" "mem_ok w" "us_sender w = None"
  obtains s w2 where "iemnet__sender_create fd None None w1 = Inr (s, w2)"
    "udpsend_step w (emit (Outlet_float Ob_outlet 1) (w2\<lparr>us_sender := s, us_fd := fd\<rparr>))"
    "us_fd w < 0 \<Longrightarrow> udpsend_fds_step w (emit (Outlet_float Ob_outlet 1) (w2\<lparr>us_sender := s, us_fd := fd\<rparr>))"
proof -
  note f1 = wstepD [OF assms(1)]
  obtain s w2 where w2: "iemnet__sender_create fd None None w1 = Inr (s, w2)" "wstep w1 (sender_blocks s) [] [] w2"
    "case s of None \<Rightarrow> True | Some s \<Rightarrow> sender_inv s \<and> s_sockfd s = fd \<and> s_isrunning s \<and> s_queue s = Some queue_empty"
    by (rule sender_create_wstep [OF f1(3) [OF assms(3)]])
  note f2 = wstepD [OF w2(2)]
  let ?w3 = "emit (Outlet_float Ob_outlet 1) (w2\<lparr>us_sender := s, us_fd := fd\<rparr>)"
  note c3 = us_more_cong [OF emit_sel(5), of "Outlet_float Ob_outlet 1" "w2\<lparr>us_sender := s, us_fd := fd\<rparr>"]
  have "udpsend_step w ?w3"
    using f1 f2 c3 assms w2(3) by (auto simp: udpsend_step_defs sender_blocks_def [of None] split: option.splits)
  moreover have "us_fd w < 0 \<Longrightarrow> udpsend_fds_step w ?w3"
    using f1 f2 c3 assms(2) by (simp add: udpsend_step_defs)
  ultimately show thesis by (rule that [OF w2(1)])
qed

lemma udpsend_connect_ok:
  assumes "udpsend_inv w" "mem_ok w"
  shows "\<exists>w'. udpsend_connect hostname fportno w = Inr w' \<and> udpsend_step w w' \<and>
    (us_sender w = None \<longrightarrow> us_fd w < 0 \<longrightarrow> udpsend_fds_step w w')"
proof (cases "us_sender w = None")
  case False
  then show ?thesis using udpsend_step_world [OF assms wstep_emit] by (simp add: udpsend_connect_def)
next
  case none: True
  obtain hp w1 where w1: "gethostbyname hostname w = (hp, w1)" by fastforce
  show ?thesis
  proof (cases "a_host hp")
    case None
    have "wstep w 0 [] [] (emit (Iemnet_log IEMNET_ERROR ''bad host '%s'?'' [L_str hostname]) w1)"
      by (rule wstep_quiet [OF wstep_gethostbyname [OF w1] wstep_emit]) simp_all
    from udpsend_step_world [OF assms this] show ?thesis using none None by (simp add: udpsend_connect_def w1)
  next
    case (Some addr)
    obtain r w2 where w2: "sys_call ''socket'' [AF_INET, SOCK_DGRAM, 0] w1 = (r, w2)" by fastforce
    let ?fd = "a_ret r"
    note s2 = wstep_resolve_open [OF w1 w2]
    define w3 where "w3 = enable_broadcast ?fd ''setsockopt:SO_BROADCAST'' w2"
    obtain c w4 where w4: "sys_call ''connect'' [?fd, uint (ntohl addr), uint (word_of_int (c_int fportno) :: 16 word)] w3 = (c, w4)"
      by fastforce
    have s4: "wstep w 0 (if 0 \<le> ?fd then [?fd] else []) [] w4"
      by (rule wstep_quiet [OF wstep_quiet [OF s2 wstep_broadcast] wstep_sys_call [OF _ _ w4 [unfolded w3_def]]]) simp_all
    note run = udpsend_connect_def w1 w2 w3_def [symmetric] w4 Let_def
    consider (nosocket) "?fd < 0" | (fail) "0 \<le> ?fd" "a_ret c < 0" | (ok) "0 \<le> ?fd" "0 \<le> a_ret c" by linarith
    then show ?thesis
    proof cases
      case nosocket
      then show ?thesis using udpsend_step_world [OF assms wstep_report [OF s2]] none Some by (simp add: run)
    next
      case fail
      then show ?thesis using udpsend_step_world [OF assms wstep_report_close [OF s4 fail(1)]] none Some by (simp add: run)
    next
      case ok
      then have "wstep w 0 [?fd] [] w4" using s4 by simp
      then show ?thesis
        by (rule udpsend_connected_ok [OF _ ok(1) assms(2) none]) (use none Some ok in \<open>simp add: run\<close>)
    qed
  qed
qed

lemma udpsend_send_ok:
  assumes "udpsend_inv w" "mem_ok w" "length argv < 2147483648"
  shows "\<exists>w'. udpsend_send gi argv w = Inr w' \<and> udpsend_step w w' \<and> udpsend_fds_step w w'"
proof (cases "us_sender w")
  case None
  then show ?thesis using udpsend_step_world [OF assms(1,2) wstep_emit] by (simp add: udpsend_send_def)
next
  case (Some s)
  obtain c w1 where c: "iemnet__chunk_create_list gi (int (length argv)) argv w = Inr (c, w1)"
    "wstep w (if c = None then 0 else 2) [] [] w1" "case c of None \<Rightarrow> True | Some c \<Rightarrow> wf_chunk c"
    by (rule create_list_wstep [OF assms(2,3)])
  note f1 = wstepD [OF c(2)] note c1 = us_more_cong [OF f1(1)]
  have inv: "sender_inv s" using assms(1) Some by (simp add: udpsend_inv_def)
  obtain n s' w2 where w2: "iemnet__sender_send s c w1 = Inr (n, s', w2)" "sender_inv s'" "s_sockfd s' = s_sockfd s"
    "wstep w1 (sender_blocks (Some s') - sender_blocks (Some s)) [] [] w2"
    by (rule sender_send_opt_wstep [OF inv f1(3) [OF assms(2)] c(3)])
  note f2 = wstepD [OF w2(4)] note c2 = us_more_cong [OF f2(1)]
  define w3 where "w3 = iemnet__chunk_destroy c (w2\<lparr>us_sender := Some s'\<rparr>)"
  note f3 = wstepD [OF wstep_chunk_destroy [OF c(3), of "w2\<lparr>us_sender := Some s'\<rparr>"], folded w3_def]
  note c3 = us_more_cong [OF f3(1)]
  have step: "udpsend_step w w3 \<and> udpsend_fds_step w w3"
    using assms f1 f2 f3 c1 c2 c3 w2(2,3) Some by (simp add: udpsend_step_defs)
  have run: "udpsend_send gi argv w = (if n < 1 then udpsend_disconnect w3 else Inr w3)"
    using c(1) Some w2(1) by (simp add: udpsend_send_def w3_def Let_def)
  show ?thesis
  proof (cases "n < 1")
    case True
    obtain w4 where "udpsend_disconnect w3 = Inr w4" "udpsend_step w3 w4 \<and> udpsend_fds_step w3 w4"
      using udpsend_disconnect_ok [of w3] step unfolding udpsend_step_def by blast
    then show ?thesis using step run True by (auto simp: udpsend_step_def udpsend_fds_step_def)
  next
    case False
    then show ?thesis using step run by simp
  qed
qed

text \<open>A list of bytes is queued as one chunk behind what is waiting.\<close>

lemma udpsend_send_data:
  assumes "getint_integral gi" "bs \<noteq> []" "length bs < 2147483648"
    and "udpsend_inv w" "mem_ok w" "us_sender w = Some s" "s_isrunning s" "s_queue s \<noteq> None"
    and "chunks_size (sender_pending s) + length bs < 2147483648"
  obtains w' s' c where "udpsend_send gi (byte_atoms bs) w = Inr w'" "us_sender w' = Some s'"
    "sender_pending s' = sender_pending s @ [c]" "memcpy_from (c_data c) (c_size c) = Inr bs" "c_port c = 0"
proof -
  let ?as = "byte_atoms bs" and ?c = "list_chunk gi (byte_atoms bs)"
  have as: "?as \<noteq> []" "length ?as = length bs" using assms(2) by (simp_all add: byte_atoms_def)
  have wf: "wf_chunk ?c" using as assms(3) by (intro wf_list_chunk) simp_all
  obtain w1 where w1: "iemnet__chunk_create_list gi (int (length ?as)) ?as w = Inr (Some ?c, w1)" "mem_step w 2 w1"
    by (rule create_list_ok [OF assms(5) as(1)])
  have inv: "sender_inv s" using assms(4,6) by (simp add: udpsend_inv_def)
  have m1: "mem_ok w1" using w1(2) assms(5) by (simp add: mem_step_def)
  have fits: "chunks_size (sender_pending s) + c_size ?c < 2147483648" using assms(9) as(2) by simp
  obtain s' w2 where w2: "iemnet__sender_send s (Some ?c) w1 = Inr (int (chunks_size (sender_pending s')), s', w2)"
    "sender_pending s' = sender_pending s @ [?c\<lparr>c_family := AF_INET\<rparr>]"
    by (rule sender_send_fits [OF inv assms(7,8) wf m1 fits])
  have size: "1 \<le> chunks_size (sender_pending s')"
    using w2(2) as assms(2) by (simp add: chunks_size_def Suc_le_eq)
  let ?w3 = "iemnet__chunk_destroy (Some ?c) (w2\<lparr>us_sender := Some s'\<rparr>)"
  have send: "udpsend_send gi ?as w = Inr ?w3"
    using assms(6) w1(1) w2(1) size by (simp add: udpsend_send_def Let_def)
  have more: "world.more ?w3 = world.more (w2\<lparr>us_sender := Some s'\<rparr>)" by simp
  have keep: "us_sender ?w3 = Some s'" using us_more_cong(2) [OF more] by simp
  have "memcpy_from (c_data ?c) (c_size ?c) = Inr bs" "c_port ?c = 0"
    using byte_atoms_getint [OF assms(1), of bs] by (simp_all add: list_chunk_def memcpy_from_def byte_atoms_def)
  then show thesis using that [OF send keep w2(2)] by simp
qed

section \<open>The object keeps its promises\<close>

lemma udpsend_method_ok:
  assumes "udpsend_inv w" "mem_ok w" "udpsend_safe m w"
  shows "\<exists>w'. udpsend_method gi m w = Inr w' \<and> udpsend_step w w' \<and> udpsend_fds_step w w'"
proof (cases m)
  case (US_connect hostname fportno)
  show ?thesis
  proof (cases "us_sender w = None")
    case True
    then show ?thesis using udpsend_connect_ok [OF assms(1,2), of hostname fportno] US_connect assms(3) by auto
  next
    case False
    then show ?thesis using udpsend_step_world [OF assms(1,2) wstep_emit] US_connect by (simp add: udpsend_connect_def)
  qed
next
  case US_disconnect
  then show ?thesis using udpsend_disconnect_ok [OF assms(1,2)] by (metis udpsend_method.simps(2))
next
  case (US_send argv)
  then show ?thesis using udpsend_send_ok [OF assms(1,2), of argv gi] assms(3) by auto
qed

lemma udpsend_env_step: "udpsend_inv w \<Longrightarrow> mem_ok w \<Longrightarrow> udpsend_env w w' \<Longrightarrow> udpsend_step w w' \<and> udpsend_fds_step w w'"
  by (auto simp: udpsend_env_def thread_works_def udpsend_step_defs fd_silent_def split: option.splits)

interpretation us: pd_socket_object udpsend_inv udpsend_safe "udpsend_method gi" udpsend_env udpsend_blocks udpsend_fds
  for gi
proof (unfold_locales, goal_cases)
  case (1 w m)
  with udpsend_method_ok [of w m gi] show ?case by (auto simp: udpsend_step_def)
next
  case (2 w w')
  with udpsend_env_step [of w w'] show ?case by (auto simp: udpsend_step_def)
next
  case (3 w m w')
  with udpsend_method_ok [of w m gi] show ?case by (auto simp: udpsend_fds_step_def)
next
  case (4 w w')
  with udpsend_env_step [of w w'] show ?case by (auto simp: udpsend_fds_step_def)
qed

lemma udpsend_new_ok:
  "udpsend_inv (udpsend_new w)" "udpsend_blocks (udpsend_new w) = 0" "udpsend_fds (udpsend_new w) = []"
  "w_live (udpsend_new w) = w_live w" "w_io (udpsend_new w) = w_io w" "mem_ok (udpsend_new w) = mem_ok w"
  by (simp_all add: udpsend_new_def udpsend_inv_def udpsend_blocks_def udpsend_fds_def world.defs sender_blocks_def mem_ok_def)

lemma udpsend_free_ok:
  assumes "udpsend_inv w" "mem_ok w" "fd_balance (w_io w) (udpsend_fds w)"
  shows "\<exists>w'. udpsend_free w = Inr w' \<and> w_live w' = w_live w - udpsend_blocks w \<and> fd_balance (w_io w') []"
  by (rule udpsend_disconnect_ok [OF assms(1,2)])
    (use assms(3) in \<open>auto simp: udpsend_free_def udpsend_step_def udpsend_fds_step_def udpsend_blocks_def udpsend_fds_def sender_blocks_def\<close>)

interpretation us_life: pd_mortal_object udpsend_inv udpsend_safe "udpsend_method gi" udpsend_env udpsend_blocks udpsend_fds
    udpsend_free "\<lambda>_. True"
  for gi
  by unfold_locales (rule udpsend_free_ok)

end
