(* ===== verification/Tcp_Client.thy ===== *)
theory Tcp_Client
  imports Pd_Object
begin

text \<open>
  The object of \<^verbatim>\<open>tcpclient.c\<close>: one TCP connection in both directions.
\<close>

section \<open>The object\<close>

text \<open>
  \<open>tc_hostname\<close> is a C string, possibly NULL. The clock of the object is created and freed, but never set, so
  that it is not part of the state; the outlets and the clock belong to Pd.
\<close>

record t_tcpclient = world +
  tc_sender :: "t_iemnet_sender option"
  tc_receiver :: "t_iemnet_receiver option"
  tc_serialize :: int
  tc_fd :: int
  tc_hostname :: "string option"
  tc_connectstate :: int
  tc_port :: int
  tc_addr :: "32 word"
  tc_timeout :: t_float
  tc_floatlist :: "t_iemnet_floatlist option"

text \<open>\<^verbatim>\<open>gensym\<close> of a NULL pointer reads through it.\<close>

definition tcpclient_info :: "string \<Rightarrow> t_tcpclient \<Rightarrow> t_tcpclient res" where
  "tcpclient_info junk w =
     (let connected = tc_connectstate w; sockfd = tc_fd w;
          w = (if sockfd \<ge> 0 then iemnet__socket2addressout junk sockfd Statusout ''local_address'' w else w);
          w = iemnet__numconnout (Some Statusout) (Some Connectout) connected w
      in if connected \<noteq> 0 then
           let port = uint (word_of_int (tc_port w) :: 16 word);
               insize = iemnet__receiver_getsize (tc_receiver w);
               outsize = iemnet__sender_getsize (tc_sender w)
           in case tc_hostname w of None \<Rightarrow> Inl NullDeref
              | Some hostname \<Rightarrow>
                  let w = emit (Outlet_anything Statusout ''server''
                            [SETFLOAT sockfd, A_SYMBOL hostname, SETFLOAT port]) w
                  in Inr (emit (Outlet_anything Statusout ''bufsize'' [SETFLOAT insize, SETFLOAT outsize]) w)
         else Inr w)"

definition tcpclient_do_disconnect ::
    "int \<Rightarrow> t_iemnet_sender option \<Rightarrow> t_iemnet_receiver option \<Rightarrow> t_tcpclient \<Rightarrow> (int \<times> t_tcpclient) res" where
  "tcpclient_do_disconnect fd sender receiver w =
     res_bind (case sender of None \<Rightarrow> Inr w | Some s \<Rightarrow> iemnet__sender_destroy s w) (\<lambda>w.
       let w = iemnet__receiver_destroy receiver False w in
       if fd \<ge> 0 then Inr (1, iemnet__closesocket fd True w) else Inr (0, w))"

text \<open>
  On success the sender, the receiver and the address are stored through the pointers given. The address
  is read as a \<^verbatim>\<open>long\<close>, of which \<^verbatim>\<open>ntohl\<close> takes the lower 32 bits.
\<close>

definition tcpclient_do_connect :: "string \<Rightarrow> 16 word \<Rightarrow> t_tcpclient \<Rightarrow> (int \<times> t_tcpclient) res" where
  "tcpclient_do_connect host port w =
     (let (hp, w) = gethostbyname host w
      in case a_host hp of
        None \<Rightarrow> Inr (-1, emit (Iemnet_log IEMNET_ERROR ''bad host '%s'?'' [L_str host]) w)
      | Some addr \<Rightarrow>
          let (r, w) = sys_call ''socket'' [AF_INET, SOCK_STREAM, 0] w; sockfd = a_ret r
          in if sockfd < 0
             then Inr (sockfd, emit (Sys_sockerror ''socket'') (emit (Iemnet_log IEMNET_ERROR ''unable to open socket'' []) w))
          else
            let (c, w) = iemnet__connect sockfd addr (htons port) (tc_timeout w) w
            in if c < 0
               then Inr (-1, iemnet__closesocket sockfd True (emit (Sys_sockerror ''connect'')
                      (emit (Iemnet_log IEMNET_ERROR ''unable to connect to stream socket'' []) w)))
            else res_bind (iemnet__sender_create sockfd None None w) (\<lambda>(sender, w).
              let (receiver, w) = iemnet__receiver_create sockfd (Some 0) False w
              in Inr (sockfd, w\<lparr>tc_addr := ntohl addr, tc_sender := sender, tc_receiver := receiver\<rparr>)))"

definition tcpclient_tick :: "t_tcpclient \<Rightarrow> t_tcpclient" where
  "tcpclient_tick w = iemnet__numconnout (Some Statusout) (Some Connectout) 1 w"

definition tcpclient_connect :: "string \<Rightarrow> string \<Rightarrow> t_float \<Rightarrow> t_tcpclient \<Rightarrow> t_tcpclient res" where
  "tcpclient_connect junk hostname fportno w =
     res_bind
       (if tc_hostname w \<noteq> None \<or> tc_port w \<noteq> 0 then
          res_bind (tcpclient_do_disconnect (tc_fd w) (tc_sender w) (tc_receiver w) w) (\<lambda>(state, w).
            let w = w\<lparr>tc_connectstate := 0, tc_sender := None, tc_receiver := None\<rparr>
            in Inr (if state \<noteq> 0 then iemnet__numconnout (Some Statusout) (Some Connectout) 0 w else w))
        else Inr w)
       (\<lambda>w. let w = w\<lparr>tc_hostname := Some hostname, tc_port := c_int fportno\<rparr> in
         res_bind (tcpclient_do_connect hostname (word_of_int (tc_port w)) w) (\<lambda>(state, w).
         tcpclient_info junk (w\<lparr>tc_connectstate := (if state > 0 then 1 else 0), tc_fd := state\<rparr>)))"

definition tcpclient_disconnect :: "t_tcpclient \<Rightarrow> t_tcpclient res" where
  "tcpclient_disconnect w =
     res_bind
       (if tc_hostname w \<noteq> None \<or> tc_port w \<noteq> 0 then
          res_bind (tcpclient_do_disconnect (tc_fd w) (tc_sender w) (tc_receiver w) w) (\<lambda>(state, w).
            Inr (if state = 0 \<and> tc_port w = 0 then emit (Iemnet_log IEMNET_ERROR ''not connected'' []) w else w))
        else Inr w)
       (\<lambda>w. Inr (iemnet__numconnout (Some Statusout) (Some Connectout) 0
         (w\<lparr>tc_port := 0, tc_hostname := None, tc_sender := None, tc_receiver := None\<rparr>)))"

definition tcpclient_send :: "getint \<Rightarrow> t_atom list \<Rightarrow> t_tcpclient \<Rightarrow> t_tcpclient res" where
  "tcpclient_send gi argv w =
     res_bind (iemnet__chunk_create_list gi (int (length argv)) argv w) (\<lambda>(chunk, w).
     res_bind (case tc_sender w of None \<Rightarrow> Inr (0, w)
        | Some sender \<Rightarrow> if chunk = None then Inr (0, w)
            else res_bind (iemnet__sender_send sender chunk w) (\<lambda>(sz, sender, w).
              Inr (sz, w\<lparr>tc_sender := Some sender\<rparr>)))
     (\<lambda>(sz, w).
       let w = iemnet__chunk_destroy chunk w;
           w = emit (Outlet_anything Statusout ''sendbuffersize'' [SETFLOAT sz]) w
       in if sz < 0 then tcpclient_disconnect w else Inr w))"

definition tcpclient_receive_callback :: "ptr \<Rightarrow> t_iemnet_chunk option \<Rightarrow> t_tcpclient \<Rightarrow> t_tcpclient res" where
  "tcpclient_receive_callback y c w = (case c of
     Some c \<Rightarrow>
       (let w = iemnet__addrout (Some Statusout) (Some Addrout) (tc_addr w) (word_of_int (tc_port w)) w in
        res_bind (iemnet__chunk2list (Some c) (tc_floatlist w) w) (\<lambda>(fl, w).
        let w = w\<lparr>tc_floatlist := fl\<rparr> in
        case fl of None \<Rightarrow> Inl NullDeref
        | Some fl \<Rightarrow> iemnet__streamout (Some Msgout) (int (fl_argc fl))
            (case fl_argv fl of None \<Rightarrow> [] | Some av \<Rightarrow> av) (tc_serialize w \<noteq> 0) w))
   | None \<Rightarrow> tcpclient_disconnect w)"

definition tcpclient_serialize :: "t_float \<Rightarrow> t_tcpclient \<Rightarrow> t_tcpclient" where
  "tcpclient_serialize doit w = w\<lparr>tc_serialize := c_int doit\<rparr>"

definition tcpclient_set_timeout :: "t_float \<Rightarrow> t_tcpclient \<Rightarrow> t_tcpclient" where
  "tcpclient_set_timeout timeout w = w\<lparr>tc_timeout := timeout\<rparr>"

definition tcpclient_free_simple :: "t_tcpclient \<Rightarrow> t_tcpclient" where
  "tcpclient_free_simple w = (iemnet__floatlist_destroy (tc_floatlist w) w)\<lparr>tc_floatlist := None\<rparr>"

definition tcpclient_new :: "world \<Rightarrow> t_tcpclient res" where
  "tcpclient_new w =
     res_bind (iemnet__floatlist_create 1024 w) (\<lambda>(fl, w).
       Inr (world.extend w \<lparr>tc_sender = None, tc_receiver = None, tc_serialize = 1, tc_fd = -1, tc_hostname = None,
         tc_connectstate = 0, tc_port = 0, tc_addr = 0, tc_timeout = -1, tc_floatlist = fl\<rparr>))"

definition tcpclient_free :: "t_tcpclient \<Rightarrow> t_tcpclient res" where
  "tcpclient_free w = res_bind (tcpclient_disconnect w) (\<lambda>w. Inr (tcpclient_free_simple w))"

text \<open>The methods of the class, and the callback of its receiver.\<close>

datatype tcpclient_msg =
    TC_connect string t_float | TC_disconnect | TC_serialize t_float | TC_timeout t_float
  | TC_send "t_atom list" | TC_bang | TC_receive "t_iemnet_chunk option"

fun tcpclient_method :: "getint \<Rightarrow> string \<Rightarrow> tcpclient_msg \<Rightarrow> t_tcpclient \<Rightarrow> t_tcpclient res" where
  "tcpclient_method gi junk (TC_connect hostname fportno) w = tcpclient_connect junk hostname fportno w"
| "tcpclient_method gi junk TC_disconnect w = tcpclient_disconnect w"
| "tcpclient_method gi junk (TC_serialize doit) w = Inr (tcpclient_serialize doit w)"
| "tcpclient_method gi junk (TC_timeout timeout) w = Inr (tcpclient_set_timeout timeout w)"
| "tcpclient_method gi junk (TC_send argv) w = tcpclient_send gi argv w"
| "tcpclient_method gi junk TC_bang w = tcpclient_info junk w"
| "tcpclient_method gi junk (TC_receive c) w = tcpclient_receive_callback (Some 0) c w"

section \<open>Invariant\<close>

definition tcpclient_inv :: "t_tcpclient \<Rightarrow> bool" where
  "tcpclient_inv w \<longleftrightarrow>
     (case tc_sender w of None \<Rightarrow> True | Some s \<Rightarrow> sender_inv s \<and> 0 \<le> tc_fd w \<and> s_sockfd s = tc_fd w) \<and>
     (tc_hostname w = None \<longrightarrow> tc_port w = 0 \<and> tc_sender w = None \<and> tc_receiver w = None) \<and>
     (case tc_floatlist w of None \<Rightarrow> True | Some fl \<Rightarrow> wf_floatlist fl)"

definition tcpclient_blocks :: "t_tcpclient \<Rightarrow> int" where
  "tcpclient_blocks w = sender_blocks (tc_sender w) + receiver_blocks (tc_receiver w) +
     (if tc_floatlist w = None then 0 else 2)"

text \<open>After a disconnect \<open>tc_fd\<close> still holds the number of the closed socket.\<close>

definition tcpclient_fds :: "t_tcpclient \<Rightarrow> int list" where
  "tcpclient_fds w = (if tc_hostname w \<noteq> None \<and> 0 \<le> tc_fd w then [tc_fd w] else [])"

fun tcpclient_safe :: "tcpclient_msg \<Rightarrow> t_tcpclient \<Rightarrow> bool" where
  "tcpclient_safe (TC_send argv) w \<longleftrightarrow> length argv < 2147483648"
| "tcpclient_safe (TC_receive c) w \<longleftrightarrow> (case c of None \<Rightarrow> True | Some c \<Rightarrow> wf_chunk c)"
| "tcpclient_safe TC_bang w \<longleftrightarrow> tc_connectstate w = 0 \<or> tc_hostname w \<noteq> None"
| "tcpclient_safe _ w \<longleftrightarrow> True"

definition tcpclient_env :: "t_tcpclient \<Rightarrow> t_tcpclient \<Rightarrow> bool" where
  "tcpclient_env w w' \<longleftrightarrow> (\<exists>s. world.more w' = world.more (w\<lparr>tc_sender := s\<rparr>)) \<and>
     thread_works (tc_sender w) w (tc_sender w') w'"

lemma tc_more_cong:
  assumes "world.more w' = world.more (w :: t_tcpclient)"
  shows "tc_sender w' = tc_sender w" "tc_receiver w' = tc_receiver w" "tc_serialize w' = tc_serialize w"
    "tc_fd w' = tc_fd w" "tc_hostname w' = tc_hostname w" "tc_connectstate w' = tc_connectstate w"
    "tc_port w' = tc_port w" "tc_addr w' = tc_addr w" "tc_timeout w' = tc_timeout w" "tc_floatlist w' = tc_floatlist w"
  using assms by (cases w; cases w'; simp)+

lemma tc_sel [simp]:
  "mem_ok (w\<lparr>tc_sender := a\<rparr>) = mem_ok w" "mem_ok (w\<lparr>tc_receiver := b\<rparr>) = mem_ok w"
  "mem_ok (w\<lparr>tc_fd := c\<rparr>) = mem_ok w" "mem_ok (w\<lparr>tc_hostname := d\<rparr>) = mem_ok w"
  "mem_ok (w\<lparr>tc_connectstate := e\<rparr>) = mem_ok w" "mem_ok (w\<lparr>tc_port := f\<rparr>) = mem_ok w"
  "mem_ok (w\<lparr>tc_addr := g\<rparr>) = mem_ok w" "mem_ok (w\<lparr>tc_floatlist := h\<rparr>) = mem_ok w"
  "mem_ok (w\<lparr>tc_serialize := i\<rparr>) = mem_ok w" "mem_ok (w\<lparr>tc_timeout := j\<rparr>) = mem_ok w"
  by (simp_all add: mem_ok_def)

definition tcpclient_step :: "t_tcpclient \<Rightarrow> t_tcpclient \<Rightarrow> bool" where
  "tcpclient_step w w' \<longleftrightarrow> tcpclient_inv w' \<and> mem_ok w' \<and>
     w_live w' - tcpclient_blocks w' = w_live w - tcpclient_blocks w \<and>
     (fd_balance (w_io w) (tcpclient_fds w) \<longrightarrow> fd_balance (w_io w') (tcpclient_fds w'))"

lemma tcpclient_step_trans: "tcpclient_step w w1 \<Longrightarrow> tcpclient_step w1 w2 \<Longrightarrow> tcpclient_step w w2"
  by (simp add: tcpclient_step_def)

lemmas tcpclient_step_defs = tcpclient_step_def tcpclient_inv_def tcpclient_blocks_def tcpclient_fds_def fd_balance_def

lemma tc_cong:
  assumes "world.more w' = world.more (w :: t_tcpclient)"
  shows "tcpclient_inv w' = tcpclient_inv w" "tcpclient_blocks w' = tcpclient_blocks w" "tcpclient_fds w' = tcpclient_fds w"
  unfolding tcpclient_inv_def tcpclient_blocks_def tcpclient_fds_def tc_more_cong [OF assms] by (rule refl)+

lemma tcpclient_step_world:
  assumes "tcpclient_inv w" "mem_ok w" "wstep w 0 op cl w'" "mset op = mset cl"
  shows "tcpclient_step w w'"
  using assms(1,2,4) wstepD [OF assms(3)] tc_cong [OF wstepD(1) [OF assms(3)]]
  by (auto simp: tcpclient_step_def fd_balance_def)

section \<open>Connecting and disconnecting\<close>

lemma do_disconnect_wstep:
  assumes "tcpclient_inv w"
  obtains w' where "tcpclient_do_disconnect (tc_fd w) (tc_sender w) (tc_receiver w) w = Inr (if 0 \<le> tc_fd w then 1 else 0, w')"
    "wstep w (- sender_blocks (tc_sender w) + - receiver_blocks (tc_receiver w)) []
      (if 0 \<le> tc_fd w then [tc_fd w] else []) w'"
proof -
  have "case tc_sender w of None \<Rightarrow> True | Some s \<Rightarrow> sender_inv s"
    using assms by (auto simp: tcpclient_inv_def split: option.splits)
  then obtain w1 where w1: "(case tc_sender w of None \<Rightarrow> Inr w | Some s \<Rightarrow> iemnet__sender_destroy s w) = Inr w1"
    "wstep w (- sender_blocks (tc_sender w)) [] [] w1"
    by (rule sender_destroy_wstep)
  let ?w2 = "iemnet__receiver_destroy (tc_receiver w) False w1"
  have s2: "wstep w (- sender_blocks (tc_sender w) + - receiver_blocks (tc_receiver w)) [] [] ?w2"
    using wstep_trans [OF w1(2) wstep_receiver_destroy] by simp
  show thesis
  proof (cases "0 \<le> tc_fd w")
    case True
    then show ?thesis using that wstep_close [OF s2 True] w1(1) by (simp add: tcpclient_do_disconnect_def)
  next
    case False
    then show ?thesis using that s2 w1(1) by (simp add: tcpclient_do_disconnect_def)
  qed
qed

lemma tcpclient_disconnect_ok:
  assumes "tcpclient_inv w" "mem_ok w"
  obtains w' where "tcpclient_disconnect w = Inr w'" "tcpclient_step w w'" "tc_hostname w' = None" "tc_sender w' = None"
    "tc_receiver w' = None" "tc_floatlist w' = tc_floatlist w" "tc_connectstate w' = tc_connectstate w"
proof (cases "tc_hostname w = None")
  case True
  define w1 where "w1 = w\<lparr>tc_port := 0, tc_hostname := None, tc_sender := None, tc_receiver := None\<rparr>"
  have n: "tc_port w = 0" "tc_sender w = None" "tc_receiver w = None" using True assms(1) by (simp_all add: tcpclient_inv_def)
  have s: "tcpclient_step w w1" using assms n True by (simp add: tcpclient_step_defs w1_def)
  let ?w' = "iemnet__numconnout (Some Statusout) (Some Connectout) 0 w1"
  have "tcpclient_step w1 ?w'"
    using s by (intro tcpclient_step_world [OF _ _ wstep_outputs(2)]) (simp_all add: tcpclient_step_def)
  moreover have "tcpclient_disconnect w = Inr ?w'" using True n by (simp add: tcpclient_disconnect_def w1_def)
  moreover note tc_more_cong [OF numconnout_frame(1), of "Some Statusout" "Some Connectout" 0 w1]
  ultimately show ?thesis using that tcpclient_step_trans [OF s] by (simp add: w1_def)
next
  case False
  obtain w1 where w1: "tcpclient_do_disconnect (tc_fd w) (tc_sender w) (tc_receiver w) w = Inr (if 0 \<le> tc_fd w then 1 else 0, w1)"
    "wstep w (- sender_blocks (tc_sender w) + - receiver_blocks (tc_receiver w)) []
      (if 0 \<le> tc_fd w then [tc_fd w] else []) w1"
    by (rule do_disconnect_wstep [OF assms(1)])
  define w2 where "w2 = (if \<not> 0 \<le> tc_fd w \<and> tc_port w1 = 0
    then emit (Iemnet_log IEMNET_ERROR ''not connected'' []) w1 else w1)"
  have s2: "wstep w (- sender_blocks (tc_sender w) + - receiver_blocks (tc_receiver w)) []
      (if 0 \<le> tc_fd w then [tc_fd w] else []) w2"
    unfolding w2_def using wstep_quiet [OF w1(2) wstep_emit [of "Iemnet_log IEMNET_ERROR ''not connected'' []"]] w1(2)
    by (cases "0 \<le> tc_fd w"; cases "tc_port w1 = 0") simp_all
  note f2 = wstepD [OF s2] note c2 = tc_more_cong [OF f2(1)]
  define w3 where "w3 = w2\<lparr>tc_port := 0, tc_hostname := None, tc_sender := None, tc_receiver := None\<rparr>"
  have s3: "tcpclient_step w w3"
    using assms f2 c2 False by (auto simp: tcpclient_step_defs w3_def split: option.splits)
  let ?w' = "iemnet__numconnout (Some Statusout) (Some Connectout) 0 w3"
  have "tcpclient_step w3 ?w'"
    using s3 by (intro tcpclient_step_world [OF _ _ wstep_outputs(2)]) (simp_all add: tcpclient_step_def)
  moreover have "tcpclient_disconnect w = Inr ?w'"
    using False w1(1) unfolding tcpclient_disconnect_def w3_def w2_def by simp
  moreover note tc_more_cong [OF numconnout_frame(1), of "Some Statusout" "Some Connectout" 0 w3]
  ultimately show ?thesis using that tcpclient_step_trans [OF s3] c2 by (simp add: w3_def)
qed

lemma tcpclient_info_ok:
  assumes "tc_connectstate w = 0 \<or> tc_hostname w \<noteq> None"
  obtains w' where "tcpclient_info junk w = Inr w'" "wstep w 0 [] [] w'"
proof -
  define w1 where "w1 = iemnet__numconnout (Some Statusout) (Some Connectout) (tc_connectstate w)
    (if tc_fd w \<ge> 0 then iemnet__socket2addressout junk (tc_fd w) Statusout ''local_address'' w else w)"
  have s1: "wstep w 0 [] [] w1"
    unfolding w1_def by (rule wstep_quiet [OF _ wstep_outputs(2)]) (simp add: wstep_outputs wstep_refl)
  note c1 = tc_more_cong [OF wstepD(1) [OF s1]]
  show thesis
  proof (cases "tc_connectstate w = 0")
    case True
    then show ?thesis using that s1 by (simp add: tcpclient_info_def Let_def w1_def)
  next
    case False
    then obtain h where h: "tc_hostname w = Some h" using assms by auto
    let ?e1 = "Outlet_anything Statusout ''server'' [SETFLOAT (tc_fd w), A_SYMBOL h,
      SETFLOAT (uint (word_of_int (tc_port w1) :: 16 word))]"
    let ?e2 = "Outlet_anything Statusout ''bufsize'' [SETFLOAT (iemnet__receiver_getsize (tc_receiver w1)),
      SETFLOAT (iemnet__sender_getsize (tc_sender w1))]"
    have "tcpclient_info junk w = Inr (emit ?e2 (emit ?e1 w1))"
      using False h c1 by (simp add: tcpclient_info_def Let_def w1_def [symmetric] del: t_float_of_short)
    moreover have "wstep w 0 [] [] (emit ?e2 (emit ?e1 w1))"
      by (rule wstep_quiet [OF wstep_quiet [OF s1 wstep_emit] wstep_emit]) simp_all
    ultimately show ?thesis using that by blast
  qed
qed

text \<open>
  The outcome of \<^verbatim>\<open>tcpclient_do_connect\<close>, called when nothing is connected: either it fails and leaves no socket
  behind, or the object has a new connection.
\<close>

definition connect_outcome :: "t_tcpclient \<Rightarrow> int \<Rightarrow> t_tcpclient \<Rightarrow> bool" where
  "connect_outcome w st w' \<longleftrightarrow> mem_ok w' \<and>
     w_live w' - sender_blocks (tc_sender w') - receiver_blocks (tc_receiver w') = w_live w \<and>
     (\<exists>op. opened_fds (w_io w') = opened_fds (w_io w) @ op @ (if 0 \<le> st then [st] else []) \<and>
        closed_fds (w_io w') = closed_fds (w_io w) @ op) \<and>
     (case tc_sender w' of None \<Rightarrow> True | Some s \<Rightarrow> sender_inv s \<and> 0 \<le> st \<and> s_sockfd s = st) \<and>
     tc_hostname w' = tc_hostname w \<and> tc_port w' = tc_port w \<and> tc_floatlist w' = tc_floatlist w"

lemma connect_failed:
  assumes "wstep w 0 op op w'" "st < 0" "mem_ok w" "tc_sender w = None" "tc_receiver w = None"
  shows "connect_outcome w st w'"
  using assms(2-5) wstepD [OF assms(1)] tc_more_cong [OF wstepD(1) [OF assms(1)]] by (simp add: connect_outcome_def)

lemma connect_succeeded:
  assumes "wstep w 0 [fd] [] v" "0 \<le> fd" "mem_ok w"
  obtains sn w1 rc w2 where "iemnet__sender_create fd None None v = Inr (sn, w1)"
    "iemnet__receiver_create fd (Some 0) False w1 = (rc, w2)"
    "connect_outcome w fd (w2\<lparr>tc_addr := ntohl addr, tc_sender := sn, tc_receiver := rc\<rparr>)"
proof -
  obtain sn w1 where w1: "iemnet__sender_create fd None None v = Inr (sn, w1)" "wstep v (sender_blocks sn) [] [] w1"
    "case sn of None \<Rightarrow> True | Some s \<Rightarrow> sender_inv s \<and> s_sockfd s = fd \<and> s_isrunning s \<and> s_queue s = Some queue_empty"
    by (rule sender_create_wstep [OF wstepD(3) [OF assms(1,3)]])
  obtain rc w2 where w2: "iemnet__receiver_create fd (Some 0) False w1 = (rc, w2)" by fastforce
  from wstep_trans [OF wstep_trans [OF assms(1) w1(2)] wstep_receiver_create [OF w2]]
  have "wstep w (sender_blocks sn + receiver_blocks rc) [fd] [] w2" by simp
  note f = wstepD [OF this] note c = tc_more_cong [OF f(1)]
  show thesis
    by (rule that [OF w1(1) w2]) (use f c assms w1(3) in \<open>auto simp: connect_outcome_def split: option.splits\<close>)
qed

lemma do_connect_ok:
  assumes "mem_ok w" "tc_sender w = None" "tc_receiver w = None"
  shows "\<exists>st w'. tcpclient_do_connect host port w = Inr (st, w') \<and> connect_outcome w st w'"
proof -
  obtain hp w1 where w1: "gethostbyname host w = (hp, w1)" by fastforce
  note s1 = wstep_gethostbyname [OF w1]
  show ?thesis
  proof (cases "a_host hp")
    case None
    have "connect_outcome w (-1) (emit (Iemnet_log IEMNET_ERROR ''bad host '%s'?'' [L_str host]) w1)"
      by (rule connect_failed [OF wstep_quiet [OF s1 wstep_emit] _ assms]) simp_all
    then show ?thesis using None by (simp add: tcpclient_do_connect_def w1)
  next
    case (Some addr)
    obtain r w2 where w2: "sys_call ''socket'' [AF_INET, SOCK_STREAM, 0] w1 = (r, w2)" by fastforce
    let ?fd = "a_ret r"
    note s2 = wstep_resolve_open [OF w1 w2]
    obtain c w3 where w3: "iemnet__connect ?fd addr (htons port) (tc_timeout w2) w2 = (c, w3)" by fastforce
    have s3: "wstep w 0 (if 0 \<le> ?fd then [?fd] else []) [] w3" by (rule wstep_quiet [OF s2 wstep_connect [OF w3]])
    note run = tcpclient_do_connect_def w1 w2 w3 Let_def
    consider (nosocket) "?fd < 0" | (fail) "0 \<le> ?fd" "c < 0" | (ok) "0 \<le> ?fd" "0 \<le> c" by linarith
    then show ?thesis
    proof cases
      case nosocket
      have "wstep w 0 [] [] w2" using s2 nosocket by simp
      from connect_failed [OF wstep_report [OF this] nosocket assms]
      have "connect_outcome w ?fd (emit (Sys_sockerror ''socket'') (emit (Iemnet_log IEMNET_ERROR ''unable to open socket'' []) w2))" .
      then show ?thesis using Some nosocket by (simp add: run)
    next
      case fail
      have "connect_outcome w (-1) (iemnet__closesocket ?fd True (emit (Sys_sockerror ''connect'')
          (emit (Iemnet_log IEMNET_ERROR ''unable to connect to stream socket'' []) w3)))"
        by (rule connect_failed [OF wstep_report_close [OF s3 fail(1)] _ assms]) simp
      then show ?thesis using Some fail by (simp add: run)
    next
      case ok
      have s: "wstep w 0 [?fd] [] w3" using s3 ok by simp
      show ?thesis by (rule connect_succeeded [OF s ok(1) assms(1), of addr]) (use Some ok in \<open>simp add: run\<close>)
    qed
  qed
qed

lemma hang_up:
  assumes "tcpclient_inv w" "mem_ok w"
  obtains w' where "(if tc_hostname w \<noteq> None \<or> tc_port w \<noteq> 0 then
      res_bind (tcpclient_do_disconnect (tc_fd w) (tc_sender w) (tc_receiver w) w) (\<lambda>(state, w).
        let w = w\<lparr>tc_connectstate := 0, tc_sender := None, tc_receiver := None\<rparr>
        in Inr (if state \<noteq> 0 then iemnet__numconnout (Some Statusout) (Some Connectout) 0 w else w))
    else Inr w) = Inr w'" "mem_ok w'" "tc_sender w' = None" "tc_receiver w' = None"
    "w_live w' = w_live w - sender_blocks (tc_sender w) - receiver_blocks (tc_receiver w)"
    "opened_fds (w_io w') = opened_fds (w_io w)" "closed_fds (w_io w') = closed_fds (w_io w) @ tcpclient_fds w"
    "tc_floatlist w' = tc_floatlist w"
proof (cases "tc_hostname w = None")
  case True
  then show thesis using that [of w] assms by (simp add: tcpclient_inv_def tcpclient_fds_def)
next
  case False
  obtain w1 where d: "tcpclient_do_disconnect (tc_fd w) (tc_sender w) (tc_receiver w) w = Inr (if 0 \<le> tc_fd w then 1 else 0, w1)"
    "wstep w (- sender_blocks (tc_sender w) + - receiver_blocks (tc_receiver w)) []
      (if 0 \<le> tc_fd w then [tc_fd w] else []) w1"
    by (rule do_disconnect_wstep [OF assms(1)])
  note f1 = wstepD [OF d(2)] note c1 = tc_more_cong [OF f1(1)]
  let ?w2 = "w1\<lparr>tc_connectstate := 0, tc_sender := None, tc_receiver := None\<rparr>"
  define w3 where "w3 = (if 0 \<le> tc_fd w then iemnet__numconnout (Some Statusout) (Some Connectout) 0 ?w2 else ?w2)"
  have s3: "wstep ?w2 0 [] [] w3" by (simp add: w3_def wstep_outputs wstep_refl)
  note f3 = wstepD [OF s3] note c3 = tc_more_cong [OF f3(1)]
  show thesis
    by (rule that [of w3]) (use False d(1) f1 c1 f3 c3 assms in \<open>simp_all add: w3_def tcpclient_fds_def\<close>)
qed

lemma tcpclient_connect_ok:
  assumes "tcpclient_inv w" "mem_ok w"
  shows "\<exists>w'. tcpclient_connect junk hostname fportno w = Inr w' \<and> tcpclient_step w w' \<and>
    tc_hostname w' = Some hostname \<and> (tc_connectstate w' \<noteq> 0 \<longrightarrow> tc_connectstate w' = 1 \<and> 0 < tc_fd w')"
proof -
  let ?hang = "(if tc_hostname w \<noteq> None \<or> tc_port w \<noteq> 0 then
      res_bind (tcpclient_do_disconnect (tc_fd w) (tc_sender w) (tc_receiver w) w) (\<lambda>(state, w).
        let w = w\<lparr>tc_connectstate := 0, tc_sender := None, tc_receiver := None\<rparr>
        in Inr (if state \<noteq> 0 then iemnet__numconnout (Some Statusout) (Some Connectout) 0 w else w))
    else Inr w)"
  obtain w1 where w1: "?hang = Inr w1" "mem_ok w1" "tc_sender w1 = None" "tc_receiver w1 = None"
    "w_live w1 = w_live w - sender_blocks (tc_sender w) - receiver_blocks (tc_receiver w)"
    "opened_fds (w_io w1) = opened_fds (w_io w)" "closed_fds (w_io w1) = closed_fds (w_io w) @ tcpclient_fds w"
    "tc_floatlist w1 = tc_floatlist w"
    by (rule hang_up [OF assms])
  let ?w2 = "w1\<lparr>tc_hostname := Some hostname, tc_port := c_int fportno\<rparr>"
  have pre: "mem_ok ?w2" "tc_sender ?w2 = None" "tc_receiver ?w2 = None" using w1 by simp_all
  obtain st w3 where w3: "tcpclient_do_connect hostname (word_of_int (tc_port ?w2)) ?w2 = Inr (st, w3)"
    and o: "connect_outcome ?w2 st w3"
    using do_connect_ok [OF pre] by blast
  define w4 where "w4 = w3\<lparr>tc_connectstate := (if st > 0 then 1 else 0), tc_fd := st\<rparr>"
  have "tc_connectstate w4 = 0 \<or> tc_hostname w4 \<noteq> None" using o by (simp add: w4_def connect_outcome_def)
  then obtain w5 where w5: "tcpclient_info junk w4 = Inr w5" "wstep w4 0 [] [] w5" by (rule tcpclient_info_ok)
  have s4: "tcpclient_step w w4"
    using o w1 assms(1) unfolding connect_outcome_def tcpclient_step_defs w4_def
    by (auto simp: split: option.splits)
  then have "tcpclient_step w4 w5" using w5(2) by (intro tcpclient_step_world) (simp_all add: tcpclient_step_def)
  then have "tcpclient_step w w5" by (rule tcpclient_step_trans [OF s4])
  moreover have "tcpclient_connect junk hostname fportno w = Inr w5"
    unfolding tcpclient_connect_def unfolding w1(1) unfolding res_bind_simps Let_def w3 using w5(1) by (simp add: w4_def)
  ultimately show ?thesis using tc_more_cong [OF wstepD(1) [OF w5(2)]] o by (simp add: w4_def connect_outcome_def)
qed

section \<open>Sending and receiving\<close>

lemma client_queues:
  assumes "tcpclient_inv w" "mem_ok w" "case c of None \<Rightarrow> True | Some c \<Rightarrow> wf_chunk c"
  obtains n w' where "(case tc_sender w of None \<Rightarrow> Inr (0, w)
     | Some sender \<Rightarrow> if c = None then Inr (0, w)
         else res_bind (iemnet__sender_send sender c w) (\<lambda>(sz, sender, w). Inr (sz, w\<lparr>tc_sender := Some sender\<rparr>))) = Inr (n, w')"
    "tcpclient_inv w'" "mem_ok w'" "w_live w' - tcpclient_blocks w' = w_live w - tcpclient_blocks w"
    "opened_fds (w_io w') = opened_fds (w_io w)" "closed_fds (w_io w') = closed_fds (w_io w)" "tcpclient_fds w' = tcpclient_fds w"
proof (cases "tc_sender w = None \<or> c = None")
  case True
  then show thesis using that [of 0 w] assms(1,2) by (auto split: option.splits)
next
  case False
  then obtain s c0 where s: "tc_sender w = Some s" "c = Some c0" by auto
  have inv: "sender_inv s" "wf_chunk c0" using assms(1,3) s by (simp_all add: tcpclient_inv_def)
  obtain n s' w2 where w2: "iemnet__sender_send s (Some c0) w = Inr (n, s', w2)" "sender_inv s'" "s_sockfd s' = s_sockfd s"
    "wstep w (sender_blocks (Some s') - sender_blocks (Some s)) [] [] w2"
    by (rule sender_send_wstep [OF inv(1) assms(2) inv(2)])
  note f2 = wstepD [OF w2(4)] note c2 = tc_more_cong [OF f2(1)]
  have "tcpclient_inv (w2\<lparr>tc_sender := Some s'\<rparr>)" using assms(1) s w2(2,3) c2 by (simp add: tcpclient_inv_def)
  then show thesis
    using that [of n "w2\<lparr>tc_sender := Some s'\<rparr>"] w2(1) f2 c2 assms(2) s
    by (simp add: tcpclient_blocks_def tcpclient_fds_def)
qed

lemma tcpclient_send_ok:
  assumes "tcpclient_inv w" "mem_ok w" "length argv < 2147483648"
  shows "\<exists>w'. tcpclient_send gi argv w = Inr w' \<and> tcpclient_step w w'"
proof -
  obtain c w1 where c: "iemnet__chunk_create_list gi (int (length argv)) argv w = Inr (c, w1)"
    "wstep w (if c = None then 0 else 2) [] [] w1" "case c of None \<Rightarrow> True | Some c \<Rightarrow> wf_chunk c"
    by (rule create_list_wstep [OF assms(2,3)])
  note f1 = wstepD [OF c(2)]
  have ok1: "tcpclient_inv w1" "mem_ok w1" using assms(1,2) f1 tc_cong [OF f1(1)] by simp_all
  let ?send = "(case tc_sender w1 of None \<Rightarrow> Inr (0, w1)
     | Some sender \<Rightarrow> if c = None then Inr (0, w1)
         else res_bind (iemnet__sender_send sender c w1) (\<lambda>(sz, sender, w). Inr (sz, w\<lparr>tc_sender := Some sender\<rparr>)))"
  obtain n w2 where w2: "?send = Inr (n, w2)" "tcpclient_inv w2" "mem_ok w2"
    "w_live w2 - tcpclient_blocks w2 = w_live w1 - tcpclient_blocks w1"
    "opened_fds (w_io w2) = opened_fds (w_io w)" "closed_fds (w_io w2) = closed_fds (w_io w)" "tcpclient_fds w2 = tcpclient_fds w"
    by (rule client_queues [OF ok1 c(3)]) (use f1 tc_cong [OF f1(1)] that in simp)
  define w3 where "w3 = emit (Outlet_anything Statusout ''sendbuffersize'' [SETFLOAT n]) (iemnet__chunk_destroy c w2)"
  have s3: "wstep w2 (if c = None then 0 else - 2) [] [] w3"
    unfolding w3_def by (rule wstep_quiet [OF wstep_chunk_destroy [OF c(3)] wstep_emit]) simp_all
  note f3 = wstepD [OF s3] note c3 = tc_cong [OF f3(1)]
  have step: "tcpclient_step w w3"
    using w2(2-) f1 f3 c3 tc_cong(2) [OF f1(1)] by (auto simp: tcpclient_step_def fd_balance_def)
  have run: "tcpclient_send gi argv w = (if n < 0 then tcpclient_disconnect w3 else Inr w3)"
    using c(1) w2(1) by (simp add: tcpclient_send_def w3_def Let_def)
  show ?thesis
  proof (cases "n < 0")
    case True
    obtain w4 where "tcpclient_disconnect w3 = Inr w4" "tcpclient_step w3 w4"
      using tcpclient_disconnect_ok [of w3] step unfolding tcpclient_step_def by blast
    then show ?thesis using run True tcpclient_step_trans [OF step] by simp
  next
    case False
    then show ?thesis using run step by simp
  qed
qed

lemma tcpclient_receive_data:
  assumes "tcpclient_inv w" "mem_ok w" "wf_chunk c"
  shows "\<exists>w'. tcpclient_receive_callback y (Some c) w = Inr w' \<and> tcpclient_step w w' \<and>
    messages (w_io w') = messages (w_io w) @ stream_messages (tc_serialize w \<noteq> 0) (byte_atoms (chunk_bytes c))"
proof -
  define w1 where "w1 = iemnet__addrout (Some Statusout) (Some Addrout) (tc_addr w) (word_of_int (tc_port w)) w"
  have s1: "wstep w 0 [] [] w1" unfolding w1_def by (rule wstep_outputs)
  note f1 = wstepD [OF s1] note c1 = tc_more_cong [OF f1(1)]
  have m1: "messages (w_io w1) = messages (w_io w)" by (simp add: w1_def)
  have "case tc_floatlist w1 of None \<Rightarrow> True | Some fl \<Rightarrow> wf_floatlist fl"
    using assms(1) by (simp add: c1 tcpclient_inv_def)
  then obtain fl w2 where w2: "iemnet__chunk2list (Some c) (tc_floatlist w1) w1 = Inr (Some fl, w2)"
    "world.more w2 = world.more w1" "w_io w2 = w_io w1" "mem_ok w2" "wf_floatlist fl" "floatlist_atoms fl = byte_atoms (chunk_bytes c)"
    "w_live w2 = w_live w1 + (if tc_floatlist w1 = None then 2 else 0)"
    by (rule chunk2list_ok [OF assms(3) f1(3) [OF assms(2)]])
  note c2 = tc_more_cong [OF w2(2)]
  let ?w2 = "w2\<lparr>tc_floatlist := Some fl\<rparr>"
  obtain w3 where w3: "iemnet__streamout (Some Msgout) (int (fl_argc fl)) (case fl_argv fl of None \<Rightarrow> [] | Some av \<Rightarrow> av)
      (tc_serialize w \<noteq> 0) ?w2 = Inr w3" "world.more w3 = world.more ?w2" "w_malloc w3 = w_malloc ?w2"
      "messages (w_io w3) = messages (w_io ?w2) @ stream_messages (tc_serialize w \<noteq> 0) (floatlist_atoms fl)"
      "opened_fds (w_io w3) = opened_fds (w_io ?w2)" "closed_fds (w_io w3) = closed_fds (w_io ?w2)" "w_live w3 = w_live ?w2"
    by (rule streamout_fds [OF w2(5)])
  note c3 = tc_more_cong [OF w3(2)]
  have "tcpclient_receive_callback y (Some c) w = Inr w3"
    using w2(1) w3(1) c1 c2 by (simp add: tcpclient_receive_callback_def w1_def [symmetric] Let_def)
  moreover have "tcpclient_step w w3"
    using assms(1) w2 w3 f1 c1 c2 c3 assms(2)
    by (auto simp: tcpclient_step_defs mem_ok_def split: option.splits)
  ultimately show ?thesis using w2 w3 m1 by simp
qed

section \<open>The object keeps its promises\<close>

lemma tcpclient_method_ok:
  assumes "tcpclient_inv w" "mem_ok w" "tcpclient_safe m w"
  shows "\<exists>w'. tcpclient_method gi junk m w = Inr w' \<and> tcpclient_step w w'"
proof (cases m)
  case (TC_connect hostname fportno)
  then show ?thesis using tcpclient_connect_ok [OF assms(1,2), of junk hostname fportno] by auto
next
  case TC_disconnect
  then show ?thesis using tcpclient_disconnect_ok [OF assms(1,2)] by (metis tcpclient_method.simps(2))
next
  case (TC_send argv)
  then show ?thesis using tcpclient_send_ok [OF assms(1,2), of argv gi] assms(3) by simp
next
  case (TC_receive c)
  then show ?thesis
  proof (cases c)
    case None
    have "tcpclient_method gi junk m w = tcpclient_disconnect w"
      by (simp add: TC_receive None tcpclient_receive_callback_def)
    then show ?thesis using tcpclient_disconnect_ok [OF assms(1,2)] by metis
  next
    case (Some x)
    then show ?thesis using tcpclient_receive_data [OF assms(1,2), of x "Some 0"] assms(3) TC_receive by auto
  qed
next
  case TC_bang
  with assms(3) have "tc_connectstate w = 0 \<or> tc_hostname w \<noteq> None" by simp
  then obtain w' where "tcpclient_info junk w = Inr w'" "wstep w 0 [] [] w'" by (rule tcpclient_info_ok)
  then show ?thesis using TC_bang tcpclient_step_world [OF assms(1,2)] by auto
qed (use assms in \<open>auto simp: tcpclient_serialize_def tcpclient_set_timeout_def tcpclient_step_defs split: option.splits\<close>)

lemma tcpclient_env_step:
  assumes "tcpclient_inv w" "mem_ok w" "tcpclient_env w w'"
  shows "tcpclient_step w w'"
proof -
  obtain s where "world.more w' = world.more (w\<lparr>tc_sender := s\<rparr>)" using assms(3) by (auto simp: tcpclient_env_def)
  note c = tc_more_cong [OF this]
  have "thread_works (tc_sender w) w (tc_sender w') w'" using assms(3) by (simp add: tcpclient_env_def)
  then show ?thesis using assms(1) c
    by (auto simp: thread_works_def tcpclient_step_defs fd_silent_def split: option.splits)
qed

interpretation tc: pd_socket_object tcpclient_inv tcpclient_safe "tcpclient_method gi junk" tcpclient_env tcpclient_blocks tcpclient_fds
  for gi junk
proof (unfold_locales, goal_cases)
  case (1 w m)
  with tcpclient_method_ok [of w m gi junk] show ?case by (auto simp: tcpclient_step_def)
next
  case (2 w w')
  with tcpclient_env_step [of w w'] show ?case by (auto simp: tcpclient_step_def)
next
  case (3 w m w')
  with tcpclient_method_ok [of w m gi junk] show ?case by (auto simp: tcpclient_step_def)
next
  case (4 w w')
  with tcpclient_env_step [of w w'] show ?case by (auto simp: tcpclient_step_def)
qed

lemma tcpclient_new_ok:
  assumes "mem_ok w"
  obtains w' where "tcpclient_new w = Inr w'" "tcpclient_inv w'" "tcpclient_fds w' = []" "mem_ok w'"
    "w_io w' = w_io w" "w_live w' = w_live w + tcpclient_blocks w'"
proof -
  obtain fl w1 where fl: "iemnet__floatlist_create 1024 w = Inr (Some fl, w1)" "mem_step w 2 w1" "wf_floatlist fl"
    using floatlist_create_result [of 1024 w] assms by auto
  then show thesis
    using that assms
    by (simp add: tcpclient_new_def tcpclient_inv_def tcpclient_fds_def tcpclient_blocks_def world.defs mem_step_def mem_ok_def)
qed

lemma tcpclient_free_ok:
  assumes "tcpclient_inv w" "mem_ok w" "fd_balance (w_io w) (tcpclient_fds w)"
  shows "\<exists>w'. tcpclient_free w = Inr w' \<and> w_live w' = w_live w - tcpclient_blocks w \<and> fd_balance (w_io w') []"
proof -
  obtain w1 where w1: "tcpclient_disconnect w = Inr w1" "tcpclient_step w w1" "tc_hostname w1 = None" "tc_sender w1 = None"
    "tc_receiver w1 = None" "tc_floatlist w1 = tc_floatlist w"
    by (rule tcpclient_disconnect_ok [OF assms(1,2)])
  have "case tc_floatlist w1 of None \<Rightarrow> True | Some fl \<Rightarrow> wf_floatlist fl" using assms(1) w1(6) by (simp add: tcpclient_inv_def)
  note d = floatlist_destroy_blocks [OF this, of w1]
  have "fd_balance (w_io w1) []" using w1(2,3) assms(3) by (simp add: tcpclient_step_def tcpclient_fds_def)
  then show ?thesis using w1 d by (simp add: tcpclient_free_def tcpclient_free_simple_def tcpclient_step_def tcpclient_blocks_def)
qed

interpretation tc_life: pd_mortal_object tcpclient_inv tcpclient_safe "tcpclient_method gi junk" tcpclient_env
    tcpclient_blocks tcpclient_fds tcpclient_free "\<lambda>_. True"
  for gi junk
  by unfold_locales (rule tcpclient_free_ok)

end
