(* ===== verification/Udp_Client.thy ===== *)
theory Udp_Client
  imports Pd_Object
begin

text \<open>
  The object of \<^verbatim>\<open>udpclient.c\<close>: a connected datagram socket, used in both directions.
\<close>

section \<open>The object\<close>

record t_udpclient = world +
  uc_sender :: "t_iemnet_sender option"
  uc_receiver :: "t_iemnet_receiver option"
  uc_fd :: int
  uc_hostname :: "string option"
  uc_connectstate :: int
  uc_port :: "16 word"
  uc_sendport :: "16 word"
  uc_addr :: "32 word"
  uc_floatlist :: "t_iemnet_floatlist option"

definition udpclient_info :: "string \<Rightarrow> t_udpclient \<Rightarrow> t_udpclient res" where
  "udpclient_info junk w =
     (let connected = uc_connectstate w; sockfd = uc_fd w;
          w = (if sockfd \<ge> 0 then iemnet__socket2addressout junk sockfd Statusout ''local_address'' w else w);
          w = iemnet__numconnout (Some Statusout) (Some Connectout) (uc_connectstate w) w
      in if connected \<noteq> 0 then
           let port = uint (uc_port w);
               insize = iemnet__receiver_getsize (uc_receiver w);
               outsize = iemnet__sender_getsize (uc_sender w)
           in case uc_hostname w of None \<Rightarrow> Inl NullDeref
              | Some hostname \<Rightarrow>
                  let w = emit (Outlet_anything Statusout ''server''
                            [SETFLOAT sockfd, A_SYMBOL hostname, SETFLOAT port]) w
                  in Inr (emit (Outlet_anything Statusout ''bufsize'' [SETFLOAT insize, SETFLOAT outsize]) w)
         else Inr w)"

text \<open>Binding to the sending port is tried only if one is given, and may fail.\<close>

definition bind_sendport :: "int \<Rightarrow> 16 word \<Rightarrow> 'w world_scheme \<Rightarrow> 'w world_scheme" where
  "bind_sendport sockfd sendport w =
     (if sendport > 0 then
        let (b, w) = sys_call ''bind'' [sockfd, 0, uint sendport] w in
        if a_ret b < 0
        then emit (Sys_sockerror ''bind'') (emit (Iemnet_log IEMNET_ERROR
               ''unable to bind with sending port %d (continuing with random port)'' [L_int (uint sendport)]) w)
        else w
      else w)"

definition udpclient_doconnect :: "string \<Rightarrow> bool \<Rightarrow> t_udpclient \<Rightarrow> t_udpclient res" where
  "udpclient_doconnect junk subthread w =
     (if uc_sender w \<noteq> None then Inr (emit (Iemnet_log IEMNET_ERROR ''already connected'' []) w)
      else case uc_hostname w of None \<Rightarrow> Inl NullDeref
      | Some host \<Rightarrow>
        let (hp, w) = gethostbyname host w
        in case a_host hp of
          None \<Rightarrow> Inr (emit (Iemnet_log IEMNET_ERROR ''bad host '%s'?'' [L_str host]) w)
        | Some addr \<Rightarrow>
            let (r, w) = sys_call ''socket'' [AF_INET, SOCK_DGRAM, 0] w; sockfd = a_ret r
            in if sockfd < 0
               then Inr (emit (Sys_sockerror ''socket'') (emit (Iemnet_log IEMNET_ERROR ''unable to create socket'' []) w))
            else
              let w = enable_broadcast sockfd ''setsockopt'' w;
                  w = bind_sendport sockfd (uc_sendport w) w;
                  (c, w) = sys_call ''connect'' [sockfd, uint (ntohl addr), uint (uc_port w)] w
              in if a_ret c < 0
                 then Inr (iemnet__closesocket sockfd True (emit (Sys_sockerror ''connect'')
                        (emit (Iemnet_log IEMNET_ERROR ''unable to connect to stream socket'' []) w)))
              else res_bind (iemnet__sender_create sockfd None None (w\<lparr>uc_fd := sockfd, uc_addr := ntohl addr\<rparr>)) (\<lambda>(sender, w).
                let (receiver, w) = iemnet__receiver_create sockfd (Some 0) subthread (w\<lparr>uc_sender := sender\<rparr>)
                in udpclient_info junk (w\<lparr>uc_receiver := receiver, uc_connectstate := 1\<rparr>)))"

definition udpclient_do_disconnect :: "t_udpclient \<Rightarrow> (int \<times> t_udpclient) res" where
  "udpclient_do_disconnect w =
     (let w = (iemnet__receiver_destroy (uc_receiver w) False w)\<lparr>uc_receiver := None\<rparr> in
      res_bind (case uc_sender w of None \<Rightarrow> Inr w | Some s \<Rightarrow> iemnet__sender_destroy s w) (\<lambda>w.
        let w = w\<lparr>uc_sender := None, uc_connectstate := 0\<rparr> in
        if uc_fd w < 0 then Inr (0, w)
        else Inr (1, (iemnet__closesocket (uc_fd w) True w)\<lparr>uc_fd := -1\<rparr>)))"

definition udpclient_disconnect :: "t_udpclient \<Rightarrow> t_udpclient res" where
  "udpclient_disconnect w =
     res_bind (udpclient_do_disconnect w) (\<lambda>(r, w).
       Inr (if r = 0 then emit (Iemnet_log IEMNET_ERROR ''not connected'' []) w
            else iemnet__numconnout (Some Statusout) (Some Connectout) (uc_connectstate w) w))"

definition udpclient_connect :: "string \<Rightarrow> string \<Rightarrow> t_float \<Rightarrow> t_float \<Rightarrow> t_udpclient \<Rightarrow> t_udpclient res" where
  "udpclient_connect junk hostname fportno fsndportno w =
     res_bind (if uc_fd w \<ge> 0 then udpclient_disconnect w else Inr w) (\<lambda>w.
       udpclient_doconnect junk False
         (w\<lparr>uc_hostname := Some hostname, uc_port := c_ushort fportno,
            uc_sendport := (if fsndportno > 0 then c_ushort fsndportno else 0), uc_connectstate := 0\<rparr>))"

definition udpclient_send :: "getint \<Rightarrow> t_atom list \<Rightarrow> t_udpclient \<Rightarrow> t_udpclient res" where
  "udpclient_send gi argv w =
     res_bind (iemnet__chunk_create_list gi (int (length argv)) argv w) (\<lambda>(chunk, w).
     res_bind (case uc_sender w of None \<Rightarrow> Inr (0, w)
        | Some sender \<Rightarrow> if chunk = None then Inr (0, w)
            else res_bind (iemnet__sender_send sender chunk w) (\<lambda>(sz, sender, w).
              Inr (sz, w\<lparr>uc_sender := Some sender\<rparr>)))
     (\<lambda>(sz, w). Inr (emit (Outlet_anything Statusout ''sendbuffersize'' [SETFLOAT sz]) (iemnet__chunk_destroy chunk w))))"

definition udpclient_receive_callback :: "ptr \<Rightarrow> t_iemnet_chunk option \<Rightarrow> t_udpclient \<Rightarrow> t_udpclient res" where
  "udpclient_receive_callback y c w = (case c of
     Some c \<Rightarrow>
       (let w = iemnet__addrout (Some Statusout) (Some Addrout) (uc_addr w) (uc_port w) w in
        res_bind (iemnet__chunk2list (Some c) (uc_floatlist w) w) (\<lambda>(fl, w).
        let w = w\<lparr>uc_floatlist := fl\<rparr> in
        case fl of None \<Rightarrow> Inl NullDeref | Some fl \<Rightarrow> outlet_floatlist fl w))
   | None \<Rightarrow> if uc_fd w \<ge> 0 then udpclient_disconnect w else Inr w)"

definition udpclient_new :: "world \<Rightarrow> t_udpclient res" where
  "udpclient_new w =
     res_bind (iemnet__floatlist_create 1024 w) (\<lambda>(fl, w).
       Inr (world.extend w \<lparr>uc_sender = None, uc_receiver = None, uc_fd = -1, uc_hostname = None, uc_connectstate = 0,
         uc_port = 0, uc_sendport = 0, uc_addr = 0, uc_floatlist = fl\<rparr>))"

definition udpclient_free :: "t_udpclient \<Rightarrow> t_udpclient res" where
  "udpclient_free w =
     res_bind (udpclient_do_disconnect w) (\<lambda>(_, w).
       Inr ((iemnet__floatlist_destroy (uc_floatlist w) w)\<lparr>uc_floatlist := None\<rparr>))"

text \<open>The methods of the class, and the callback of its receiver.\<close>

datatype udpclient_msg =
    UC_connect string t_float t_float | UC_disconnect | UC_send "t_atom list" | UC_bang
  | UC_receive "t_iemnet_chunk option"

fun udpclient_method :: "getint \<Rightarrow> string \<Rightarrow> udpclient_msg \<Rightarrow> t_udpclient \<Rightarrow> t_udpclient res" where
  "udpclient_method gi junk (UC_connect hostname fportno fsndportno) w = udpclient_connect junk hostname fportno fsndportno w"
| "udpclient_method gi junk UC_disconnect w = udpclient_disconnect w"
| "udpclient_method gi junk (UC_send argv) w = udpclient_send gi argv w"
| "udpclient_method gi junk UC_bang w = udpclient_info junk w"
| "udpclient_method gi junk (UC_receive c) w = udpclient_receive_callback (Some 0) c w"

section \<open>Invariant\<close>

definition udpclient_inv :: "t_udpclient \<Rightarrow> bool" where
  "udpclient_inv w \<longleftrightarrow>
     (case uc_sender w of None \<Rightarrow> True | Some s \<Rightarrow> sender_inv s \<and> s_sockfd s = uc_fd w) \<and>
     (uc_fd w < 0 \<longrightarrow> uc_sender w = None \<and> uc_receiver w = None \<and> uc_connectstate w = 0) \<and>
     (uc_connectstate w \<noteq> 0 \<longrightarrow> uc_hostname w \<noteq> None) \<and>
     (case uc_floatlist w of None \<Rightarrow> True | Some fl \<Rightarrow> wf_floatlist fl)"

definition udpclient_blocks :: "t_udpclient \<Rightarrow> int" where
  "udpclient_blocks w = sender_blocks (uc_sender w) + receiver_blocks (uc_receiver w) +
     (if uc_floatlist w = None then 0 else 2)"

definition udpclient_fds :: "t_udpclient \<Rightarrow> int list" where
  "udpclient_fds w = (if 0 \<le> uc_fd w then [uc_fd w] else [])"

fun udpclient_safe :: "udpclient_msg \<Rightarrow> t_udpclient \<Rightarrow> bool" where
  "udpclient_safe (UC_send argv) w \<longleftrightarrow> length argv < 2147483648"
| "udpclient_safe (UC_receive c) w \<longleftrightarrow> (case c of None \<Rightarrow> True | Some c \<Rightarrow> wf_chunk c)"
| "udpclient_safe _ w \<longleftrightarrow> True"

definition udpclient_env :: "t_udpclient \<Rightarrow> t_udpclient \<Rightarrow> bool" where
  "udpclient_env w w' \<longleftrightarrow> (\<exists>s. world.more w' = world.more (w\<lparr>uc_sender := s\<rparr>)) \<and>
     thread_works (uc_sender w) w (uc_sender w') w'"

lemma uc_more_cong:
  assumes "world.more w' = world.more (w :: t_udpclient)"
  shows "uc_sender w' = uc_sender w" "uc_receiver w' = uc_receiver w" "uc_fd w' = uc_fd w"
    "uc_hostname w' = uc_hostname w" "uc_connectstate w' = uc_connectstate w" "uc_port w' = uc_port w"
    "uc_sendport w' = uc_sendport w" "uc_addr w' = uc_addr w" "uc_floatlist w' = uc_floatlist w"
  using assms by (cases w; cases w'; simp)+

lemma uc_cong:
  assumes "world.more w' = world.more (w :: t_udpclient)"
  shows "udpclient_inv w' = udpclient_inv w" "udpclient_blocks w' = udpclient_blocks w" "udpclient_fds w' = udpclient_fds w"
  unfolding udpclient_inv_def udpclient_blocks_def udpclient_fds_def uc_more_cong [OF assms] by (rule refl)+

lemma uc_sel [simp]:
  "mem_ok (w\<lparr>uc_sender := a\<rparr>) = mem_ok w" "mem_ok (w\<lparr>uc_receiver := b\<rparr>) = mem_ok w"
  "mem_ok (w\<lparr>uc_fd := c\<rparr>) = mem_ok w" "mem_ok (w\<lparr>uc_hostname := d\<rparr>) = mem_ok w"
  "mem_ok (w\<lparr>uc_connectstate := e\<rparr>) = mem_ok w" "mem_ok (w\<lparr>uc_port := f\<rparr>) = mem_ok w"
  "mem_ok (w\<lparr>uc_addr := g\<rparr>) = mem_ok w" "mem_ok (w\<lparr>uc_floatlist := h\<rparr>) = mem_ok w"
  "mem_ok (w\<lparr>uc_sendport := i\<rparr>) = mem_ok w"
  by (simp_all add: mem_ok_def)

definition udpclient_step :: "t_udpclient \<Rightarrow> t_udpclient \<Rightarrow> bool" where
  "udpclient_step w w' \<longleftrightarrow> udpclient_inv w' \<and> mem_ok w' \<and>
     w_live w' - udpclient_blocks w' = w_live w - udpclient_blocks w \<and>
     (fd_balance (w_io w) (udpclient_fds w) \<longrightarrow> fd_balance (w_io w') (udpclient_fds w'))"

lemma udpclient_step_trans: "udpclient_step w w1 \<Longrightarrow> udpclient_step w1 w2 \<Longrightarrow> udpclient_step w w2"
  by (simp add: udpclient_step_def)

lemmas udpclient_step_defs = udpclient_step_def udpclient_inv_def udpclient_blocks_def udpclient_fds_def fd_balance_def

lemma udpclient_step_world:
  assumes "udpclient_inv w" "mem_ok w" "wstep w 0 op cl w'" "mset op = mset cl"
  shows "udpclient_step w w'"
  using assms(1,2,4) wstepD [OF assms(3)] uc_cong [OF wstepD(1) [OF assms(3)]]
  by (auto simp: udpclient_step_def fd_balance_def)

section \<open>Connecting and disconnecting\<close>

lemma udo_disconnect_ok:
  assumes "udpclient_inv w" "mem_ok w"
  obtains w' where "udpclient_do_disconnect w = Inr (if uc_fd w < 0 then 0 else 1, w')" "udpclient_step w w'"
    "uc_fd w' < 0" "uc_sender w' = None" "uc_receiver w' = None" "uc_floatlist w' = uc_floatlist w"
proof -
  define w1 where "w1 = iemnet__receiver_destroy (uc_receiver w) False w"
  have s1: "wstep w (- receiver_blocks (uc_receiver w)) [] [] w1" unfolding w1_def by (rule wstep_receiver_destroy)
  note f1 = wstepD [OF s1] note c1 = uc_more_cong [OF f1(1)]
  let ?w1 = "w1\<lparr>uc_receiver := None\<rparr>"
  have "case uc_sender ?w1 of None \<Rightarrow> True | Some s \<Rightarrow> sender_inv s"
    using assms(1) c1 by (auto simp: udpclient_inv_def split: option.splits)
  then obtain w2 where w2: "(case uc_sender ?w1 of None \<Rightarrow> Inr ?w1 | Some s \<Rightarrow> iemnet__sender_destroy s ?w1) = Inr w2"
    "wstep ?w1 (- sender_blocks (uc_sender ?w1)) [] [] w2"
    by (rule sender_destroy_wstep)
  note f2 = wstepD [OF w2(2)] note c2 = uc_more_cong [OF f2(1)]
  let ?w2 = "w2\<lparr>uc_sender := None, uc_connectstate := 0\<rparr>"
  show thesis
  proof (cases "uc_fd w < 0")
    case True
    then have "udpclient_do_disconnect w = Inr (0, ?w2)"
      using w2(1) c1 c2 by (simp add: udpclient_do_disconnect_def w1_def [symmetric])
    moreover have "udpclient_step w ?w2"
      using assms f1 f2 c1 c2 True by (simp add: udpclient_step_defs)
    ultimately show ?thesis using that True c1 c2 by simp
  next
    case False
    define w3 where "w3 = iemnet__closesocket (uc_fd w) True ?w2"
    have s3: "wstep ?w2 0 [] [uc_fd w] w3" unfolding w3_def using False by (intro wstep_closesocket) simp
    note f3 = wstepD [OF s3] note c3 = uc_more_cong [OF f3(1)]
    have "udpclient_do_disconnect w = Inr (1, w3\<lparr>uc_fd := -1\<rparr>)"
      using w2(1) c1 c2 False by (simp add: udpclient_do_disconnect_def w1_def [symmetric] w3_def)
    moreover have "udpclient_step w (w3\<lparr>uc_fd := -1\<rparr>)"
      using assms f1 f2 f3 c1 c2 c3 False by (simp add: udpclient_step_defs)
    ultimately show ?thesis using that False c1 c2 c3 by simp
  qed
qed

lemma udpclient_disconnect_ok:
  assumes "udpclient_inv w" "mem_ok w"
  obtains w' where "udpclient_disconnect w = Inr w'" "udpclient_step w w'" "uc_fd w' < 0"
    "uc_sender w' = None" "uc_receiver w' = None"
proof -
  obtain w1 where w1: "udpclient_do_disconnect w = Inr (if uc_fd w < 0 then 0 else 1, w1)" "udpclient_step w w1"
    "uc_fd w1 < 0" "uc_sender w1 = None" "uc_receiver w1 = None"
    by (rule udo_disconnect_ok [OF assms])
  let ?w' = "if uc_fd w < 0 then emit (Iemnet_log IEMNET_ERROR ''not connected'' []) w1
    else iemnet__numconnout (Some Statusout) (Some Connectout) (uc_connectstate w1) w1"
  have q: "wstep w1 0 [] [] ?w'" by (simp add: wstep_emit wstep_outputs)
  have "udpclient_step w1 ?w'" using w1(2) by (intro udpclient_step_world [OF _ _ q]) (simp_all add: udpclient_step_def)
  moreover have "udpclient_disconnect w = Inr ?w'" using w1(1) by (simp add: udpclient_disconnect_def)
  ultimately show thesis
    using that w1 udpclient_step_trans [OF w1(2)] uc_more_cong [OF wstepD(1) [OF q]] by metis
qed

lemma udpclient_info_ok:
  assumes "uc_connectstate w = 0 \<or> uc_hostname w \<noteq> None"
  obtains w' where "udpclient_info junk w = Inr w'" "wstep w 0 [] [] w'"
proof -
  let ?w0 = "if uc_fd w \<ge> 0 then iemnet__socket2addressout junk (uc_fd w) Statusout ''local_address'' w else w"
  have s0: "wstep w 0 [] [] ?w0" by (simp add: wstep_outputs wstep_refl)
  define w1 where "w1 = iemnet__numconnout (Some Statusout) (Some Connectout) (uc_connectstate ?w0) ?w0"
  have s1: "wstep w 0 [] [] w1" unfolding w1_def by (rule wstep_quiet [OF s0 wstep_outputs(2)])
  note c1 = uc_more_cong [OF wstepD(1) [OF s1]]
  show thesis
  proof (cases "uc_connectstate w = 0")
    case True
    then show ?thesis using that s1 by (simp add: udpclient_info_def Let_def w1_def)
  next
    case False
    then obtain h where h: "uc_hostname w = Some h" using assms by auto
    let ?e1 = "Outlet_anything Statusout ''server'' [SETFLOAT (uc_fd w), A_SYMBOL h, SETFLOAT (uint (uc_port w1))]"
    let ?e2 = "Outlet_anything Statusout ''bufsize'' [SETFLOAT (iemnet__receiver_getsize (uc_receiver w1)),
      SETFLOAT (iemnet__sender_getsize (uc_sender w1))]"
    have "udpclient_info junk w = Inr (emit ?e2 (emit ?e1 w1))"
      using False h c1 by (simp add: udpclient_info_def Let_def w1_def [symmetric] del: t_float_of_short)
    moreover have "wstep w 0 [] [] (emit ?e2 (emit ?e1 w1))"
      by (rule wstep_quiet [OF wstep_quiet [OF s1 wstep_emit] wstep_emit]) simp_all
    ultimately show ?thesis using that by blast
  qed
qed

lemma wstep_sendport: "wstep w 0 [] [] (bind_sendport fd p w)"
  by (simp add: wstep_def bind_sendport_def Let_def case_prod_beta mem_ok_def)

lemma udpclient_connected_ok:
  assumes "udpclient_inv w" "mem_ok w" "uc_fd w < 0" "uc_hostname w = Some host"
    and "wstep w 0 [fd] [] w1" "0 \<le> fd"
  obtains w' where "res_bind (iemnet__sender_create fd None None (w1\<lparr>uc_fd := fd, uc_addr := a\<rparr>)) (\<lambda>(sender, w).
      let (receiver, w) = iemnet__receiver_create fd (Some 0) False (w\<lparr>uc_sender := sender\<rparr>)
      in udpclient_info junk (w\<lparr>uc_receiver := receiver, uc_connectstate := 1\<rparr>)) = Inr w'" "udpclient_step w w'"
    "uc_fd w' = fd" "uc_connectstate w' = 1" "uc_hostname w' = Some host" "uc_port w' = uc_port w"
proof -
  have none: "uc_sender w = None" "uc_receiver w = None" using assms(1,3) by (simp_all add: udpclient_inv_def)
  note f1 = wstepD [OF assms(5)] note c1 = uc_more_cong [OF f1(1)]
  let ?w1 = "w1\<lparr>uc_fd := fd, uc_addr := a\<rparr>"
  have "mem_ok ?w1" using f1(3) assms(2) by simp
  then obtain sn w2 where w2: "iemnet__sender_create fd None None ?w1 = Inr (sn, w2)" "wstep ?w1 (sender_blocks sn) [] [] w2"
    "case sn of None \<Rightarrow> True | Some s \<Rightarrow> sender_inv s \<and> s_sockfd s = fd \<and> s_isrunning s \<and> s_queue s = Some queue_empty"
    by (rule sender_create_wstep)
  note f2 = wstepD [OF w2(2)] note c2 = uc_more_cong [OF f2(1)]
  obtain rc w3 where w3: "iemnet__receiver_create fd (Some 0) False (w2\<lparr>uc_sender := sn\<rparr>) = (rc, w3)" by fastforce
  note f3 = wstepD [OF wstep_receiver_create [OF w3]] note c3 = uc_more_cong [OF f3(1)]
  define w4 where "w4 = w3\<lparr>uc_receiver := rc, uc_connectstate := 1\<rparr>"
  have "uc_connectstate w4 = 0 \<or> uc_hostname w4 \<noteq> None" using assms(4) c1 c2 c3 by (simp add: w4_def)
  then obtain w5 where w5: "udpclient_info junk w4 = Inr w5" "wstep w4 0 [] [] w5" by (rule udpclient_info_ok)
  have s4: "udpclient_step w w4"
    using assms f1 f2 f3 c1 c2 c3 w2(3) none by (auto simp: udpclient_step_defs w4_def split: option.splits)
  then have "udpclient_step w4 w5" using w5(2) by (intro udpclient_step_world) (simp_all add: udpclient_step_def)
  then have "udpclient_step w w5" by (rule udpclient_step_trans [OF s4])
  then show thesis
    using that [of w5] w2(1) w3 w5(1) uc_more_cong [OF wstepD(1) [OF w5(2)]] c1 c2 c3 assms(4) by (simp add: w4_def)
qed

lemma udoconnect_ok:
  assumes "udpclient_inv w" "mem_ok w" "uc_fd w < 0" "uc_hostname w = Some host"
  shows "\<exists>w'. udpclient_doconnect junk False w = Inr w' \<and> udpclient_step w w' \<and>
    (0 \<le> uc_fd w' \<longleftrightarrow> uc_connectstate w' = 1) \<and> uc_hostname w' = Some host \<and> uc_port w' = uc_port w"
proof -
  have none: "uc_sender w = None" "uc_connectstate w = 0" using assms(1,3) by (simp_all add: udpclient_inv_def)
  have failed: ?thesis if "udpclient_doconnect junk False w = Inr w'" "wstep w 0 op op w'" for w' op
    using that udpclient_step_world [OF assms(1,2) that(2)] uc_more_cong [OF wstepD(1) [OF that(2)]] assms(3,4) none by simp
  obtain hp w1 where w1: "gethostbyname host w = (hp, w1)" by fastforce
  show ?thesis
  proof (cases "a_host hp")
    case None
    have "wstep w 0 [] [] (emit (Iemnet_log IEMNET_ERROR ''bad host '%s'?'' [L_str host]) w1)"
      by (rule wstep_quiet [OF wstep_gethostbyname [OF w1] wstep_emit]) simp_all
    then show ?thesis by (rule failed [rotated]) (simp add: udpclient_doconnect_def w1 None none assms(4))
  next
    case (Some addr)
    obtain r w2 where w2: "sys_call ''socket'' [AF_INET, SOCK_DGRAM, 0] w1 = (r, w2)" by fastforce
    let ?fd = "a_ret r" and ?b = "enable_broadcast (a_ret r) ''setsockopt'' w2"
    note s2 = wstep_resolve_open [OF w1 w2]
    define w3 where "w3 = bind_sendport ?fd (uc_sendport ?b) ?b"
    have s3: "wstep w 0 (if 0 \<le> ?fd then [?fd] else []) [] w3"
      unfolding w3_def by (rule wstep_quiet [OF wstep_quiet [OF s2 wstep_broadcast] wstep_sendport])
    obtain c w4 where w4: "sys_call ''connect'' [?fd, uint (ntohl addr), uint (uc_port w3)] w3 = (c, w4)" by fastforce
    have s4: "wstep w 0 (if 0 \<le> ?fd then [?fd] else []) [] w4"
      by (rule wstep_quiet [OF s3 wstep_sys_call [OF _ _ w4]]) simp_all
    note run = udpclient_doconnect_def w1 w2 w3_def [symmetric] w4 Let_def
    consider (nosocket) "?fd < 0" | (fail) "0 \<le> ?fd" "a_ret c < 0" | (ok) "0 \<le> ?fd" "0 \<le> a_ret c" by linarith
    then show ?thesis
    proof cases
      case nosocket
      then have s: "wstep w 0 [] [] w2" using s2 by simp
      show ?thesis by (rule failed [OF _ wstep_report [OF s]]) (use none assms(4) Some nosocket in \<open>simp add: run\<close>)
    next
      case fail
      show ?thesis
        by (rule failed [OF _ wstep_report_close [OF s4 fail(1)]]) (use none assms(4) Some fail in \<open>simp add: run\<close>)
    next
      case ok
      then have "wstep w 0 [?fd] [] w4" using s4 by simp
      then show ?thesis
        by (rule udpclient_connected_ok [OF assms _ ok(1), where a = "ntohl addr" and junk = junk])
          (use none assms(4) Some ok in \<open>simp_all add: run\<close>)
    qed
  qed
qed

lemma udpclient_connect_ok:
  assumes "udpclient_inv w" "mem_ok w"
  shows "\<exists>w'. udpclient_connect junk hostname fportno fsndportno w = Inr w' \<and> udpclient_step w w' \<and>
    (0 \<le> uc_fd w' \<longleftrightarrow> uc_connectstate w' = 1) \<and> uc_hostname w' = Some hostname \<and> uc_port w' = c_ushort fportno"
proof -
  obtain w1 where w1: "(if uc_fd w \<ge> 0 then udpclient_disconnect w else Inr w) = Inr w1" "udpclient_step w w1" "uc_fd w1 < 0"
  proof (cases "uc_fd w \<ge> 0")
    case True
    show ?thesis by (rule udpclient_disconnect_ok [OF assms]) (use True that in auto)
  next
    case False
    then show ?thesis using that [of w] assms by (simp add: udpclient_step_def)
  qed
  let ?w2 = "w1\<lparr>uc_hostname := Some hostname, uc_port := c_ushort fportno,
    uc_sendport := (if fsndportno > 0 then c_ushort fsndportno else 0), uc_connectstate := 0\<rparr>"
  have s2: "udpclient_step w ?w2" using w1(2,3) by (auto simp: udpclient_step_defs split: option.splits)
  then have "udpclient_inv ?w2" "mem_ok ?w2" "uc_fd ?w2 < 0" "uc_hostname ?w2 = Some hostname"
    using w1(3) by (simp_all add: udpclient_step_def)
  from udoconnect_ok [OF this, of junk] obtain w3 where w3: "udpclient_doconnect junk False ?w2 = Inr w3" "udpclient_step ?w2 w3"
    "0 \<le> uc_fd w3 \<longleftrightarrow> uc_connectstate w3 = 1" "uc_hostname w3 = Some hostname" "uc_port w3 = c_ushort fportno"
    by auto
  have "udpclient_connect junk hostname fportno fsndportno w = Inr w3"
    unfolding udpclient_connect_def w1(1) res_bind_simps by (rule w3(1))
  then show ?thesis using udpclient_step_trans [OF s2 w3(2)] w3(3-5) by blast
qed

section \<open>Sending and receiving\<close>

lemma udpclient_send_ok:
  assumes "udpclient_inv w" "mem_ok w" "length argv < 2147483648"
  shows "\<exists>w'. udpclient_send gi argv w = Inr w' \<and> udpclient_step w w'"
proof -
  obtain c w1 where c: "iemnet__chunk_create_list gi (int (length argv)) argv w = Inr (c, w1)"
    "wstep w (if c = None then 0 else 2) [] [] w1" "case c of None \<Rightarrow> True | Some c \<Rightarrow> wf_chunk c"
    by (rule create_list_wstep [OF assms(2,3)])
  note f1 = wstepD [OF c(2)] note c1 = uc_more_cong [OF f1(1)]
  let ?send = "(case uc_sender w1 of None \<Rightarrow> Inr (0, w1)
     | Some sender \<Rightarrow> if c = None then Inr (0, w1)
         else res_bind (iemnet__sender_send sender c w1) (\<lambda>(sz, sender, w). Inr (sz, w\<lparr>uc_sender := Some sender\<rparr>)))"
  obtain n w2 where w2: "?send = Inr (n, w2)" "udpclient_inv w2" "mem_ok w2"
    "w_live w2 - udpclient_blocks w2 = w_live w1 - udpclient_blocks w1"
    "opened_fds (w_io w2) = opened_fds (w_io w)" "closed_fds (w_io w2) = closed_fds (w_io w)" "udpclient_fds w2 = udpclient_fds w"
  proof (cases "uc_sender w1 = None \<or> c = None")
    case True
    then have "?send = Inr (0, w1)" by (auto split: option.splits)
    then show ?thesis using that [of 0 w1] assms(1,2) f1 uc_cong [OF f1(1)] by simp
  next
    case False
    then obtain s c0 where s: "uc_sender w1 = Some s" "c = Some c0" by auto
    have inv: "sender_inv s" "wf_chunk c0" using assms(1) s c1 c(3) by (simp_all add: udpclient_inv_def)
    obtain n s' w2 where w2: "iemnet__sender_send s (Some c0) w1 = Inr (n, s', w2)" "sender_inv s'" "s_sockfd s' = s_sockfd s"
      "wstep w1 (sender_blocks (Some s') - sender_blocks (Some s)) [] [] w2"
      by (rule sender_send_wstep [OF inv(1) f1(3) [OF assms(2)] inv(2)])
    note f2 = wstepD [OF w2(4)] note c2 = uc_more_cong [OF f2(1)]
    have "?send = Inr (n, w2\<lparr>uc_sender := Some s'\<rparr>)" using s w2(1) by simp
    moreover have "udpclient_inv (w2\<lparr>uc_sender := Some s'\<rparr>)" using assms(1) s w2(2,3) c1 c2 by (auto simp: udpclient_inv_def)
    ultimately show ?thesis
      using that [of n "w2\<lparr>uc_sender := Some s'\<rparr>"] f1 f2 c1 c2 assms(2) s
      by (simp add: udpclient_blocks_def udpclient_fds_def)
  qed
  define w3 where "w3 = emit (Outlet_anything Statusout ''sendbuffersize'' [SETFLOAT n]) (iemnet__chunk_destroy c w2)"
  have s3: "wstep w2 (if c = None then 0 else - 2) [] [] w3"
    unfolding w3_def by (rule wstep_quiet [OF wstep_chunk_destroy [OF c(3)] wstep_emit]) simp_all
  note f3 = wstepD [OF s3] note c3 = uc_cong [OF f3(1)]
  have "udpclient_step w w3"
    using w2(2-) f1 f3 c3 uc_cong(2) [OF f1(1)] by (auto simp: udpclient_step_def fd_balance_def)
  moreover have "udpclient_send gi argv w = Inr w3" using c(1) w2(1) by (simp add: udpclient_send_def w3_def)
  ultimately show ?thesis by blast
qed

lemma udpclient_receive_data:
  assumes "udpclient_inv w" "mem_ok w" "wf_chunk c"
  shows "\<exists>w'. udpclient_receive_callback y (Some c) w = Inr w' \<and> udpclient_step w w' \<and>
    messages (w_io w') = messages (w_io w) @ [byte_atoms (chunk_bytes c)]"
proof -
  define w1 where "w1 = iemnet__addrout (Some Statusout) (Some Addrout) (uc_addr w) (uc_port w) w"
  have s1: "wstep w 0 [] [] w1" unfolding w1_def by (rule wstep_outputs)
  note f1 = wstepD [OF s1] note c1 = uc_more_cong [OF f1(1)]
  have m1: "messages (w_io w1) = messages (w_io w)" by (simp add: w1_def)
  have "case uc_floatlist w1 of None \<Rightarrow> True | Some fl \<Rightarrow> wf_floatlist fl"
    using assms(1) by (simp add: c1 udpclient_inv_def)
  then obtain fl w2 where w2: "iemnet__chunk2list (Some c) (uc_floatlist w1) w1 = Inr (Some fl, w2)"
    "world.more w2 = world.more w1" "w_io w2 = w_io w1" "mem_ok w2" "wf_floatlist fl" "floatlist_atoms fl = byte_atoms (chunk_bytes c)"
    "w_live w2 = w_live w1 + (if uc_floatlist w1 = None then 2 else 0)"
    by (rule chunk2list_ok [OF assms(3) f1(3) [OF assms(2)]])
  note c2 = uc_more_cong [OF w2(2)]
  let ?w3 = "emit (Outlet_list Msgout ''list'' (floatlist_atoms fl)) (w2\<lparr>uc_floatlist := Some fl\<rparr>)"
  note c3 = uc_more_cong [OF emit_sel(5), of "Outlet_list Msgout ''list'' (floatlist_atoms fl)" "w2\<lparr>uc_floatlist := Some fl\<rparr>"]
  have "udpclient_receive_callback y (Some c) w = Inr ?w3"
    using w2(1) by (simp add: udpclient_receive_callback_def w1_def [symmetric] Let_def outlet_floatlist_ok [OF w2(5)])
  moreover have "udpclient_step w ?w3"
    using assms(1) w2 f1 c1 c2 c3 by (auto simp: udpclient_step_defs split: option.splits)
  ultimately show ?thesis using w2 m1 by simp
qed

section \<open>The object keeps its promises\<close>

lemma udpclient_method_ok:
  assumes "udpclient_inv w" "mem_ok w" "udpclient_safe m w"
  shows "\<exists>w'. udpclient_method gi junk m w = Inr w' \<and> udpclient_step w w'"
proof (cases m)
  case (UC_connect hostname fportno fsndportno)
  then show ?thesis using udpclient_connect_ok [OF assms(1,2), of junk hostname fportno fsndportno] by auto
next
  case UC_disconnect
  then show ?thesis using udpclient_disconnect_ok [OF assms(1,2)] by (metis udpclient_method.simps(2))
next
  case (UC_send argv)
  then show ?thesis using udpclient_send_ok [OF assms(1,2), of argv gi] assms(3) by simp
next
  case UC_bang
  have "uc_connectstate w = 0 \<or> uc_hostname w \<noteq> None" using assms(1) by (auto simp: udpclient_inv_def)
  then obtain w' where "udpclient_info junk w = Inr w'" "wstep w 0 [] [] w'" by (rule udpclient_info_ok)
  then show ?thesis using UC_bang udpclient_step_world [OF assms(1,2)] by auto
next
  case (UC_receive c)
  show ?thesis
  proof (cases c)
    case None
    have run: "udpclient_method gi junk m w = (if uc_fd w \<ge> 0 then udpclient_disconnect w else Inr w)"
      by (simp add: UC_receive None udpclient_receive_callback_def)
    show ?thesis
      using run udpclient_disconnect_ok [OF assms(1,2)] udpclient_step_world [OF assms(1,2) wstep_refl] by metis
  next
    case (Some x)
    then show ?thesis using udpclient_receive_data [OF assms(1,2), of x "Some 0"] assms(3) UC_receive by auto
  qed
qed

lemma udpclient_env_step:
  assumes "udpclient_inv w" "mem_ok w" "udpclient_env w w'"
  shows "udpclient_step w w'"
proof -
  obtain s where "world.more w' = world.more (w\<lparr>uc_sender := s\<rparr>)" using assms(3) by (auto simp: udpclient_env_def)
  note c = uc_more_cong [OF this]
  have "thread_works (uc_sender w) w (uc_sender w') w'" using assms(3) by (simp add: udpclient_env_def)
  then show ?thesis using assms(1) c
    by (auto simp: thread_works_def udpclient_step_defs fd_silent_def split: option.splits)
qed

interpretation uc: pd_socket_object udpclient_inv udpclient_safe "udpclient_method gi junk" udpclient_env udpclient_blocks udpclient_fds
  for gi junk
proof (unfold_locales, goal_cases)
  case (1 w m)
  with udpclient_method_ok [of w m gi junk] show ?case by (auto simp: udpclient_step_def)
next
  case (2 w w')
  with udpclient_env_step [of w w'] show ?case by (auto simp: udpclient_step_def)
next
  case (3 w m w')
  with udpclient_method_ok [of w m gi junk] show ?case by (auto simp: udpclient_step_def)
next
  case (4 w w')
  with udpclient_env_step [of w w'] show ?case by (auto simp: udpclient_step_def)
qed

lemma udpclient_new_ok:
  assumes "mem_ok w"
  obtains w' where "udpclient_new w = Inr w'" "udpclient_inv w'" "udpclient_fds w' = []" "mem_ok w'"
    "w_io w' = w_io w" "w_live w' = w_live w + udpclient_blocks w'"
proof -
  obtain fl w1 where fl: "iemnet__floatlist_create 1024 w = Inr (Some fl, w1)" "mem_step w 2 w1" "wf_floatlist fl"
    using floatlist_create_result [of 1024 w] assms by auto
  then show thesis
    using that assms
    by (simp add: udpclient_new_def udpclient_inv_def udpclient_fds_def udpclient_blocks_def world.defs mem_step_def mem_ok_def)
qed

lemma udpclient_free_ok:
  assumes "udpclient_inv w" "mem_ok w" "fd_balance (w_io w) (udpclient_fds w)"
  shows "\<exists>w'. udpclient_free w = Inr w' \<and> w_live w' = w_live w - udpclient_blocks w \<and> fd_balance (w_io w') []"
proof -
  obtain w1 where w1: "udpclient_do_disconnect w = Inr (if uc_fd w < 0 then 0 else 1, w1)" "udpclient_step w w1"
    "uc_fd w1 < 0" "uc_sender w1 = None" "uc_receiver w1 = None" "uc_floatlist w1 = uc_floatlist w"
    by (rule udo_disconnect_ok [OF assms(1,2)])
  have "case uc_floatlist w1 of None \<Rightarrow> True | Some fl \<Rightarrow> wf_floatlist fl" using assms(1) w1(6) by (simp add: udpclient_inv_def)
  note d = floatlist_destroy_blocks [OF this, of w1]
  have "fd_balance (w_io w1) []" using w1(2,3) assms(3) by (simp add: udpclient_step_def udpclient_fds_def)
  then show ?thesis using w1 d by (simp add: udpclient_free_def udpclient_step_def udpclient_blocks_def)
qed

interpretation uc_life: pd_mortal_object udpclient_inv udpclient_safe "udpclient_method gi junk" udpclient_env
    udpclient_blocks udpclient_fds udpclient_free "\<lambda>_. True"
  for gi junk
  by unfold_locales (rule udpclient_free_ok)

end
