(* ===== verification/Udp_Receive.thy ===== *)
theory Udp_Receive
  imports Pd_Object
begin

text \<open>
  The object of \<^verbatim>\<open>udpreceive.c\<close>: a datagram socket bound to a port, whose datagrams leave the message
  outlet, each after the address of its sender. The port can be changed while the object lives.
\<close>

section \<open>The object\<close>

record t_udpreceive = world +
  ur_fd :: int
  ur_port :: int
  ur_receiver :: "t_iemnet_receiver option"
  ur_floatlist :: "t_iemnet_floatlist option"
  ur_reuseport :: int
  ur_reuseaddr :: int

definition udpreceive_read_callback :: "ptr \<Rightarrow> t_iemnet_chunk option \<Rightarrow> t_udpreceive \<Rightarrow> t_udpreceive res" where
  "udpreceive_read_callback y c w = (case c of
     Some c \<Rightarrow>
       (let w = iemnet__addrout (Some Statusout) (Some Addrout) (c_addr c) (c_port c) w in
        res_bind (iemnet__chunk2list (Some c) (ur_floatlist w) w) (\<lambda>(fl, w).
        let w = w\<lparr>ur_floatlist := fl\<rparr> in
        case fl of None \<Rightarrow> Inl NullDeref | Some fl \<Rightarrow> outlet_floatlist fl w))
   | None \<Rightarrow> Inr (emit (Iemnet_log IEMNET_VERBOSE ''nothing received'' []) w))"

text \<open>Giving up what is open before the object binds to another port.\<close>

definition setport_cleanup :: "t_udpreceive \<Rightarrow> t_udpreceive" where
  "setport_cleanup w =
     (let w = (if ur_receiver w \<noteq> None then (iemnet__receiver_destroy (ur_receiver w) False w)\<lparr>ur_receiver := None\<rparr> else w)
      in if ur_fd w \<ge> 0 then (iemnet__closesocket (ur_fd w) True w)\<lparr>ur_fd := -1, ur_port := -1\<rparr> else w)"

definition setport_options :: "int \<Rightarrow> t_udpreceive \<Rightarrow> t_udpreceive" where
  "setport_options sockfd w =
     (let w = (if ur_reuseaddr w \<noteq> 0
               then enable_option sockfd 1 2 ''unable to enable address re-using'' ''setsockopt:SO_REUSEADDR'' w else w)
      in if ur_reuseport w \<noteq> 0
         then enable_option sockfd 1 15 ''unable to enable port re-using'' ''setsockopt:SO_REUSEPORT'' w else w)"

definition udpreceive_setport :: "16 word \<Rightarrow> t_udpreceive \<Rightarrow> int \<times> t_udpreceive" where
  "udpreceive_setport portno w =
     (if ur_port w = uint portno
      then (1, emit (Iemnet_log IEMNET_VERBOSE ''skipping re-binding to port:%d'' [L_int (uint portno)]) w)
      else
        let w = setport_cleanup w;
            (r, w) = sys_call ''socket'' [AF_INET, SOCK_DGRAM, 0] w; sockfd = a_ret r
        in if sockfd < 0
           then (0, emit (Sys_sockerror ''socket'') (emit (Iemnet_log IEMNET_ERROR ''unable to create socket'' []) w))
        else
          let w = setport_options sockfd w;
              (b, w) = sys_call ''bind'' [sockfd, 0, uint portno] w
          in if a_ret b < 0
             then (0, iemnet__closesocket sockfd True (emit (Sys_sockerror ''bind'')
                       (emit (Iemnet_log IEMNET_ERROR ''unable to bind to socket'' []) w)))
          else
            let w = w\<lparr>ur_fd := sockfd, ur_port := uint portno\<rparr>;
                (g, w) = sys_call ''getsockname'' [sockfd] w;
                w = (if a_ret g = 0 then w\<lparr>ur_port := uint (name_port (a_name g))\<rparr> else w);
                (receiver, w) = iemnet__receiver_create sockfd (Some 0) False w
            in (1, w\<lparr>ur_receiver := receiver\<rparr>))"

definition udpreceive_port :: "getint \<Rightarrow> string \<Rightarrow> t_atom list \<Rightarrow> t_udpreceive \<Rightarrow> t_udpreceive" where
  "udpreceive_port gi s argv w = (case argv of
     [] \<Rightarrow> emit (Outlet_anything Statusout ''port'' [SETFLOAT (ur_port w)]) w
   | a # rest \<Rightarrow>
       if rest \<noteq> [] \<or> \<not> is_float a then emit (Iemnet_log IEMNET_ERROR ''usage: %s [<portnum>]'' [L_str s]) w
       else
         let (ok, w) = udpreceive_setport (word_of_int (gi a)) w;
             w = (if ok = 0 then emit (Outlet_anything Statusout ''port'' [SETFLOAT (-1)]) w else w)
         in emit (Outlet_anything Statusout ''port'' [SETFLOAT (ur_port w)]) w)"

definition udpreceive_optionI :: "getint \<Rightarrow> string \<Rightarrow> t_atom list \<Rightarrow> t_udpreceive \<Rightarrow> t_udpreceive" where
  "udpreceive_optionI gi s argv w =
     (if s \<noteq> ''reuseport'' \<and> s \<noteq> ''reuseaddr''
      then emit (Iemnet_log IEMNET_ERROR (''unknown option '%s'' @ [CHR 0x27]) [L_str s]) w
      else case argv of
        [] \<Rightarrow> emit (Outlet_anything Statusout s
                [SETFLOAT (if s = ''reuseaddr'' then ur_reuseaddr w else ur_reuseport w)]) w
      | a # rest \<Rightarrow>
          if rest = [] \<and> is_float a then
            let v = c_int_of_long (gi a) in
            if s = ''reuseaddr'' then w\<lparr>ur_reuseaddr := v\<rparr> else w\<lparr>ur_reuseport := v\<rparr>
          else emit (Iemnet_log IEMNET_ERROR ''usage: %s [<val>]'' [L_str s]) w)"

definition udpreceive_new :: "t_float \<Rightarrow> world \<Rightarrow> t_udpreceive res" where
  "udpreceive_new fportno w =
     res_bind (iemnet__floatlist_create 1024 w) (\<lambda>(fl, w).
       Inr (snd (udpreceive_setport (c_ushort fportno)
         (world.extend w \<lparr>ur_fd = -1, ur_port = -1, ur_receiver = None, ur_floatlist = fl,
           ur_reuseport = 0, ur_reuseaddr = 1\<rparr>))))"

definition udpreceive_free :: "t_udpreceive \<Rightarrow> t_udpreceive" where
  "udpreceive_free w =
     (let w = (if ur_receiver w \<noteq> None then iemnet__receiver_destroy (ur_receiver w) False w else w)\<lparr>ur_receiver := None\<rparr>;
          w = (if ur_fd w \<ge> 0 then iemnet__closesocket (ur_fd w) False w else w)\<lparr>ur_fd := -1\<rparr>
      in (if ur_floatlist w \<noteq> None then iemnet__floatlist_destroy (ur_floatlist w) w else w)\<lparr>ur_floatlist := None\<rparr>)"

text \<open>The methods of the class, and the callback of its receiver.\<close>

datatype udpreceive_msg =
    UR_port "t_atom list" | UR_reuseaddr "t_atom list" | UR_reuseport "t_atom list"
  | UR_receive "t_iemnet_chunk option"

fun udpreceive_method :: "getint \<Rightarrow> udpreceive_msg \<Rightarrow> t_udpreceive \<Rightarrow> t_udpreceive res" where
  "udpreceive_method gi (UR_port argv) w = Inr (udpreceive_port gi ''port'' argv w)"
| "udpreceive_method gi (UR_reuseaddr argv) w = Inr (udpreceive_optionI gi ''reuseaddr'' argv w)"
| "udpreceive_method gi (UR_reuseport argv) w = Inr (udpreceive_optionI gi ''reuseport'' argv w)"
| "udpreceive_method gi (UR_receive c) w = udpreceive_read_callback (Some 0) c w"

section \<open>Invariant\<close>

text \<open>The port is -1 exactly while there is no socket; otherwise it is a port number.\<close>

definition udpreceive_inv :: "t_udpreceive \<Rightarrow> bool" where
  "udpreceive_inv w \<longleftrightarrow>
     (if ur_fd w < 0 then ur_port w = -1 \<and> ur_receiver w = None else 0 \<le> ur_port w \<and> ur_port w < 65536) \<and>
     (case ur_floatlist w of None \<Rightarrow> True | Some fl \<Rightarrow> wf_floatlist fl)"

definition udpreceive_blocks :: "t_udpreceive \<Rightarrow> int" where
  "udpreceive_blocks w = receiver_blocks (ur_receiver w) + (if ur_floatlist w = None then 0 else 2)"

definition udpreceive_fds :: "t_udpreceive \<Rightarrow> int list" where
  "udpreceive_fds w = (if 0 \<le> ur_fd w then [ur_fd w] else [])"

fun udpreceive_safe :: "udpreceive_msg \<Rightarrow> t_udpreceive \<Rightarrow> bool" where
  "udpreceive_safe (UR_receive c) w \<longleftrightarrow> (case c of None \<Rightarrow> True | Some c \<Rightarrow> wf_chunk c)"
| "udpreceive_safe _ w \<longleftrightarrow> True"

lemma ur_more_cong:
  assumes "world.more w' = world.more (w :: t_udpreceive)"
  shows "ur_fd w' = ur_fd w" "ur_port w' = ur_port w" "ur_receiver w' = ur_receiver w"
    "ur_floatlist w' = ur_floatlist w" "ur_reuseport w' = ur_reuseport w" "ur_reuseaddr w' = ur_reuseaddr w"
  using assms by (cases w; cases w'; simp)+

lemma ur_cong:
  assumes "world.more w' = world.more (w :: t_udpreceive)"
  shows "udpreceive_inv w' = udpreceive_inv w" "udpreceive_blocks w' = udpreceive_blocks w"
    "udpreceive_fds w' = udpreceive_fds w"
  unfolding udpreceive_inv_def udpreceive_blocks_def udpreceive_fds_def ur_more_cong [OF assms] by (rule refl)+

lemma ur_sel [simp]:
  "mem_ok (w\<lparr>ur_fd := a\<rparr>) = mem_ok w" "mem_ok (w\<lparr>ur_port := b\<rparr>) = mem_ok w"
  "mem_ok (w\<lparr>ur_receiver := c\<rparr>) = mem_ok w" "mem_ok (w\<lparr>ur_floatlist := d\<rparr>) = mem_ok w"
  "mem_ok (w\<lparr>ur_reuseport := e\<rparr>) = mem_ok w" "mem_ok (w\<lparr>ur_reuseaddr := f\<rparr>) = mem_ok w"
  by (simp_all add: mem_ok_def)

definition udpreceive_step :: "t_udpreceive \<Rightarrow> t_udpreceive \<Rightarrow> bool" where
  "udpreceive_step w w' \<longleftrightarrow> udpreceive_inv w' \<and> mem_ok w' \<and>
     w_live w' - udpreceive_blocks w' = w_live w - udpreceive_blocks w \<and>
     (fd_balance (w_io w) (udpreceive_fds w) \<longrightarrow> fd_balance (w_io w') (udpreceive_fds w'))"

lemma udpreceive_step_trans: "udpreceive_step w w1 \<Longrightarrow> udpreceive_step w1 w2 \<Longrightarrow> udpreceive_step w w2"
  by (simp add: udpreceive_step_def)

lemmas udpreceive_step_defs =
  udpreceive_step_def udpreceive_inv_def udpreceive_blocks_def udpreceive_fds_def fd_balance_def

lemma udpreceive_step_world:
  assumes "udpreceive_inv w" "mem_ok w" "wstep w 0 op cl w'" "mset op = mset cl"
  shows "udpreceive_step w w'"
  using assms(1,2,4) wstepD [OF assms(3)] ur_cong [OF wstepD(1) [OF assms(3)]]
  by (auto simp: udpreceive_step_def fd_balance_def)

lemma udpreceive_step_after:
  assumes "udpreceive_step w w1" "wstep w1 0 op cl w2" "mset op = mset cl"
  shows "udpreceive_step w w2"
  by (rule udpreceive_step_trans [OF assms(1) udpreceive_step_world [OF _ _ assms(2,3)]])
    (use assms(1) in \<open>simp_all add: udpreceive_step_def\<close>)

section \<open>Binding to a port\<close>

lemma setport_cleanup_ok:
  assumes "udpreceive_inv w" "mem_ok w"
  shows "udpreceive_step w (setport_cleanup w)" "ur_fd (setport_cleanup w) < 0"
    "ur_floatlist (setport_cleanup w) = ur_floatlist w"
proof -
  define w1 where "w1 = (if ur_receiver w \<noteq> None then (iemnet__receiver_destroy (ur_receiver w) False w)\<lparr>ur_receiver := None\<rparr> else w)"
  note d = wstepD [OF wstep_receiver_destroy [of w "ur_receiver w"]]
  note cd = ur_more_cong [OF d(1)]
  have f1: "ur_fd w1 = ur_fd w" "ur_floatlist w1 = ur_floatlist w" "ur_receiver w1 = None" "ur_port w1 = ur_port w"
    "mem_ok w1" "w_live w1 = w_live w - receiver_blocks (ur_receiver w)"
    "opened_fds (w_io w1) = opened_fds (w_io w)" "closed_fds (w_io w1) = closed_fds (w_io w)"
    using assms(2) d cd by (auto simp: w1_def)
  have run: "setport_cleanup w = (if ur_fd w1 \<ge> 0 then (iemnet__closesocket (ur_fd w1) True w1)\<lparr>ur_fd := -1, ur_port := -1\<rparr> else w1)"
    unfolding setport_cleanup_def w1_def [symmetric] Let_def by (rule refl)
  have "udpreceive_step w (setport_cleanup w) \<and> ur_fd (setport_cleanup w) < 0 \<and>
    ur_floatlist (setport_cleanup w) = ur_floatlist w"
  proof (cases "ur_fd w < 0")
    case True
    then have "setport_cleanup w = w1" using f1 by (simp add: run)
    then show ?thesis using True f1 assms(1) by (simp add: udpreceive_step_defs)
  next
    case False
    define w2 where "w2 = iemnet__closesocket (ur_fd w1) True w1"
    have "wstep w1 0 [] [ur_fd w1] w2" unfolding w2_def using False f1 by (intro wstep_closesocket) simp
    note f2 = wstepD [OF this] note c2 = ur_more_cong [OF f2(1)]
    have "setport_cleanup w = w2\<lparr>ur_fd := -1, ur_port := -1\<rparr>"
      using False f1 by (simp add: run w2_def)
    then show ?thesis using False f1 f2 c2 assms(1) by (simp add: udpreceive_step_defs)
  qed
  then show "udpreceive_step w (setport_cleanup w)" "ur_fd (setport_cleanup w) < 0"
    "ur_floatlist (setport_cleanup w) = ur_floatlist w" by simp_all
qed

lemma wstep_setport_options: "wstep w 0 [] [] (setport_options fd w)"
proof -
  have "wstep w 0 [] [] (if b then enable_option fd l opt m e w else w)" for b l opt m e and w :: t_udpreceive
    by (simp add: wstep_option wstep_refl)
  then show ?thesis unfolding setport_options_def Let_def by (rule wstep_quiet) fact
qed

lemma setport_bound:
  assumes "udpreceive_inv w" "mem_ok w" "ur_fd w < 0" "wstep w 0 [fd] [] w1" "0 \<le> fd"
  obtains g w2 rec w3 where "sys_call ''getsockname'' [fd] (w1\<lparr>ur_fd := fd, ur_port := uint (portno :: 16 word)\<rparr>) = (g, w2)"
    "iemnet__receiver_create fd (Some 0) False
       (if a_ret g = 0 then w2\<lparr>ur_port := uint (name_port (a_name g))\<rparr> else w2) = (rec, w3)"
    "udpreceive_step w (w3\<lparr>ur_receiver := rec\<rparr>)" "ur_fd (w3\<lparr>ur_receiver := rec\<rparr>) = fd"
proof -
  note f1 = wstepD [OF assms(4)] note c1 = ur_more_cong [OF f1(1)]
  obtain g w2 where w2: "sys_call ''getsockname'' [fd] (w1\<lparr>ur_fd := fd, ur_port := uint portno\<rparr>) = (g, w2)" by fastforce
  note f2 = wstepD [OF wstep_sys_call [OF _ _ w2]] note c2 = ur_more_cong [OF f2(1)]
  let ?w2 = "if a_ret g = 0 then w2\<lparr>ur_port := uint (name_port (a_name g))\<rparr> else w2"
  have p: "0 \<le> uint p" "uint p < 65536" for p :: "16 word" using uint_lt2p [of p] by simp_all
  define v where "v = ?w2"
  have f3: "ur_fd v = fd" "0 \<le> ur_port v" "ur_port v < 65536" "ur_floatlist v = ur_floatlist w" "mem_ok v"
    "w_live v = w_live w" "opened_fds (w_io v) = opened_fds (w_io w) @ [fd]" "closed_fds (w_io v) = closed_fds (w_io w)"
    using c1 c2 f1 f2 assms(2) p by (auto simp: v_def)
  obtain rec w3 where w3: "iemnet__receiver_create fd (Some 0) False v = (rec, w3)" by fastforce
  note f4 = wstepD [OF wstep_receiver_create [OF w3]] note c4 = ur_more_cong [OF f4(1)]
  have "udpreceive_step w (w3\<lparr>ur_receiver := rec\<rparr>)"
    using f3 f4 c4 assms(1,3,5) by (auto simp: udpreceive_step_defs)
  then show thesis using that [OF w2 w3 [unfolded v_def]] c4 f3(1) by simp
qed

lemma setport_ok:
  assumes "udpreceive_inv w" "mem_ok w"
  obtains ok w' where "udpreceive_setport portno w = (ok, w')" "udpreceive_step w w'"
proof (cases "ur_port w = uint portno")
  case True
  have "wstep w 0 [] [] (emit (Iemnet_log IEMNET_VERBOSE ''skipping re-binding to port:%d'' [L_int (uint portno)]) w)"
    by (rule wstep_emit) simp_all
  from udpreceive_step_world [OF assms this] show ?thesis using that True by (simp add: udpreceive_setport_def)
next
  case False
  define w1 where "w1 = setport_cleanup w"
  have f1: "udpreceive_step w w1" "ur_fd w1 < 0" unfolding w1_def by (rule setport_cleanup_ok [OF assms])+
  then have inv1: "udpreceive_inv w1" "mem_ok w1" by (simp_all add: udpreceive_step_def)
  obtain r w2 where w2: "sys_call ''socket'' [AF_INET, SOCK_DGRAM, 0] w1 = (r, w2)" by fastforce
  let ?fd = "a_ret r"
  note s2 = wstep_open [OF _ w2, simplified]
  define w3 where "w3 = setport_options ?fd w2"
  obtain b w4 where w4: "sys_call ''bind'' [?fd, 0, uint portno] w3 = (b, w4)" by fastforce
  have s4: "wstep w1 0 (if 0 \<le> ?fd then [?fd] else []) [] w4"
    by (rule wstep_quiet [OF wstep_quiet [OF s2 wstep_setport_options] wstep_sys_call [OF _ _ w4 [unfolded w3_def]]]) simp_all
  note run = udpreceive_setport_def w1_def [symmetric] w2 w3_def [symmetric] w4 Let_def
  consider (nosocket) "?fd < 0" | (fail) "0 \<le> ?fd" "a_ret b < 0" | (ok) "0 \<le> ?fd" "0 \<le> a_ret b" by linarith
  then show thesis
  proof cases
    case nosocket
    then have "wstep w1 0 [] [] w2" using s2 by simp
    from udpreceive_step_after [OF f1(1) wstep_report [OF this]] show ?thesis using that False nosocket by (simp add: run)
  next
    case fail
    from udpreceive_step_after [OF f1(1) wstep_report_close [OF s4 fail(1)]] show ?thesis using that False fail by (simp add: run)
  next
    case ok
    then have "wstep w1 0 [?fd] [] w4" using s4 by simp
    then show ?thesis
      by (rule setport_bound [OF inv1 f1(2) _ ok(1), where portno = portno])
        (use False ok udpreceive_step_trans [OF f1(1)] that in \<open>simp add: run\<close>)
  qed
qed

section \<open>The other methods\<close>

lemma udpreceive_port_ok:
  assumes "udpreceive_inv w" "mem_ok w"
  shows "udpreceive_step w (udpreceive_port gi s argv w)"
proof -
  consider (query) "argv = []" | (usage) "argv \<noteq> []" "tl argv \<noteq> [] \<or> \<not> is_float (hd argv)"
    | (set) a where "argv = [a]" "is_float a"
    by (metis list.exhaust_sel)
  then show ?thesis
  proof cases
    case query
    then show ?thesis
      by (auto simp: udpreceive_port_def intro!: udpreceive_step_world [OF assms wstep_emit])
  next
    case usage
    then show ?thesis
      by (auto simp: udpreceive_port_def neq_Nil_conv intro!: udpreceive_step_world [OF assms wstep_emit])
  next
    case set
    obtain ok w1 where w1: "udpreceive_setport (word_of_int (gi a)) w = (ok, w1)" "udpreceive_step w w1"
      by (rule setport_ok [OF assms])
    define w2 where "w2 = (if ok = 0 then emit (Outlet_anything Statusout ''port'' [SETFLOAT (-1)]) w1 else w1)"
    have "wstep w1 0 [] [] w2" by (simp add: w2_def wstep_refl wstep_emit)
    then have s: "wstep w1 0 [] [] (emit (Outlet_anything Statusout ''port'' [SETFLOAT (ur_port w2)]) w2)"
      by (rule wstep_quiet [OF _ wstep_emit]) simp_all
    have "udpreceive_port gi s argv w = emit (Outlet_anything Statusout ''port'' [SETFLOAT (ur_port w2)]) w2"
      using set w1(1) by (simp add: udpreceive_port_def w2_def [symmetric])
    then show ?thesis using udpreceive_step_after [OF w1(2) s] by simp
  qed
qed

lemma udpreceive_optionI_ok:
  assumes "udpreceive_inv w" "mem_ok w"
  shows "udpreceive_step w (udpreceive_optionI gi s argv w)"
proof -
  have e: "udpreceive_step w (emit ev w)" if "opened_of ev = None" "closed_of ev = None" for ev
    using udpreceive_step_world [OF assms wstep_emit [OF that]] by simp
  have o: "udpreceive_step w (w\<lparr>ur_reuseport := v\<rparr>)" "udpreceive_step w (w\<lparr>ur_reuseaddr := v\<rparr>)" for v
    using assms by (simp_all add: udpreceive_step_defs)
  show ?thesis using e o by (simp add: udpreceive_optionI_def Let_def split: list.split)
qed

lemma udpreceive_receive_data:
  assumes "udpreceive_inv w" "mem_ok w" "wf_chunk c"
  shows "\<exists>w'. udpreceive_read_callback y (Some c) w = Inr w' \<and> udpreceive_step w w' \<and>
    messages (w_io w') = messages (w_io w) @ [byte_atoms (chunk_bytes c)]"
proof -
  define w1 where "w1 = iemnet__addrout (Some Statusout) (Some Addrout) (c_addr c) (c_port c) w"
  have s1: "wstep w 0 [] [] w1" unfolding w1_def by (rule wstep_outputs)
  note f1 = wstepD [OF s1] note c1 = ur_more_cong [OF f1(1)]
  have m1: "messages (w_io w1) = messages (w_io w)" by (simp add: w1_def)
  have "case ur_floatlist w1 of None \<Rightarrow> True | Some fl \<Rightarrow> wf_floatlist fl"
    using assms(1) by (simp add: c1 udpreceive_inv_def)
  then obtain fl w2 where w2: "iemnet__chunk2list (Some c) (ur_floatlist w1) w1 = Inr (Some fl, w2)"
    "world.more w2 = world.more w1" "w_io w2 = w_io w1" "mem_ok w2" "wf_floatlist fl" "floatlist_atoms fl = byte_atoms (chunk_bytes c)"
    "w_live w2 = w_live w1 + (if ur_floatlist w1 = None then 2 else 0)"
    by (rule chunk2list_ok [OF assms(3) f1(3) [OF assms(2)]])
  note c2 = ur_more_cong [OF w2(2)]
  let ?w3 = "emit (Outlet_list Msgout ''list'' (floatlist_atoms fl)) (w2\<lparr>ur_floatlist := Some fl\<rparr>)"
  note c3 = ur_more_cong [OF emit_sel(5), of "Outlet_list Msgout ''list'' (floatlist_atoms fl)" "w2\<lparr>ur_floatlist := Some fl\<rparr>"]
  have "udpreceive_read_callback y (Some c) w = Inr ?w3"
    using w2(1) by (simp add: udpreceive_read_callback_def w1_def [symmetric] Let_def outlet_floatlist_ok [OF w2(5)])
  moreover have "udpreceive_step w ?w3"
    using assms(1) w2 f1 c1 c2 c3 by (auto simp: udpreceive_step_defs)
  ultimately show ?thesis using w2 m1 by simp
qed

text \<open>From the wire to the outlet.\<close>

lemma udpreceive_poll_data:
  assumes "udpreceive_inv w" "mem_ok w" "w_sys w = r # rs" "recv_sane r" "0 < a_ret r"
  obtains w' where "pollfun udpreceive_read_callback rec w = Inr w'" "udpreceive_inv w'"
    "messages (w_io w') = messages (w_io w) @ [byte_atoms (a_data r)]"
proof -
  let ?c = "received_chunk r"
  obtain w1 where w1: "pollfun udpreceive_read_callback rec w =
      res_bind (udpreceive_read_callback (r_userdata rec) (Some ?c) w1) (\<lambda>w'. Inr (iemnet__chunk_destroy (Some ?c) w'))"
    "world.more w1 = world.more w" "mem_ok w1" "messages (w_io w1) = messages (w_io w)"
    using pollfun_result [OF assms(3,4,2), of udpreceive_read_callback rec, unfolded Let_def] assms(5) by auto
  have "udpreceive_inv w1" using ur_cong(1) [OF w1(2)] assms(1) by simp
  then obtain w2 where w2: "udpreceive_read_callback (r_userdata rec) (Some ?c) w1 = Inr w2"
    "udpreceive_step w1 w2" "messages (w_io w2) = messages (w_io w1) @ [byte_atoms (chunk_bytes ?c)]"
    using udpreceive_receive_data [OF _ w1(3) wf_received_chunk [OF assms(4,5)]] by blast
  have "udpreceive_inv (iemnet__chunk_destroy (Some ?c) w2)"
    using w2(2) ur_cong(1) [OF chunk_destroy_frame(1)] by (simp add: udpreceive_step_def)
  moreover have "chunk_bytes ?c = a_data r" by (simp add: received_chunk_def chunk_bytes_def)
  ultimately show thesis using that [of "iemnet__chunk_destroy (Some ?c) w2"] w1 w2 by simp
qed

section \<open>The object keeps its promises\<close>

lemma udpreceive_method_ok:
  assumes "udpreceive_inv w" "mem_ok w" "udpreceive_safe m w"
  shows "\<exists>w'. udpreceive_method gi m w = Inr w' \<and> udpreceive_step w w'"
proof (cases m)
  case (UR_receive c)
  show ?thesis
  proof (cases c)
    case None
    then show ?thesis using UR_receive udpreceive_step_world [OF assms(1,2) wstep_emit]
      by (simp add: udpreceive_read_callback_def)
  next
    case (Some x)
    then show ?thesis using udpreceive_receive_data [OF assms(1,2), of x "Some 0"] assms(3) UR_receive by auto
  qed
qed (use udpreceive_port_ok [OF assms(1,2)] udpreceive_optionI_ok [OF assms(1,2)] in simp_all)

interpretation ur: pd_socket_object udpreceive_inv udpreceive_safe "udpreceive_method gi" idle udpreceive_blocks udpreceive_fds
  for gi
proof (unfold_locales, goal_cases)
  case (1 w m)
  with udpreceive_method_ok [of w m gi] show ?case by (auto simp: udpreceive_step_def)
next
  case (2 w w')
  with udpreceive_step_world [OF 2(1,2) idle_wstep [OF 2(3)]] show ?case by (simp add: udpreceive_step_def)
next
  case (3 w m w')
  with udpreceive_method_ok [of w m gi] show ?case by (auto simp: udpreceive_step_def)
next
  case (4 w w')
  with udpreceive_step_world [OF 4(1,2) idle_wstep [OF 4(3)]] show ?case by (simp add: udpreceive_step_def)
qed

lemma udpreceive_new_ok:
  assumes "mem_ok w" "fd_balance (w_io w) []"
  obtains w' where "udpreceive_new fportno w = Inr w'" "udpreceive_inv w'" "mem_ok w'"
    "fd_balance (w_io w') (udpreceive_fds w')" "w_live w' - udpreceive_blocks w' = w_live w"
proof -
  obtain fl w1 where fl: "iemnet__floatlist_create 1024 w = Inr (Some fl, w1)" "mem_step w 2 w1" "wf_floatlist fl"
    using floatlist_create_result [of 1024 w] assms by auto
  define w2 where "w2 = world.extend w1 \<lparr>ur_fd = -1, ur_port = -1, ur_receiver = None, ur_floatlist = Some fl,
    ur_reuseport = 0, ur_reuseaddr = 1\<rparr>"
  have w2: "udpreceive_inv w2" "mem_ok w2" "fd_balance (w_io w2) (udpreceive_fds w2)" "w_live w2 - udpreceive_blocks w2 = w_live w"
    using fl assms by (simp_all add: w2_def udpreceive_inv_def udpreceive_fds_def udpreceive_blocks_def world.defs mem_step_def mem_ok_def)
  obtain ok w3 where "udpreceive_setport (c_ushort fportno) w2 = (ok, w3)" "udpreceive_step w2 w3"
    by (rule setport_ok [OF w2(1,2)])
  then show thesis using that [of w3] fl(1) w2 by (simp add: udpreceive_new_def w2_def [symmetric] udpreceive_step_def)
qed

lemma udpreceive_free_ok:
  assumes "udpreceive_inv w" "mem_ok w" "fd_balance (w_io w) (udpreceive_fds w)"
  shows "w_live (udpreceive_free w) = w_live w - udpreceive_blocks w" "fd_balance (w_io (udpreceive_free w)) []"
proof -
  define w1 where "w1 = (if ur_receiver w \<noteq> None then iemnet__receiver_destroy (ur_receiver w) False w else w)"
  have "wstep w (- receiver_blocks (ur_receiver w)) [] [] w1"
    by (simp add: w1_def wstep_receiver_destroy wstep_refl)
  note f1 = wstepD [OF this] note c1 = ur_more_cong [OF f1(1)]
  let ?w1 = "w1\<lparr>ur_receiver := None\<rparr>"
  define w2 where "w2 = (if ur_fd ?w1 \<ge> 0 then iemnet__closesocket (ur_fd ?w1) False ?w1 else ?w1)"
  have "wstep ?w1 0 [] (udpreceive_fds w) w2"
    using wstep_closesocket [of "ur_fd ?w1" ?w1 False] c1 by (simp add: w2_def wstep_refl udpreceive_fds_def)
  note f2 = wstepD [OF this] note c2 = ur_more_cong [OF f2(1)]
  let ?w2 = "w2\<lparr>ur_fd := -1\<rparr>"
  have "case ur_floatlist ?w2 of None \<Rightarrow> True | Some fl \<Rightarrow> wf_floatlist fl"
    using assms(1) c1 c2 by (simp add: udpreceive_inv_def)
  note d = floatlist_destroy_blocks [OF this, of ?w2]
  have run: "udpreceive_free w = (if ur_floatlist ?w2 \<noteq> None then iemnet__floatlist_destroy (ur_floatlist ?w2) ?w2 else ?w2)\<lparr>ur_floatlist := None\<rparr>"
    unfolding udpreceive_free_def w1_def [symmetric] Let_def w2_def [symmetric] by (rule refl)
  show "w_live (udpreceive_free w) = w_live w - udpreceive_blocks w"
    unfolding run using d f1 f2 c1 c2 by (simp add: udpreceive_blocks_def)
  show "fd_balance (w_io (udpreceive_free w)) []"
    unfolding run using d f1 f2 c1 c2 assms(3) by (simp add: fd_balance_def)
qed

interpretation ur_life: pd_mortal_object udpreceive_inv udpreceive_safe "udpreceive_method gi" idle udpreceive_blocks
    udpreceive_fds "\<lambda>w. Inr (udpreceive_free w)" "\<lambda>_. True"
  for gi
  by unfold_locales (use udpreceive_free_ok in auto)

end
