(* ===== verification/Tcp_Receive.thy ===== *)
theory Tcp_Receive
  imports Pd_Object
begin

text \<open>
  The object of \<^verbatim>\<open>tcpreceive.c\<close>: a listening socket and a table of up to 128 connections, whose bytes leave
  the message outlet. A connection is known to its receiver by the address of its cell in the table.
\<close>

section \<open>The object\<close>

abbreviation (input) MAX_CONNECTIONS :: nat where "MAX_CONNECTIONS \<equiv> 128"

text \<open>A cell is free if its socket is -1. The owner pointer is the object or NULL.\<close>

record t_tcpconnection =
  cn_addr :: "32 word"
  cn_port :: "16 word"
  cn_socket :: int
  cn_owner :: bool
  cn_receiver :: "t_iemnet_receiver option"

record t_tcpreceive = world +
  tr_connectsocket :: int
  tr_port :: int
  tr_serialize :: int
  tr_nconnections :: int
  tr_connection :: "t_tcpconnection list"
  tr_floatlist :: "t_iemnet_floatlist option"

text \<open>The first cell with the given socket.\<close>

fun first_cell :: "int \<Rightarrow> t_tcpconnection list \<Rightarrow> nat option" where
  "first_cell fd [] = None"
| "first_cell fd (c # cs) = (if cn_socket c = fd then Some 0 else map_option Suc (first_cell fd cs))"

definition tcpreceive_find_socket :: "int \<Rightarrow> t_tcpreceive \<Rightarrow> int" where
  "tcpreceive_find_socket fd w = (case first_cell fd (tr_connection w) of None \<Rightarrow> -1 | Some i \<Rightarrow> int i)"

definition tcpreceive_disconnect :: "int \<Rightarrow> t_tcpreceive \<Rightarrow> (int \<times> t_tcpreceive) res" where
  "tcpreceive_disconnect idx w =
     (if idx \<ge> 0 \<and> idx < int MAX_CONNECTIONS then
        res_bind (arr_get (tr_connection w) (nat idx)) (\<lambda>c.
          if cn_port c > 0 then
            let w = iemnet__receiver_destroy (cn_receiver c) False w;
                w = iemnet__closesocket (cn_socket c) True w;
                w = w\<lparr>tr_connection := (tr_connection w)[nat idx := c\<lparr>cn_receiver := None, cn_socket := -1, cn_addr := 0, cn_port := 0\<rparr>],
                      tr_nconnections := tr_nconnections w - 1\<rparr>
            in Inr (1, iemnet__numconnout (Some Statusout) (Some Connectout) (tr_nconnections w) w)
          else Inr (0, w))
      else Inr (0, w))"

definition tcpreceive_read_callback :: "ptr \<Rightarrow> t_iemnet_chunk option \<Rightarrow> t_tcpreceive \<Rightarrow> t_tcpreceive res" where
  "tcpreceive_read_callback w0 c w = (case w0 of None \<Rightarrow> Inr w
     | Some i \<Rightarrow> res_bind (arr_get (tr_connection w) i) (\<lambda>y.
         if \<not> cn_owner y then Inr w
         else
           let index = tcpreceive_find_socket (cn_socket y) w in
           if index \<ge> 0 then
             (case c of
               Some c \<Rightarrow> res_bind (iemnet__chunk2list (Some c) (tr_floatlist w) w) (\<lambda>(fl, w).
                 let w = w\<lparr>tr_floatlist := fl\<rparr> in
                 case fl of None \<Rightarrow> Inl NullDeref
                 | Some fl \<Rightarrow> iemnet__streamout (Some Msgout) (int (fl_argc fl))
                     (case fl_argv fl of None \<Rightarrow> [] | Some av \<Rightarrow> av) (tr_serialize w \<noteq> 0) w)
             | None \<Rightarrow> res_bind (tcpreceive_disconnect index w) (\<lambda>(_, w). Inr w))
           else Inr w))"

definition tcpreceive_addconnection ::
    "int \<Rightarrow> 32 word \<Rightarrow> 16 word \<Rightarrow> t_tcpreceive \<Rightarrow> int \<times> t_tcpreceive" where
  "tcpreceive_addconnection fd addr port w = (case first_cell (-1) (tr_connection w) of
     None \<Rightarrow> (0, w)
   | Some i \<Rightarrow>
       let (receiver, w) = iemnet__receiver_create fd (Some i) False w
       in (1, w\<lparr>tr_connection := (tr_connection w)[i :=
             \<lparr>cn_addr = addr, cn_port = port, cn_socket = fd, cn_owner = True, cn_receiver = receiver\<rparr>]\<rparr>))"

definition tcpreceive_connectpoll :: "int \<Rightarrow> t_tcpreceive \<Rightarrow> t_tcpreceive" where
  "tcpreceive_connectpoll fd w =
     (if fd \<noteq> tr_connectsocket w
      then emit (Iemnet_log IEMNET_FATAL ''callback received for socket:%d on listener for socket:%d''
             [L_int fd, L_int (tr_connectsocket w)]) w
      else
        let (r, w) = sys_call ''accept'' [fd] w; fd = a_ret r
        in if fd < 0
           then emit (Sys_sockerror ''accept'') (emit (Iemnet_log IEMNET_ERROR ''could not accept new connection'' []) w)
        else
          let addr = ntohl (sin_addr (a_from r)); port = ntohs (sin_port (a_from r));
              (added, w) = tcpreceive_addconnection fd addr port w
          in if added \<noteq> 0 then
               let w = w\<lparr>tr_nconnections := tr_nconnections w + 1\<rparr>;
                   w = iemnet__numconnout (Some Statusout) (Some Connectout) (tr_nconnections w) w
               in iemnet__addrout (Some Statusout) (Some Addrout) addr port w
             else iemnet__closesocket fd True (emit (Iemnet_log IEMNET_ERROR ''too many connections'' []) w))"

definition tcpreceive_disconnect_all :: "t_tcpreceive \<Rightarrow> t_tcpreceive res" where
  "tcpreceive_disconnect_all w =
     res_fold (\<lambda>i w. res_bind (tcpreceive_disconnect (int i) w) (\<lambda>(_, w). Inr w)) [0..<MAX_CONNECTIONS] w"

definition tcpreceive_disconnect_socket :: "int \<Rightarrow> t_tcpreceive \<Rightarrow> (int \<times> t_tcpreceive) res" where
  "tcpreceive_disconnect_socket fd w = (case first_cell fd (tr_connection w) of
     None \<Rightarrow> Inr (0, w) | Some i \<Rightarrow> tcpreceive_disconnect (int i) w)"

definition tcpreceive_port :: "t_float \<Rightarrow> t_tcpreceive \<Rightarrow> t_tcpreceive" where
  "tcpreceive_port fportno w =
     (let portno = c_int fportno; sockfd = tr_connectsocket w; ap = [SETFLOAT (-1)]
      in if tr_port w = portno then w
      else
        let w = (if sockfd \<ge> 0
                 then (iemnet__closesocket sockfd True (emit (Sys_rmpollfn sockfd) w))
                        \<lparr>tr_connectsocket := -1, tr_port := -1\<rparr>
                 else w);
            (r, w) = sys_call ''socket'' [AF_INET, SOCK_STREAM, 0] w; sockfd = a_ret r
        in if sockfd < 0
           then emit (Sys_sockerror ''socket'') (emit (Iemnet_log IEMNET_ERROR ''unable to create socket'' []) w)
        else
          let w = enable_option sockfd 1 2 ''unable to enable address re-using'' ''setsockopt:SO_REUSEADDR'' w;
              w = enable_option sockfd 1 15 ''unable to enable port re-using'' ''setsockopt:SO_REUSEPORT'' w;
              w = enable_option sockfd 6 1 ''unable to enable immediate sending'' ''setsockopt:TCP_NODELAY'' w;
              (b, w) = sys_call ''bind'' [sockfd, 0, uint (word_of_int portno :: 16 word)] w
          in if a_ret b < 0
             then emit (Outlet_anything Statusout ''port'' ap) (iemnet__closesocket sockfd True
                    (emit (Sys_sockerror ''bind'') (emit (Iemnet_log IEMNET_ERROR (''couldn'' @ [CHR 0x27] @ ''t bind socket'') []) w)))
          else
            let (l, w) = sys_call ''listen'' [sockfd, 5] w
            in if a_ret l < 0
               then emit (Outlet_anything Statusout ''port'' ap) (iemnet__closesocket sockfd True
                      (emit (Sys_sockerror ''listen'') (emit (Iemnet_log IEMNET_ERROR ''unable to listen on socket'' []) w)))
            else
              let w = emit (Sys_addpollfn sockfd) w;
                  w = w\<lparr>tr_connectsocket := sockfd, tr_port := portno\<rparr>;
                  (g, w) = sys_call ''getsockname'' [sockfd] w;
                  w = (if a_ret g = 0 then w\<lparr>tr_port := uint (name_port (a_name g))\<rparr> else w)
              in emit (Outlet_anything Statusout ''port'' [SETFLOAT (tr_port w)]) w)"

definition tcpreceive_serialize :: "t_float \<Rightarrow> t_tcpreceive \<Rightarrow> t_tcpreceive" where
  "tcpreceive_serialize doit w = w\<lparr>tr_serialize := c_int doit\<rparr>"

definition tcpreceive_free :: "t_tcpreceive \<Rightarrow> t_tcpreceive res" where
  "tcpreceive_free w =
     (let w = (if tr_connectsocket w \<ge> 0
               then iemnet__closesocket (tr_connectsocket w) True (emit (Sys_rmpollfn (tr_connectsocket w)) w)
               else w)
      in res_bind (tcpreceive_disconnect_all w) (\<lambda>w.
           Inr ((iemnet__floatlist_destroy (tr_floatlist w) w)\<lparr>tr_floatlist := None\<rparr>)))"

text \<open>The object is allocated with zeros: the owner and the receiver of every cell are NULL.\<close>

definition free_cell :: t_tcpconnection where
  "free_cell = \<lparr>cn_addr = 0, cn_port = 0, cn_socket = -1, cn_owner = False, cn_receiver = None\<rparr>"

definition tcpreceive_new :: "t_float \<Rightarrow> world \<Rightarrow> t_tcpreceive res" where
  "tcpreceive_new fportno w =
     (let portno = c_int fportno in
      res_bind (iemnet__floatlist_create 1024 w) (\<lambda>(fl, w).
        Inr (tcpreceive_port (t_float_of_int portno)
          (world.extend w \<lparr>tr_connectsocket = -1, tr_port = -1, tr_serialize = 1, tr_nconnections = 0,
            tr_connection = replicate MAX_CONNECTIONS free_cell, tr_floatlist = fl\<rparr>))))"

text \<open>The methods of the class, the poll function of the listening socket, and the callback of a receiver.\<close>

datatype tcpreceive_msg =
    TR_port t_float | TR_serialize t_float | TR_connectpoll int | TR_receive nat "t_iemnet_chunk option"

fun tcpreceive_method :: "tcpreceive_msg \<Rightarrow> t_tcpreceive \<Rightarrow> t_tcpreceive res" where
  "tcpreceive_method (TR_port fportno) w = Inr (tcpreceive_port fportno w)"
| "tcpreceive_method (TR_serialize doit) w = Inr (tcpreceive_serialize doit w)"
| "tcpreceive_method (TR_connectpoll fd) w = Inr (tcpreceive_connectpoll fd w)"
| "tcpreceive_method (TR_receive i c) w = tcpreceive_read_callback (Some i) c w"

section \<open>The table\<close>

definition wf_cell :: "t_tcpconnection \<Rightarrow> bool" where
  "wf_cell c \<longleftrightarrow> -1 \<le> cn_socket c \<and> (cn_socket c = -1 \<longrightarrow> cn_port c = 0 \<and> cn_receiver c = None)"

text \<open>The sockets of the cells in use, in the order of the table.\<close>

definition open_sockets :: "t_tcpconnection list \<Rightarrow> int list" where
  "open_sockets cs = filter (\<lambda>s. s \<noteq> -1) (map cn_socket cs)"

definition cells_blocks :: "t_tcpconnection list \<Rightarrow> int" where
  "cells_blocks cs = sum_list (map (\<lambda>c. receiver_blocks (cn_receiver c)) cs)"

lemma cells_simps [simp]:
  "open_sockets [] = []" "open_sockets (a @ b) = open_sockets a @ open_sockets b"
  "open_sockets (c # cs) = (if cn_socket c = -1 then [] else [cn_socket c]) @ open_sockets cs"
  "cells_blocks [] = 0" "cells_blocks (a @ b) = cells_blocks a + cells_blocks b"
  "cells_blocks (c # cs) = receiver_blocks (cn_receiver c) + cells_blocks cs"
  by (simp_all add: open_sockets_def cells_blocks_def)

lemma cells_split:
  assumes "i < length cs"
  obtains a b where "cs = a @ cs ! i # b" "\<forall>v. cs[i := v] = a @ v # b"
  using assms that [of "take i cs" "drop (Suc i) cs"]
  by (simp add: id_take_nth_drop upd_conv_take_nth_drop)

lemma first_cell_Some: "first_cell fd cs = Some i \<Longrightarrow> i < length cs \<and> cn_socket (cs ! i) = fd"
  by (induction cs arbitrary: i) (auto split: if_splits)

lemma first_cell_None: "first_cell fd cs = None \<longleftrightarrow> fd \<notin> cn_socket ` set cs"
  by (induction cs) auto

text \<open>Taking a free cell, and giving one back.\<close>

lemma cells_take:
  assumes "i < length cs" "cn_socket (cs ! i) = -1" "list_all wf_cell cs" "cn_socket c \<noteq> -1" "wf_cell c"
  shows "mset (open_sockets (cs[i := c])) = mset (open_sockets cs) + {#cn_socket c#}"
    "length (open_sockets (cs[i := c])) = Suc (length (open_sockets cs))"
    "cells_blocks (cs[i := c]) = cells_blocks cs + receiver_blocks (cn_receiver c)" "list_all wf_cell (cs[i := c])"
proof -
  obtain a b where ab: "cs = a @ cs ! i # b" "\<forall>v. cs[i := v] = a @ v # b" by (rule cells_split [OF assms(1)])
  define d where "d = cs ! i"
  have d: "cs = a @ d # b" "cs[i := c] = a @ c # b" using ab by (simp_all add: d_def [symmetric])
  have "wf_cell d" using assms(1,3) by (simp add: d_def list_all_length)
  then have s: "cn_socket d = -1" "cn_receiver d = None" using assms(2) by (simp_all add: wf_cell_def d_def)
  show "mset (open_sockets (cs[i := c])) = mset (open_sockets cs) + {#cn_socket c#}"
    "length (open_sockets (cs[i := c])) = Suc (length (open_sockets cs))"
    "cells_blocks (cs[i := c]) = cells_blocks cs + receiver_blocks (cn_receiver c)" "list_all wf_cell (cs[i := c])"
    unfolding d(2) using assms(3-5) s by (simp_all add: d(1))
qed

lemma cells_give:
  assumes "i < length cs" "cn_socket (cs ! i) \<noteq> -1" "list_all wf_cell cs" "cn_socket c = -1" "wf_cell c"
  shows "mset (open_sockets cs) = mset (open_sockets (cs[i := c])) + {#cn_socket (cs ! i)#}"
    "length (open_sockets cs) = Suc (length (open_sockets (cs[i := c])))"
    "cells_blocks (cs[i := c]) = cells_blocks cs - receiver_blocks (cn_receiver (cs ! i))" "list_all wf_cell (cs[i := c])"
proof -
  obtain a b where ab: "cs = a @ cs ! i # b" "\<forall>v. cs[i := v] = a @ v # b" by (rule cells_split [OF assms(1)])
  define d where "d = cs ! i"
  have d: "cs = a @ d # b" "cs[i := c] = a @ c # b" using ab by (simp_all add: d_def [symmetric])
  have s: "cn_receiver c = None" "cn_socket d \<noteq> -1" using assms(2,4,5) by (simp_all add: wf_cell_def d_def)
  show "mset (open_sockets cs) = mset (open_sockets (cs[i := c])) + {#cn_socket (cs ! i)#}"
    "length (open_sockets cs) = Suc (length (open_sockets (cs[i := c])))"
    "cells_blocks (cs[i := c]) = cells_blocks cs - receiver_blocks (cn_receiver (cs ! i))" "list_all wf_cell (cs[i := c])"
    unfolding d(2) d_def [symmetric] using assms(3-5) s by (simp_all add: d(1))
qed

section \<open>Invariant\<close>

definition tcpreceive_inv :: "t_tcpreceive \<Rightarrow> bool" where
  "tcpreceive_inv w \<longleftrightarrow> length (tr_connection w) = MAX_CONNECTIONS \<and> list_all wf_cell (tr_connection w) \<and>
     tr_nconnections w = int (length (open_sockets (tr_connection w))) \<and>
     (case tr_floatlist w of None \<Rightarrow> True | Some fl \<Rightarrow> wf_floatlist fl)"

definition tcpreceive_blocks :: "t_tcpreceive \<Rightarrow> int" where
  "tcpreceive_blocks w = cells_blocks (tr_connection w) + (if tr_floatlist w = None then 0 else 2)"

definition tcpreceive_fds :: "t_tcpreceive \<Rightarrow> int list" where
  "tcpreceive_fds w = (if 0 \<le> tr_connectsocket w then [tr_connectsocket w] else []) @ open_sockets (tr_connection w)"

fun tcpreceive_safe :: "tcpreceive_msg \<Rightarrow> t_tcpreceive \<Rightarrow> bool" where
  "tcpreceive_safe (TR_receive i c) w \<longleftrightarrow> i < MAX_CONNECTIONS \<and> (case c of None \<Rightarrow> True | Some c \<Rightarrow> wf_chunk c)"
| "tcpreceive_safe _ w \<longleftrightarrow> True"

lemma tr_more_cong:
  assumes "world.more w' = world.more (w :: t_tcpreceive)"
  shows "tr_connectsocket w' = tr_connectsocket w" "tr_port w' = tr_port w" "tr_serialize w' = tr_serialize w"
    "tr_nconnections w' = tr_nconnections w" "tr_connection w' = tr_connection w" "tr_floatlist w' = tr_floatlist w"
  using assms by (cases w; cases w'; simp)+

lemma tr_cong:
  assumes "world.more w' = world.more (w :: t_tcpreceive)"
  shows "tcpreceive_inv w' = tcpreceive_inv w" "tcpreceive_blocks w' = tcpreceive_blocks w"
    "tcpreceive_fds w' = tcpreceive_fds w"
  unfolding tcpreceive_inv_def tcpreceive_blocks_def tcpreceive_fds_def tr_more_cong [OF assms] by (rule refl)+

lemma tr_sel [simp]:
  "mem_ok (w\<lparr>tr_connectsocket := a\<rparr>) = mem_ok w" "mem_ok (w\<lparr>tr_port := b\<rparr>) = mem_ok w"
  "mem_ok (w\<lparr>tr_serialize := c\<rparr>) = mem_ok w" "mem_ok (w\<lparr>tr_nconnections := d\<rparr>) = mem_ok w"
  "mem_ok (w\<lparr>tr_connection := e\<rparr>) = mem_ok w" "mem_ok (w\<lparr>tr_floatlist := f\<rparr>) = mem_ok w"
  by (simp_all add: mem_ok_def)

text \<open>Sockets are conserved: opened before and closed since, or held afterwards.\<close>

definition tcpreceive_step :: "t_tcpreceive \<Rightarrow> t_tcpreceive \<Rightarrow> bool" where
  "tcpreceive_step w w' \<longleftrightarrow> tcpreceive_inv w' \<and> mem_ok w' \<and>
     w_live w' - tcpreceive_blocks w' = w_live w - tcpreceive_blocks w \<and>
     mset (opened_fds (w_io w')) + mset (closed_fds (w_io w)) + mset (tcpreceive_fds w) =
       mset (opened_fds (w_io w)) + mset (closed_fds (w_io w')) + mset (tcpreceive_fds w')"

lemma tcpreceive_step_refl: "tcpreceive_inv w \<Longrightarrow> mem_ok w \<Longrightarrow> tcpreceive_step w w"
  by (simp add: tcpreceive_step_def)

lemma tcpreceive_stepD:
  assumes "tcpreceive_step w w'"
  shows "tcpreceive_inv w'" "mem_ok w'" "w_live w' - tcpreceive_blocks w' = w_live w - tcpreceive_blocks w"
    "mset (opened_fds (w_io w')) + mset (closed_fds (w_io w)) + mset (tcpreceive_fds w) =
     mset (opened_fds (w_io w)) + mset (closed_fds (w_io w')) + mset (tcpreceive_fds w')"
  using assms by (simp_all only: tcpreceive_step_def)

lemma tcpreceive_step_trans:
  assumes "tcpreceive_step w w1" "tcpreceive_step w1 w2"
  shows "tcpreceive_step w w2"
proof -
  have e: "O2 + C0 + F0 = O0 + C2 + F2" if "O1 + C0 + F0 = O0 + C1 + F1" "O2 + C1 + F1 = O1 + C2 + F2"
    for O0 O1 O2 C0 C1 C2 F0 F1 F2 :: "int multiset"
  proof (rule multiset_eqI)
    fix x
    have "count O1 x + count C0 x + count F0 x = count O0 x + count C1 x + count F1 x"
      "count O2 x + count C1 x + count F1 x = count O1 x + count C2 x + count F2 x"
      using arg_cong [OF that(1), of "\<lambda>M. count M x"] arg_cong [OF that(2), of "\<lambda>M. count M x"] by simp_all
    then show "count (O2 + C0 + F0) x = count (O0 + C2 + F2) x" by simp
  qed
  note s = tcpreceive_stepD [OF assms(1)] tcpreceive_stepD [OF assms(2)]
  show ?thesis unfolding tcpreceive_step_def using s(3,5-7) e [OF s(4,8)] by simp
qed

lemma tcpreceive_step_balance:
  "tcpreceive_step w w' \<Longrightarrow> fd_balance (w_io w) (tcpreceive_fds w) \<Longrightarrow> fd_balance (w_io w') (tcpreceive_fds w')"
  by (simp add: tcpreceive_step_def fd_balance_def ac_simps)

lemmas tcpreceive_step_defs =
  tcpreceive_step_def tcpreceive_inv_def tcpreceive_blocks_def tcpreceive_fds_def

lemma tcpreceive_step_world:
  assumes "tcpreceive_inv w" "mem_ok w" "wstep w 0 op cl w'" "mset op = mset cl"
  shows "tcpreceive_step w w'"
  using assms(1,2,4) wstepD [OF assms(3)] tr_cong [OF wstepD(1) [OF assms(3)]]
  by (auto simp: tcpreceive_step_def fd_balance_def)

lemma tcpreceive_step_after:
  assumes "tcpreceive_step w w1" "wstep w1 0 op cl w2" "mset op = mset cl"
  shows "tcpreceive_step w w2"
  by (rule tcpreceive_step_trans [OF assms(1) tcpreceive_step_world [OF _ _ assms(2,3)]])
    (use assms(1) in \<open>simp_all add: tcpreceive_step_def\<close>)

section \<open>Disconnecting\<close>

abbreviation closed_cell :: "t_tcpconnection \<Rightarrow> t_tcpconnection" where
  "closed_cell c \<equiv> c\<lparr>cn_receiver := None, cn_socket := -1, cn_addr := 0, cn_port := 0\<rparr>"

lemma trdisconnect_ok:
  assumes "tcpreceive_inv w" "mem_ok w" "i < MAX_CONNECTIONS"
  shows "\<exists>r w'. tcpreceive_disconnect (int i) w = Inr (r, w') \<and> tcpreceive_step w w' \<and>
    tr_connectsocket w' = tr_connectsocket w \<and> tr_floatlist w' = tr_floatlist w \<and>
    tr_connection w' = (if 0 < cn_port (tr_connection w ! i)
      then (tr_connection w)[i := closed_cell (tr_connection w ! i)] else tr_connection w)"
proof (cases "0 < cn_port (tr_connection w ! i)")
  case False
  then show ?thesis using assms by (simp add: tcpreceive_disconnect_def tcpreceive_step_refl tcpreceive_inv_def)
next
  case True
  define c where "c = tr_connection w ! i"
  have i: "i < length (tr_connection w)" "list_all wf_cell (tr_connection w)" using assms by (simp_all add: tcpreceive_inv_def)
  then have wf: "wf_cell c" by (simp add: c_def list_all_length)
  with True have fd: "cn_socket c \<noteq> -1" "0 \<le> cn_socket c" by (auto simp: wf_cell_def c_def)
  have "wf_cell (closed_cell c)" by (simp add: wf_cell_def)
  note give = cells_give [OF i(1) fd(1) [unfolded c_def] i(2) _ this, folded c_def, simplified]
  define w1 where "w1 = iemnet__closesocket (cn_socket c) True (iemnet__receiver_destroy (cn_receiver c) False w)"
  have s1: "wstep w (- receiver_blocks (cn_receiver c)) [] [cn_socket c] w1"
    unfolding w1_def using wstep_close [OF wstep_receiver_destroy fd(2)] by fastforce
  note f1 = wstepD [OF s1] note c1 = tr_more_cong [OF f1(1)]
  define w2 where "w2 = w1\<lparr>tr_connection := (tr_connection w1)[i := closed_cell c], tr_nconnections := tr_nconnections w1 - 1\<rparr>"
  define w3 where "w3 = iemnet__numconnout (Some Statusout) (Some Connectout) (tr_nconnections w2) w2"
  have run: "tcpreceive_disconnect (int i) w = Inr (1, w3)"
    using assms(3) i True c_def [symmetric] c1
    by (simp add: tcpreceive_disconnect_def w3_def w2_def w1_def Let_def)
  have s2: "tcpreceive_step w w2"
    using assms(1,2) f1 c1 give i by (simp add: tcpreceive_step_defs w2_def)
  have s3: "wstep w2 0 [] [] w3" unfolding w3_def by (rule wstep_outputs)
  note c3 = tr_more_cong [OF wstepD(1) [OF s3]]
  show ?thesis
    using run tcpreceive_step_after [OF s2 s3] c1 c3 True by (simp add: c_def [symmetric] w2_def)
qed

text \<open>Every cell with a port number becomes free.\<close>

lemma disconnect_range:
  assumes "tcpreceive_inv w" "mem_ok w" "n \<le> MAX_CONNECTIONS"
  shows "\<exists>w'. res_fold (\<lambda>i w. res_bind (tcpreceive_disconnect (int i) w) (\<lambda>(_, w). Inr w)) [0..<n] w = Inr w' \<and>
    tcpreceive_step w w' \<and> tr_connectsocket w' = tr_connectsocket w \<and> tr_floatlist w' = tr_floatlist w \<and>
    tr_connection w' = map (\<lambda>i. let c = tr_connection w ! i in if i < n \<and> 0 < cn_port c then closed_cell c else c)
      [0..<MAX_CONNECTIONS]"
  using assms(3)
proof (induction n)
  case 0
  have "tr_connection w = map (\<lambda>i. tr_connection w ! i) [0..<MAX_CONNECTIONS]"
    using assms(1) map_nth [of "tr_connection w"] by (simp add: tcpreceive_inv_def)
  then show ?case using tcpreceive_step_refl [OF assms(1,2)] by (simp add: Let_def)
next
  case (Suc n)
  then obtain w1 where w1: "res_fold (\<lambda>i w. res_bind (tcpreceive_disconnect (int i) w) (\<lambda>(_, w). Inr w)) [0..<n] w = Inr w1"
    "tcpreceive_step w w1" "tr_connectsocket w1 = tr_connectsocket w" "tr_floatlist w1 = tr_floatlist w"
    "tr_connection w1 = map (\<lambda>i. let c = tr_connection w ! i in if i < n \<and> 0 < cn_port c then closed_cell c else c)
      [0..<MAX_CONNECTIONS]"
    by auto
  have n: "n < MAX_CONNECTIONS" "tr_connection w1 ! n = tr_connection w ! n" using Suc.prems w1(5) by (simp_all add: Let_def del: upt_rec_numeral)
  obtain r w2 where w2: "tcpreceive_disconnect (int n) w1 = Inr (r, w2)" "tcpreceive_step w1 w2"
    "tr_connectsocket w2 = tr_connectsocket w1" "tr_floatlist w2 = tr_floatlist w1"
    "tr_connection w2 = (if 0 < cn_port (tr_connection w1 ! n)
      then (tr_connection w1)[n := closed_cell (tr_connection w1 ! n)] else tr_connection w1)"
    using trdisconnect_ok [of w1 n] w1(2) n(1) by (auto simp: tcpreceive_step_def)
  have "tr_connection w2 = map (\<lambda>i. let c = tr_connection w ! i in if i < Suc n \<and> 0 < cn_port c then closed_cell c else c)
      [0..<MAX_CONNECTIONS]"
    unfolding w2(5) n(2) using n(1) w1(5)
    by (intro nth_equalityI) (auto simp: nth_list_update Let_def less_Suc_eq simp del: upt_rec_numeral split: if_splits)
  moreover have "res_fold (\<lambda>i w. res_bind (tcpreceive_disconnect (int i) w) (\<lambda>(_, w). Inr w)) [0..<Suc n] w = Inr w2"
    using w1(1) w2(1) by (simp add: res_fold_append)
  ultimately show ?case using w1(2-4) w2(2-4) tcpreceive_step_trans by fastforce
qed

section \<open>Accepting connections\<close>

lemma addconnection_ok:
  assumes "tcpreceive_inv w" "mem_ok w" "0 \<le> fd"
  obtains (added) w' where "tcpreceive_addconnection fd addr port w = (1, w')"
      "tcpreceive_inv (w'\<lparr>tr_nconnections := tr_nconnections w' + 1\<rparr>)" "mem_ok w'"
      "w_live w' - tcpreceive_blocks w' = w_live w - tcpreceive_blocks w" "opened_fds (w_io w') = opened_fds (w_io w)"
      "closed_fds (w_io w') = closed_fds (w_io w)" "mset (tcpreceive_fds w') = mset (tcpreceive_fds w) + {#fd#}"
      "-1 \<in> cn_socket ` set (tr_connection w)" "tr_nconnections w' = tr_nconnections w"
      "tr_connectsocket w' = tr_connectsocket w"
  | (full) "tcpreceive_addconnection fd addr port w = (0, w)" "-1 \<notin> cn_socket ` set (tr_connection w)"
proof (cases "first_cell (-1) (tr_connection w)")
  case None
  then show ?thesis using full by (simp add: tcpreceive_addconnection_def first_cell_None [symmetric])
next
  case (Some i)
  note i = first_cell_Some [OF Some]
  have wf: "list_all wf_cell (tr_connection w)" using assms(1) by (simp add: tcpreceive_inv_def)
  obtain rc w1 where w1: "iemnet__receiver_create fd (Some i) False w = (rc, w1)" by fastforce
  note f1 = wstepD [OF wstep_receiver_create [OF w1]] note c1 = tr_more_cong [OF f1(1)]
  let ?c = "\<lparr>cn_addr = addr, cn_port = port, cn_socket = fd, cn_owner = True, cn_receiver = rc\<rparr>"
  have "cn_socket ?c \<noteq> -1" "wf_cell ?c" using assms(3) by (simp_all add: wf_cell_def)
  note take = cells_take [OF conjunct1 [OF i] conjunct2 [OF i] wf this]
  define w2 where "w2 = w1\<lparr>tr_connection := (tr_connection w1)[i := ?c]\<rparr>"
  have run: "tcpreceive_addconnection fd addr port w = (1, w2)"
    using Some w1 by (simp add: tcpreceive_addconnection_def w2_def)
  show ?thesis
  proof (rule added [OF run])
    show "tcpreceive_inv (w2\<lparr>tr_nconnections := tr_nconnections w2 + 1\<rparr>)"
      using assms(1) c1 take by (simp add: tcpreceive_inv_def w2_def)
    show "w_live w2 - tcpreceive_blocks w2 = w_live w - tcpreceive_blocks w"
      using f1 c1 take by (simp add: tcpreceive_blocks_def w2_def)
    show "mset (tcpreceive_fds w2) = mset (tcpreceive_fds w) + {#fd#}"
      using c1 take by (simp add: tcpreceive_fds_def w2_def)
    show "-1 \<in> cn_socket ` set (tr_connection w)" using Some first_cell_None [of "-1" "tr_connection w"] by simp
  qed (use assms(2) f1 c1 in \<open>simp_all add: w2_def\<close>)
qed

lemma connectpoll_ok:
  assumes "tcpreceive_inv w" "mem_ok w"
  shows "tcpreceive_step w (tcpreceive_connectpoll fd w)"
proof (cases "fd = tr_connectsocket w")
  case False
  then show ?thesis
    by (auto simp: tcpreceive_connectpoll_def intro!: tcpreceive_step_world [OF assms wstep_emit])
next
  case True
  obtain r w1 where w1: "sys_call ''accept'' [fd] w = (r, w1)" by fastforce
  note s1 = wstep_open [OF _ w1, simplified] note c1 = tr_cong [OF wstepD(1) [OF s1]]
  have ok1: "tcpreceive_inv w1" "mem_ok w1" using assms c1 wstepD [OF s1] by simp_all
  let ?addr = "ntohl (sin_addr (a_from r))" and ?port = "ntohs (sin_port (a_from r))"
  note run = tcpreceive_connectpoll_def True w1 [unfolded True] Let_def
  show ?thesis
  proof (cases "a_ret r < 0")
    case neg: True
    then have "wstep w 0 [] [] w1" using s1 by simp
    then have "wstep w 0 [] [] (emit (Sys_sockerror ''accept'') (emit (Iemnet_log IEMNET_ERROR ''could not accept new connection'' []) w1))"
      by (rule wstep_quiet [OF wstep_quiet [OF _ wstep_emit] wstep_emit]) simp_all
    then show ?thesis using tcpreceive_step_world [OF assms] neg by (simp add: run)
  next
    case False
    then have s1': "wstep w 0 [a_ret r] [] w1" using s1 by simp
    note f1 = wstepD [OF this]
    have fd: "0 \<le> a_ret r" using False by simp
    show ?thesis
    proof (rule addconnection_ok [OF ok1 fd, of ?addr ?port])
      assume full: "tcpreceive_addconnection (a_ret r) ?addr ?port w1 = (0, w1)"
      have "wstep w 0 [a_ret r] [] (emit (Iemnet_log IEMNET_ERROR ''too many connections'' []) w1)"
        by (rule wstep_quiet [OF s1' wstep_emit]) simp_all
      from tcpreceive_step_world [OF assms wstep_close [OF this fd, of True]] show ?thesis
        using full False by (simp add: run)
    next
      fix w2 assume w2: "tcpreceive_addconnection (a_ret r) ?addr ?port w1 = (1, w2)"
        "tcpreceive_inv (w2\<lparr>tr_nconnections := tr_nconnections w2 + 1\<rparr>)" "mem_ok w2"
        "w_live w2 - tcpreceive_blocks w2 = w_live w1 - tcpreceive_blocks w1" "opened_fds (w_io w2) = opened_fds (w_io w1)"
        "closed_fds (w_io w2) = closed_fds (w_io w1)" "mset (tcpreceive_fds w2) = mset (tcpreceive_fds w1) + {#a_ret r#}"
      let ?w2 = "w2\<lparr>tr_nconnections := tr_nconnections w2 + 1\<rparr>"
      have "tcpreceive_blocks ?w2 = tcpreceive_blocks w2" "tcpreceive_fds ?w2 = tcpreceive_fds w2"
        by (simp_all add: tcpreceive_blocks_def tcpreceive_fds_def)
      then have s2: "tcpreceive_step w ?w2" using w2 f1 c1 by (simp add: tcpreceive_step_def fd_balance_def)
      have "wstep ?w2 0 [] [] (iemnet__addrout (Some Statusout) (Some Addrout) ?addr ?port
          (iemnet__numconnout (Some Statusout) (Some Connectout) (tr_nconnections ?w2) ?w2))"
        by (rule wstep_quiet [OF wstep_outputs(2) wstep_outputs(3)])
      from tcpreceive_step_after [OF s2 this] show ?thesis using w2(1) False by (simp add: run)
    qed
  qed
qed

section \<open>The other handlers\<close>

lemma trport_cleanup:
  assumes "tcpreceive_inv w" "mem_ok w"
  shows "let w1 = (if tr_connectsocket w \<ge> 0
      then (iemnet__closesocket (tr_connectsocket w) True (emit (Sys_rmpollfn (tr_connectsocket w)) w))
        \<lparr>tr_connectsocket := -1, tr_port := -1\<rparr>
      else w)
    in tcpreceive_step w w1 \<and> tr_connectsocket w1 < 0"
proof (cases "tr_connectsocket w \<ge> 0")
  case True
  have "wstep w 0 [] [tr_connectsocket w] (iemnet__closesocket (tr_connectsocket w) True (emit (Sys_rmpollfn (tr_connectsocket w)) w))"
    using wstep_close [OF wstep_emit True, of "Sys_rmpollfn (tr_connectsocket w)" w True] by simp
  note f = wstepD [OF this] note c = tr_more_cong [OF f(1)]
  show ?thesis using assms f c True by (simp add: tcpreceive_step_defs)
next
  case False
  then show ?thesis using tcpreceive_step_refl [OF assms] by simp
qed

lemma trport_listening:
  assumes "tcpreceive_inv w" "mem_ok w" "tr_connectsocket w < 0" "wstep w 0 [fd] [] w1" "0 \<le> fd"
  obtains g w2 where "sys_call ''getsockname'' [fd]
      ((emit (Sys_addpollfn fd) w1)\<lparr>tr_connectsocket := fd, tr_port := portno\<rparr>) = (g, w2)"
    "let w3 = (if a_ret g = 0 then w2\<lparr>tr_port := uint (name_port (a_name g))\<rparr> else w2)
     in tcpreceive_step w (emit (Outlet_anything Statusout ''port'' [SETFLOAT (tr_port w3)]) w3)"
proof -
  have "wstep w 0 [fd] [] (emit (Sys_addpollfn fd) w1)" by (rule wstep_quiet [OF assms(4) wstep_emit]) simp_all
  note f1 = wstepD [OF this] note c1 = tr_more_cong [OF f1(1)]
  obtain g w2 where w2: "sys_call ''getsockname'' [fd]
    ((emit (Sys_addpollfn fd) w1)\<lparr>tr_connectsocket := fd, tr_port := portno\<rparr>) = (g, w2)" by fastforce
  note f2 = wstepD [OF wstep_sys_call [OF _ _ w2]] note c2 = tr_more_cong [OF f2(1)]
  define w3 where "w3 = (if a_ret g = 0 then w2\<lparr>tr_port := uint (name_port (a_name g))\<rparr> else w2)"
  have "tr_connectsocket w3 = fd" "tr_connection w3 = tr_connection w" "tr_floatlist w3 = tr_floatlist w"
    "tr_nconnections w3 = tr_nconnections w" "mem_ok w3"
    "w_live w3 = w_live w" "opened_fds (w_io w3) = opened_fds (w_io w) @ [fd]" "closed_fds (w_io w3) = closed_fds (w_io w)"
    using c1 c2 f1 f2 assms(2) by (auto simp: w3_def)
  then have "tcpreceive_step w w3" using assms(1,3,5) by (auto simp: tcpreceive_step_defs)
  then have "tcpreceive_step w (emit (Outlet_anything Statusout ''port'' [SETFLOAT (tr_port w3)]) w3)"
    by (rule tcpreceive_step_after [OF _ wstep_emit]) simp_all
  then show thesis using that [OF w2] by (simp add: w3_def [symmetric])
qed

lemma trport_ok:
  assumes "tcpreceive_inv w" "mem_ok w"
  shows "tcpreceive_step w (tcpreceive_port fportno w)"
proof (cases "tr_port w = c_int fportno")
  case True
  then show ?thesis using tcpreceive_step_refl [OF assms] by (simp add: tcpreceive_port_def)
next
  case False
  define w1 where "w1 = (if tr_connectsocket w \<ge> 0
    then (iemnet__closesocket (tr_connectsocket w) True (emit (Sys_rmpollfn (tr_connectsocket w)) w))\<lparr>tr_connectsocket := -1, tr_port := -1\<rparr>
    else w)"
  have f1: "tcpreceive_step w w1" "tr_connectsocket w1 < 0" using trport_cleanup [OF assms] by (simp_all add: w1_def Let_def)
  obtain r w2 where w2: "sys_call ''socket'' [AF_INET, SOCK_STREAM, 0] w1 = (r, w2)" by fastforce
  let ?fd = "a_ret r"
  define w3 where "w3 = enable_option ?fd 6 1 ''unable to enable immediate sending'' ''setsockopt:TCP_NODELAY''
    (enable_option ?fd 1 15 ''unable to enable port re-using'' ''setsockopt:SO_REUSEPORT''
    (enable_option ?fd 1 2 ''unable to enable address re-using'' ''setsockopt:SO_REUSEADDR'' w2))"
  obtain b w4 where w4: "sys_call ''bind'' [?fd, 0, uint (word_of_int (c_int fportno) :: 16 word)] w3 = (b, w4)" by fastforce
  obtain l w5 where w5: "sys_call ''listen'' [?fd, 5] w4 = (l, w5)" by fastforce
  note s = wstep_listen [OF w2 w3_def w4 w5]
  note run = tcpreceive_port_def w1_def [symmetric] w2 w3_def [symmetric] w4 w5 Let_def
  have failed: "tcpreceive_step w (emit (Outlet_anything Statusout ''port'' [SETFLOAT (-1)]) (iemnet__closesocket ?fd True
      (emit (Sys_sockerror e) (emit (Iemnet_log IEMNET_ERROR m []) v))))"
    if "0 \<le> ?fd" "wstep w1 0 (if 0 \<le> ?fd then [?fd] else []) [] v" for e m v
    by (rule tcpreceive_step_after [OF f1(1) wstep_quiet [OF wstep_report_close [OF that(2,1)] wstep_emit]]) simp_all
  consider (nosocket) "?fd < 0" | (nobind) "0 \<le> ?fd" "a_ret b < 0" | (nolisten) "0 \<le> ?fd" "0 \<le> a_ret b" "a_ret l < 0"
    | (ok) "0 \<le> ?fd" "0 \<le> a_ret b" "0 \<le> a_ret l" by linarith
  then show ?thesis
  proof cases
    case nosocket
    then have "wstep w1 0 [] [] w2" using s(1) by simp
    from tcpreceive_step_after [OF f1(1) wstep_report [OF this]] show ?thesis using False nosocket by (simp add: run)
  next
    case nobind
    then show ?thesis using False failed [OF nobind(1) s(2)] by (simp add: run)
  next
    case nolisten
    then show ?thesis using False failed [OF nolisten(1) s(3)] by (simp add: run)
  next
    case ok
    then have ls: "wstep w1 0 [?fd] [] w5" using s(3) by simp
    show ?thesis
      by (rule trport_listening [OF tcpreceive_stepD(1,2) [OF f1(1)] f1(2) ls ok(1), where portno = "c_int fportno"])
        (use False ok tcpreceive_step_trans [OF f1(1)] in \<open>simp add: run\<close>)
  qed
qed

text \<open>What arrives on a connection leaves the message outlet.\<close>

lemma tcpreceive_receive_data:
  assumes "tcpreceive_inv w" "mem_ok w" "wf_chunk c" "i < MAX_CONNECTIONS" "cn_owner (tr_connection w ! i)"
  shows "\<exists>w'. tcpreceive_read_callback (Some i) (Some c) w = Inr w' \<and> tcpreceive_step w w' \<and>
    messages (w_io w') = messages (w_io w) @ stream_messages (tr_serialize w \<noteq> 0) (byte_atoms (chunk_bytes c)) \<and>
    w_sys w' = w_sys w \<and> tr_connection w' = tr_connection w \<and> tr_serialize w' = tr_serialize w"
proof -
  have i: "i < length (tr_connection w)" using assms(1,4) by (simp add: tcpreceive_inv_def)
  have "first_cell (cn_socket (tr_connection w ! i)) (tr_connection w) \<noteq> None" using i by (simp add: first_cell_None)
  then have idx: "tcpreceive_find_socket (cn_socket (tr_connection w ! i)) w \<ge> 0" by (auto simp: tcpreceive_find_socket_def)
  have "case tr_floatlist w of None \<Rightarrow> True | Some fl \<Rightarrow> wf_floatlist fl" using assms(1) by (simp add: tcpreceive_inv_def)
  then obtain fl w2 where w2: "iemnet__chunk2list (Some c) (tr_floatlist w) w = Inr (Some fl, w2)"
    "world.more w2 = world.more w" "w_io w2 = w_io w" "mem_ok w2" "wf_floatlist fl" "floatlist_atoms fl = byte_atoms (chunk_bytes c)"
    "w_live w2 = w_live w + (if tr_floatlist w = None then 2 else 0)" "w_sys w2 = w_sys w"
    by (rule chunk2list_ok [OF assms(3) assms(2)])
  note c2 = tr_more_cong [OF w2(2)]
  define w3 where "w3 = w2\<lparr>tr_floatlist := Some fl\<rparr>"
  have s3: "tcpreceive_step w w3" using assms(1) w2 c2 by (auto simp: w3_def tcpreceive_step_defs)
  obtain w4 where w4: "iemnet__streamout (Some Msgout) (int (fl_argc fl)) (case fl_argv fl of None \<Rightarrow> [] | Some av \<Rightarrow> av)
      (tr_serialize w \<noteq> 0) w3 = Inr w4" "world.more w4 = world.more w3" "w_malloc w4 = w_malloc w3"
    "messages (w_io w4) = messages (w_io w3) @ stream_messages (tr_serialize w \<noteq> 0) (floatlist_atoms fl)"
    "opened_fds (w_io w4) = opened_fds (w_io w3)" "closed_fds (w_io w4) = closed_fds (w_io w3)" "w_live w4 = w_live w3" "w_sys w4 = w_sys w3"
    by (rule streamout_fds [OF w2(5)])
  then have "wstep w3 0 [] [] w4" by (simp add: wstep_def mem_ok_def)
  from tcpreceive_step_after [OF s3 this] have "tcpreceive_step w w4" by simp
  moreover have "tcpreceive_read_callback (Some i) (Some c) w = Inr w4"
    using i idx assms(5) w2(1) w4(1) c2 by (simp add: tcpreceive_read_callback_def Let_def w3_def)
  moreover have "tr_connection w4 = tr_connection w \<and> tr_serialize w4 = tr_serialize w"
    using c2 tr_more_cong [OF w4(2)] by (simp add: w3_def)
  ultimately show ?thesis using w2 w4(4,8) by (simp add: w3_def)
qed

lemma tcpreceive_poll_data:
  assumes "tcpreceive_inv w" "mem_ok w" "w_sys w = r # rs" "recv_sane r" "0 < a_ret r"
    and "r_userdata rec = Some i" "i < MAX_CONNECTIONS" "cn_owner (tr_connection w ! i)"
  obtains w' where "pollfun tcpreceive_read_callback rec w = Inr w'" "tcpreceive_inv w'" "mem_ok w'" "w_sys w' = rs"
    "tr_connection w' = tr_connection w" "tr_serialize w' = tr_serialize w"
    "messages (w_io w') = messages (w_io w) @ stream_messages (tr_serialize w \<noteq> 0) (byte_atoms (a_data r))"
proof -
  let ?c = "received_chunk r"
  obtain w1 where w1: "pollfun tcpreceive_read_callback rec w =
      res_bind (tcpreceive_read_callback (r_userdata rec) (Some ?c) w1) (\<lambda>w'. Inr (iemnet__chunk_destroy (Some ?c) w'))"
    "world.more w1 = world.more w" "mem_ok w1" "messages (w_io w1) = messages (w_io w)" "w_sys w1 = rs"
    using pollfun_result [OF assms(3,4,2), of tcpreceive_read_callback rec, unfolded Let_def] assms(5) by auto
  note c1 = tr_more_cong [OF w1(2)]
  have "tcpreceive_inv w1" "cn_owner (tr_connection w1 ! i)" using tr_cong(1) [OF w1(2)] assms(1,8) c1 by simp_all
  then obtain w2 where w2: "tcpreceive_read_callback (Some i) (Some ?c) w1 = Inr w2" "tcpreceive_step w1 w2"
    "messages (w_io w2) = messages (w_io w1) @ stream_messages (tr_serialize w1 \<noteq> 0) (byte_atoms (chunk_bytes ?c))"
    "w_sys w2 = w_sys w1" "tr_connection w2 = tr_connection w1" "tr_serialize w2 = tr_serialize w1"
    using tcpreceive_receive_data [OF _ w1(3) wf_received_chunk [OF assms(4,5)] assms(7)] by blast
  define w' where "w' = iemnet__chunk_destroy (Some ?c) w2"
  have f: "world.more w' = world.more w2" "w_sys w' = w_sys w2" "w_io w' = w_io w2" "mem_ok w' = mem_ok w2"
    by (simp_all add: w'_def iemnet__chunk_destroy_def)
  note c' = tr_more_cong [OF f(1)] tr_cong [OF f(1)]
  have "chunk_bytes ?c = a_data r" by (simp add: received_chunk_def chunk_bytes_def)
  then show thesis
    using that [of w'] w1 w2 c1 f c' assms(6) tcpreceive_stepD [OF w2(2)] by (simp add: w'_def)
qed

text \<open>Bytes that arrive in several pieces leave the outlet in order.\<close>

lemma tcpreceive_polls_data:
  assumes "tcpreceive_inv w" "mem_ok w" "w_sys w = rs @ rest" "\<forall>r\<in>set rs. recv_sane r \<and> 0 < a_ret r"
    and "r_userdata rec = Some i" "i < MAX_CONNECTIONS" "cn_owner (tr_connection w ! i)"
  shows "\<exists>w'. res_fold (\<lambda>_. pollfun tcpreceive_read_callback rec) rs w = Inr w' \<and> tcpreceive_inv w' \<and> mem_ok w' \<and>
    messages (w_io w') = messages (w_io w) @ concat (map (\<lambda>r. stream_messages (tr_serialize w \<noteq> 0) (byte_atoms (a_data r))) rs)"
  using assms(1-4,7)
proof (induction rs arbitrary: w)
  case (Cons r rs)
  have r: "w_sys w = r # (rs @ rest)" "recv_sane r" "0 < a_ret r" using Cons.prems by simp_all
  obtain w1 where w1: "pollfun tcpreceive_read_callback rec w = Inr w1" "tcpreceive_inv w1" "mem_ok w1" "w_sys w1 = rs @ rest"
    "tr_connection w1 = tr_connection w" "tr_serialize w1 = tr_serialize w"
    "messages (w_io w1) = messages (w_io w) @ stream_messages (tr_serialize w \<noteq> 0) (byte_atoms (a_data r))"
    by (rule tcpreceive_poll_data [OF Cons.prems(1,2) r assms(5,6) Cons.prems(5)])
  with Cons.IH [of w1] Cons.prems(4,5) show ?case by auto
qed simp


lemma trcallback_ok:
  assumes "tcpreceive_inv w" "mem_ok w" "i < MAX_CONNECTIONS" "case c of None \<Rightarrow> True | Some c \<Rightarrow> wf_chunk c"
  shows "\<exists>w'. tcpreceive_read_callback (Some i) c w = Inr w' \<and> tcpreceive_step w w'"
proof (cases "cn_owner (tr_connection w ! i)")
  case False
  then show ?thesis using assms tcpreceive_step_refl [OF assms(1,2)] by (simp add: tcpreceive_read_callback_def tcpreceive_inv_def)
next
  case owner: True
  show ?thesis
  proof (cases c)
    case (Some x)
    then show ?thesis using tcpreceive_receive_data [OF assms(1,2) _ assms(3) owner, of x] assms(4) by auto
  next
    case None
    have i: "i < length (tr_connection w)" "length (tr_connection w) = MAX_CONNECTIONS" using assms(1,3) by (simp_all add: tcpreceive_inv_def)
    then obtain k where k: "first_cell (cn_socket (tr_connection w ! i)) (tr_connection w) = Some k"
      using first_cell_None [of "cn_socket (tr_connection w ! i)" "tr_connection w"] by fastforce
    then have "k < MAX_CONNECTIONS" using first_cell_Some [OF k] i by simp
    from trdisconnect_ok [OF assms(1,2) this] show ?thesis
      using k i owner None by (auto simp: tcpreceive_read_callback_def tcpreceive_find_socket_def)
  qed
qed

section \<open>The object keeps its promises\<close>

lemma tcpreceive_method_ok:
  assumes "tcpreceive_inv w" "mem_ok w" "tcpreceive_safe m w"
  shows "\<exists>w'. tcpreceive_method m w = Inr w' \<and> tcpreceive_step w w'"
proof (cases m)
  case (TR_serialize doit)
  have "tcpreceive_step w (tcpreceive_serialize doit w)"
    using assms by (simp add: tcpreceive_serialize_def tcpreceive_step_defs)
  then show ?thesis using TR_serialize by simp
qed (use trport_ok [OF assms(1,2)] connectpoll_ok [OF assms(1,2)] trcallback_ok [OF assms(1,2)] assms(3) in simp_all)

interpretation tr: pd_socket_object tcpreceive_inv tcpreceive_safe tcpreceive_method idle tcpreceive_blocks tcpreceive_fds
proof (unfold_locales, goal_cases)
  case (1 w m)
  with tcpreceive_method_ok [of w m] show ?case by (auto simp: tcpreceive_step_def)
next
  case (2 w w')
  with tcpreceive_step_world [OF 2(1,2) idle_wstep [OF 2(3)]] show ?case by (simp add: tcpreceive_step_def)
next
  case (3 w m w')
  with tcpreceive_method_ok [of w m] tcpreceive_step_balance [of w w'] show ?case by auto
next
  case (4 w w')
  with tcpreceive_step_balance [OF tcpreceive_step_world [OF 4(1,2) idle_wstep [OF 4(3)]]] show ?case by simp
qed

lemma tcpreceive_new_ok:
  assumes "mem_ok w" "fd_balance (w_io w) []"
  obtains w' where "tcpreceive_new fportno w = Inr w'" "tcpreceive_inv w'" "mem_ok w'"
    "fd_balance (w_io w') (tcpreceive_fds w')" "w_live w' - tcpreceive_blocks w' = w_live w"
proof -
  obtain fl w1 where fl: "iemnet__floatlist_create 1024 w = Inr (Some fl, w1)" "mem_step w 2 w1" "wf_floatlist fl"
    using floatlist_create_result [of 1024 w] assms by auto
  define w2 where "w2 = world.extend w1 \<lparr>tr_connectsocket = -1, tr_port = -1, tr_serialize = 1, tr_nconnections = 0,
    tr_connection = replicate MAX_CONNECTIONS free_cell, tr_floatlist = Some fl\<rparr>"
  have cells: "open_sockets (replicate n free_cell) = []" "cells_blocks (replicate n free_cell) = 0" for n
    by (induction n) (simp_all add: free_cell_def)
  have "wf_cell free_cell" by (simp add: wf_cell_def free_cell_def)
  then have w2: "tcpreceive_inv w2" "mem_ok w2" "fd_balance (w_io w2) (tcpreceive_fds w2)" "w_live w2 - tcpreceive_blocks w2 = w_live w"
    using fl assms
    by (simp_all add: w2_def tcpreceive_inv_def tcpreceive_fds_def tcpreceive_blocks_def world.defs mem_step_def mem_ok_def
      cells list_all_length)
  note s = trport_ok [OF w2(1,2), of "t_float_of_int (c_int fportno)"]
  show thesis
    using that [of "tcpreceive_port (t_float_of_int (c_int fportno)) w2"] fl(1) w2(4) tcpreceive_step_balance [OF s w2(3)]
      tcpreceive_stepD(1-3) [OF s]
    by (simp add: tcpreceive_new_def w2_def [symmetric])
qed

text \<open>Connections are told from free cells by their port, which is not 0.\<close>

definition ports_known :: "t_tcpreceive \<Rightarrow> bool" where
  "ports_known w \<longleftrightarrow> list_all (\<lambda>c. cn_socket c \<noteq> -1 \<longrightarrow> cn_port c \<noteq> 0) (tr_connection w)"

lemma disconnect_all_ok:
  assumes "tcpreceive_inv w" "mem_ok w" "ports_known w"
  obtains w' where "tcpreceive_disconnect_all w = Inr w'" "tcpreceive_step w w'" "tr_connectsocket w' = tr_connectsocket w"
    "tr_floatlist w' = tr_floatlist w" "open_sockets (tr_connection w') = []" "cells_blocks (tr_connection w') = 0"
proof -
  obtain w' where w': "tcpreceive_disconnect_all w = Inr w'" "tcpreceive_step w w'"
    "tr_connectsocket w' = tr_connectsocket w" "tr_floatlist w' = tr_floatlist w"
    "tr_connection w' = map (\<lambda>i. let c = tr_connection w ! i in if i < MAX_CONNECTIONS \<and> 0 < cn_port c then closed_cell c else c)
      [0..<MAX_CONNECTIONS]"
    using disconnect_range [OF assms(1,2) order_refl] unfolding tcpreceive_disconnect_all_def by blast
  have "cn_socket c = -1" if "c \<in> set (tr_connection w')" for c
    using that assms(1,3) unfolding w'(5)
    by (auto simp: tcpreceive_inv_def ports_known_def list_all_length Let_def word_gt_0 simp del: upt_rec_numeral)
  moreover have "wf_cell c" if "c \<in> set (tr_connection w')" for c
    using that w'(2) by (simp add: tcpreceive_step_def tcpreceive_inv_def list_all_iff)
  ultimately have "open_sockets (tr_connection w') = []" "map (\<lambda>c. receiver_blocks (cn_receiver c)) (tr_connection w') = map (\<lambda>_. 0) (tr_connection w')"
    by (auto simp: open_sockets_def wf_cell_def)
  then have "open_sockets (tr_connection w') = []" "cells_blocks (tr_connection w') = 0" by (simp_all only: cells_blocks_def sum_list_0)
  then show thesis by (rule that [OF w'(1-4)])
qed

lemma tcpreceive_free_ok:
  assumes "tcpreceive_inv w" "mem_ok w" "fd_balance (w_io w) (tcpreceive_fds w)" "ports_known w"
  shows "\<exists>w'. tcpreceive_free w = Inr w' \<and> w_live w' = w_live w - tcpreceive_blocks w \<and> fd_balance (w_io w') []"
proof -
  let ?fd = "tr_connectsocket w"
  define w1 where "w1 = (if ?fd \<ge> 0 then iemnet__closesocket ?fd True (emit (Sys_rmpollfn ?fd) w) else w)"
  have "wstep w 0 [] (if ?fd \<ge> 0 then [?fd] else []) w1"
    using wstep_close [OF wstep_emit, of "Sys_rmpollfn ?fd" ?fd w True] by (simp add: w1_def wstep_refl)
  note f1 = wstepD [OF this] note c1 = tr_more_cong [OF f1(1)]
  have ok1: "tcpreceive_inv w1" "mem_ok w1" "ports_known w1"
    using assms tr_cong [OF f1(1)] f1(3) c1(5) by (simp_all add: ports_known_def)
  obtain w2 where w2: "tcpreceive_disconnect_all w1 = Inr w2" "tcpreceive_step w1 w2" "tr_connectsocket w2 = tr_connectsocket w1"
    "tr_floatlist w2 = tr_floatlist w1" "open_sockets (tr_connection w2) = []" "cells_blocks (tr_connection w2) = 0"
    by (rule disconnect_all_ok [OF ok1])
  have "case tr_floatlist w2 of None \<Rightarrow> True | Some fl \<Rightarrow> wf_floatlist fl"
    using w2(2) by (simp add: tcpreceive_step_def tcpreceive_inv_def)
  note d = floatlist_destroy_blocks [OF this, of w2]
  have "tcpreceive_free w = Inr ((iemnet__floatlist_destroy (tr_floatlist w2) w2)\<lparr>tr_floatlist := None\<rparr>)"
    using w2(1) by (simp add: tcpreceive_free_def w1_def [symmetric])
  moreover have "w_live w2 = w_live w - cells_blocks (tr_connection w)"
    using w2(2,4,6) f1 c1 by (simp add: tcpreceive_step_def tcpreceive_blocks_def)
  moreover have "mset (opened_fds (w_io w2)) = mset (closed_fds (w_io w2))"
    using w2(2,3,5) f1 c1 assms(3)
    by (cases "?fd \<ge> 0") (simp_all add: tcpreceive_step_def tcpreceive_fds_def fd_balance_def)
  ultimately show ?thesis using d w2(4) c1 by (simp add: tcpreceive_blocks_def fd_balance_def)
qed

interpretation tr_life: pd_mortal_object tcpreceive_inv tcpreceive_safe tcpreceive_method idle tcpreceive_blocks tcpreceive_fds
    tcpreceive_free ports_known
  by unfold_locales (rule tcpreceive_free_ok)

end
