(* ===== verification/Object_Properties.thy ===== *)
theory Object_Properties
  imports Tcp_Send Udp_Send Tcp_Client Udp_Client Udp_Receive Tcp_Receive
begin

text \<open>
  What the single-purpose objects guarantee: over whole lives they neither get stuck nor leave memory or sockets
  behind, with the exceptions shown here; and what they do with the data they are given.
\<close>

section \<open>Sample worlds\<close>

definition sample_host :: sysret where
  "sample_host = (sys_ret 0)\<lparr>a_host := Some (In_addr 127 0 0 1)\<rparr>"

definition sample_world :: "sysret list \<Rightarrow> world" where
  "sample_world rs = world0\<lparr>w_sys := rs\<rparr>"

lemma sample_world_facts [simp]:
  "mem_ok (sample_world rs)" "w_io (sample_world rs) = []" "w_live (sample_world rs) = 0"
  by (simp_all add: sample_world_def mem_ok_def world0_def)

lemma fd_balance_Nil [simp]: "fd_balance [] []"
  by (simp add: fd_balance_def)

text \<open>A test on the result of a run that ends well.\<close>

definition ends_with :: "('w \<Rightarrow> bool) \<Rightarrow> 'w res \<Rightarrow> bool" where
  "ends_with P r = (case r of Inl _ \<Rightarrow> False | Inr w \<Rightarrow> P w)"

lemma ends_withE: "ends_with P r \<Longrightarrow> (\<And>w. r = Inr w \<Longrightarrow> P w \<Longrightarrow> thesis) \<Longrightarrow> thesis"
  by (auto simp: ends_with_def split: sum.splits)

section \<open>Whole lives\<close>

text \<open>
  C23. The life of a \<^verbatim>\<open>tcpsend\<close> object: whatever messages it was sent and whatever its send thread and the operating system
  did, it can handle the next message, and deleting it gives back exactly the memory it took and closes
  every socket it opened, once.
\<close>

theorem tcpsend_life:
  assumes "mem_ok w0" "fd_balance (w_io w0) []"
    and "obj_run tcpsend_safe (tcpsend_method gi) tcpsend_env (tcpsend_new w0) w"
  shows "(\<forall>m. tcpsend_safe m w \<longrightarrow> (\<exists>w'. tcpsend_method gi m w = Inr w')) \<and>
    (\<exists>w'. tcpsend_free w = Inr w' \<and> w_live w' = w_live w0 \<and> mset (opened_fds (w_io w')) = mset (closed_fds (w_io w')))"
  using ts_life.life [OF assms(3), of "w_live w0"] assms(1,2) by (simp add: tcpsend_new_ok)

definition tcpsend_sample :: "t_tcpsend res" where
  "tcpsend_sample = res_fold (tcpsend_method sample_getint) [TS_connect ''localhost'' 3000, TS_send [A_FLOAT 104, A_FLOAT 105]]
     (tcpsend_new (sample_world [sample_host, sys_ret 5, sys_ret 0, sys_ret 0, sys_ret 0]))"

theorem tcpsend_life_witness:
  "\<exists>w w'. tcpsend_sample = Inr w \<and> ts_fd w = 5 \<and> w_live w = 5 \<and> tcpsend_free w = Inr w' \<and> w_live w' = 0 \<and>
    mset (opened_fds (w_io w')) = mset (closed_fds (w_io w'))"
proof -
  have "ends_with (\<lambda>w. ts_fd w = 5 \<and> w_live w = 5) tcpsend_sample" by code_simp
  then obtain w where w: "tcpsend_sample = Inr w" "ts_fd w = 5" "w_live w = 5" by (rule ends_withE) simp
  have "obj_run tcpsend_safe (tcpsend_method sample_getint) tcpsend_env
      (tcpsend_new (sample_world [sample_host, sys_ret 5, sys_ret 0, sys_ret 0, sys_ret 0])) w"
    by (rule obj_run_messages [OF w(1) [unfolded tcpsend_sample_def] _ run_start]) auto
  from tcpsend_life [OF _ _ this] w show ?thesis by auto
qed

text \<open>
  C24. The life of a \<^verbatim>\<open>udpsend\<close> object: as long as a connection whose send thread could not be started is not connected
  again, it handles every message, whatever its send thread and the operating system do; deleting it gives back
  all its memory and closes every socket it opened, once.
\<close>

theorem udpsend_life:
  assumes "mem_ok w0" "fd_balance (w_io w0) []"
    and "obj_run udpsend_safe (udpsend_method gi) udpsend_env (udpsend_new w0) w"
  shows "(\<forall>m. udpsend_safe m w \<longrightarrow> (\<exists>w'. udpsend_method gi m w = Inr w')) \<and>
    (\<exists>w'. udpsend_free w = Inr w' \<and> w_live w' = w_live w0 \<and> mset (opened_fds (w_io w')) = mset (closed_fds (w_io w')))"
  using us_life.life [OF assms(3), of "w_live w0"] assms(1,2) by (simp add: udpsend_new_ok)

definition udpsend_connected :: "t_udpsend res" where
  "udpsend_connected = udpsend_connect ''localhost'' 3000
     (udpsend_new (sample_world [sample_host, sys_ret 5, sys_ret 0, sys_ret 0, sys_ret 0]))"

theorem udpsend_life_witness:
  "\<exists>w w'. udpsend_connected = Inr w \<and> us_fd w = 5 \<and> w_live w = 2 \<and> udpsend_free w = Inr w' \<and> w_live w' = 0 \<and>
    mset (opened_fds (w_io w')) = mset (closed_fds (w_io w'))"
proof -
  have "ends_with (\<lambda>w. us_fd w = 5 \<and> w_live w = 2) udpsend_connected" by code_simp
  then obtain w where w: "udpsend_connected = Inr w" "us_fd w = 5" "w_live w = 2" by (rule ends_withE) simp
  let ?w0 = "sample_world [sample_host, sys_ret 5, sys_ret 0, sys_ret 0, sys_ret 0]"
  have "us_fd (udpsend_new ?w0) < 0" by (simp add: udpsend_new_def world.defs)
  then have "obj_run udpsend_safe (udpsend_method sample_getint) udpsend_env (udpsend_new ?w0) w"
    using run_message [OF run_start, of udpsend_safe "US_connect ''localhost'' 3000"] w(1) by (simp add: udpsend_connected_def)
  from udpsend_life [OF _ _ this] w show ?thesis by auto
qed

text \<open>
  C20. The life of a \<^verbatim>\<open>tcpclient\<close> object: as long as it is not asked for its state while it counts as connected and has
  no host name (as after a disconnect), it handles every message and callback; deleting it gives back all its memory and closes
  every socket it opened, once.
\<close>

theorem tcpclient_life:
  assumes "mem_ok w0" "fd_balance (w_io w0) []" "tcpclient_new w0 = Inr w1"
    and "obj_run tcpclient_safe (tcpclient_method gi junk) tcpclient_env w1 w"
  shows "(\<forall>m. tcpclient_safe m w \<longrightarrow> (\<exists>w'. tcpclient_method gi junk m w = Inr w')) \<and>
    (\<exists>w'. tcpclient_free w = Inr w' \<and> w_live w' = w_live w0 \<and> mset (opened_fds (w_io w')) = mset (closed_fds (w_io w')))"
proof -
  have "tcpclient_inv w1" "tcpclient_fds w1 = []" "mem_ok w1" "w_io w1 = w_io w0" "w_live w1 = w_live w0 + tcpclient_blocks w1"
    by (rule tcpclient_new_ok [OF assms(1)], use assms(3) in simp)+
  then show ?thesis using tc_life.life [OF assms(4), of "w_live w0"] assms(2) by simp
qed

theorem tcpclient_life_witness:
  "\<exists>w1 w w'. tcpclient_new (sample_world [sample_host, sys_ret 5, sys_ret 0, sys_ret 0]) = Inr w1 \<and>
    res_fold (tcpclient_method sample_getint ''?'') [TC_connect ''localhost'' 3000, TC_send [A_FLOAT 104], TC_receive None] w1 = Inr w \<and>
    tcpclient_free w = Inr w' \<and> w_live w' = 0 \<and> mset (opened_fds (w_io w')) = mset (closed_fds (w_io w'))"
proof -
  let ?w0 = "sample_world [sample_host, sys_ret 5, sys_ret 0, sys_ret 0]"
  let ?ms = "[TC_connect ''localhost'' 3000, TC_send [A_FLOAT 104], TC_receive None]"
  have safe: "list_all (\<lambda>m. \<forall>w. tcpclient_safe m w) ?ms" by auto
  obtain w1 where w1: "tcpclient_new ?w0 = Inr w1" "tcpclient_inv w1" "mem_ok w1"
    by (rule tcpclient_new_ok [of ?w0]) simp_all
  obtain w where w: "res_fold (tcpclient_method sample_getint ''?'') ?ms w1 = Inr w"
    using tc.messages_ok [OF w1(2,3) safe, of sample_getint "''?''"] by blast
  from tcpclient_life [OF _ _ w1(1) obj_run_messages [OF w safe run_start]] w1(1) w show ?thesis by auto
qed

text \<open>
  C21. The life of a \<^verbatim>\<open>udpclient\<close> object: it handles every message and callback in every state it gets into, and
  deleting it gives back all its memory and closes every socket it opened, once.
\<close>

theorem udpclient_life:
  assumes "mem_ok w0" "fd_balance (w_io w0) []" "udpclient_new w0 = Inr w1"
    and "obj_run udpclient_safe (udpclient_method gi junk) udpclient_env w1 w"
  shows "(\<forall>m. udpclient_safe m w \<longrightarrow> (\<exists>w'. udpclient_method gi junk m w = Inr w')) \<and>
    (\<exists>w'. udpclient_free w = Inr w' \<and> w_live w' = w_live w0 \<and> mset (opened_fds (w_io w')) = mset (closed_fds (w_io w')))"
proof -
  have "udpclient_inv w1" "udpclient_fds w1 = []" "mem_ok w1" "w_io w1 = w_io w0" "w_live w1 = w_live w0 + udpclient_blocks w1"
    by (rule udpclient_new_ok [OF assms(1)], use assms(3) in simp)+
  then show ?thesis using uc_life.life [OF assms(4), of "w_live w0"] assms(2) by simp
qed

theorem udpclient_life_witness:
  "\<exists>w1 w w'. udpclient_new (sample_world [sample_host, sys_ret 5, sys_ret 0, sys_ret 0, sys_ret 0, sys_ret 0]) = Inr w1 \<and>
    res_fold (udpclient_method sample_getint ''?'') [UC_connect ''localhost'' 3000 4000, UC_send [A_FLOAT 104], UC_bang] w1 = Inr w \<and>
    udpclient_free w = Inr w' \<and> w_live w' = 0 \<and> mset (opened_fds (w_io w')) = mset (closed_fds (w_io w'))"
proof -
  let ?w0 = "sample_world [sample_host, sys_ret 5, sys_ret 0, sys_ret 0, sys_ret 0, sys_ret 0]"
  let ?ms = "[UC_connect ''localhost'' 3000 4000, UC_send [A_FLOAT 104], UC_bang]"
  have safe: "list_all (\<lambda>m. \<forall>w. udpclient_safe m w) ?ms" by auto
  obtain w1 where w1: "udpclient_new ?w0 = Inr w1" "udpclient_inv w1" "mem_ok w1"
    by (rule udpclient_new_ok [of ?w0]) simp_all
  obtain w where w: "res_fold (udpclient_method sample_getint ''?'') ?ms w1 = Inr w"
    using uc.messages_ok [OF w1(2,3) safe, of sample_getint "''?''"] by blast
  from udpclient_life [OF _ _ w1(1) obj_run_messages [OF w safe run_start]] w1(1) w show ?thesis by auto
qed

text \<open>
  C22. The life of a \<^verbatim>\<open>udpreceive\<close> object: it handles every message and every datagram, however often its port is
  changed and whichever calls fail on the way, and deleting it gives back all its memory and closes
  every socket it opened, once.
\<close>

theorem udpreceive_life:
  assumes "mem_ok w0" "fd_balance (w_io w0) []" "udpreceive_new fportno w0 = Inr w1"
    and "obj_run udpreceive_safe (udpreceive_method gi) idle w1 w"
  shows "(\<forall>m. udpreceive_safe m w \<longrightarrow> (\<exists>w'. udpreceive_method gi m w = Inr w')) \<and>
    w_live (udpreceive_free w) = w_live w0 \<and>
    mset (opened_fds (w_io (udpreceive_free w))) = mset (closed_fds (w_io (udpreceive_free w)))"
proof -
  have "udpreceive_inv w1" "mem_ok w1" "fd_balance (w_io w1) (udpreceive_fds w1)" "w_live w1 - udpreceive_blocks w1 = w_live w0"
    by (rule udpreceive_new_ok [OF assms(1,2), of fportno], use assms(3) in simp)+
  then show ?thesis using ur_life.life [OF assms(4), of "w_live w0"] by simp
qed

text \<open>An object that is bound to another port while it lives; the calls of \<^verbatim>\<open>getsockname\<close> fail.\<close>

definition udpreceive_sample :: world where
  "udpreceive_sample = sample_world
     [sys_ret 5, sys_ret 0, sys_ret 0, sys_ret (-1), sys_ret 0, sys_ret 6, sys_ret 0, sys_ret 0, sys_ret (-1)]"

lemma udpreceive_sample_run:
  obtains w1 w where "udpreceive_new 3000 udpreceive_sample = Inr w1"
    "res_fold (udpreceive_method sample_getint) [UR_port [A_FLOAT 4000], UR_reuseport []] w1 = Inr w"
    "obj_run udpreceive_safe (udpreceive_method sample_getint) idle w1 w"
proof -
  let ?ms = "[UR_port [A_FLOAT 4000], UR_reuseport []]"
  have safe: "list_all (\<lambda>m. \<forall>w. udpreceive_safe m w) ?ms" by auto
  obtain w1 where w1: "udpreceive_new 3000 udpreceive_sample = Inr w1" "udpreceive_inv w1" "mem_ok w1"
    by (rule udpreceive_new_ok [of udpreceive_sample 3000]) (simp_all add: udpreceive_sample_def)
  obtain w where w: "res_fold (udpreceive_method sample_getint) ?ms w1 = Inr w"
    using ur.messages_ok [OF w1(2,3) safe, of sample_getint] by blast
  show thesis by (rule that [OF w1(1) w obj_run_messages [OF w safe run_start]])
qed

theorem udpreceive_life_witness:
  "\<exists>w1 w. udpreceive_new 3000 udpreceive_sample = Inr w1 \<and>
    res_fold (udpreceive_method sample_getint) [UR_port [A_FLOAT 4000], UR_reuseport []] w1 = Inr w \<and>
    w_live (udpreceive_free w) = 0 \<and>
    mset (opened_fds (w_io (udpreceive_free w))) = mset (closed_fds (w_io (udpreceive_free w)))"
proof -
  obtain w1 w where w: "udpreceive_new 3000 udpreceive_sample = Inr w1"
    "res_fold (udpreceive_method sample_getint) [UR_port [A_FLOAT 4000], UR_reuseport []] w1 = Inr w"
    "obj_run udpreceive_safe (udpreceive_method sample_getint) idle w1 w"
    by (rule udpreceive_sample_run)
  from udpreceive_life [OF _ _ w(1,3)] w(1,2) show ?thesis by (auto simp: udpreceive_sample_def)
qed

text \<open>
  C27. The port that a \<^verbatim>\<open>udpreceive\<close> object reports is well-formed in every state of its life: a port number
  from 0 to 65535 while it has a socket, and -1 exactly when it has none.
\<close>

theorem udpreceive_port_wf:
  assumes "mem_ok w0" "fd_balance (w_io w0) []" "udpreceive_new fportno w0 = Inr w1"
    and "obj_run udpreceive_safe (udpreceive_method gi) idle w1 w"
  shows "udpreceive_port gi s [] w = emit (Outlet_anything Statusout ''port'' [SETFLOAT (ur_port w)]) w \<and>
    (if ur_fd w < 0 then ur_port w = -1 else 0 \<le> ur_port w \<and> ur_port w \<le> 65535)"
proof -
  have "udpreceive_inv w1" "mem_ok w1"
    by (rule udpreceive_new_ok [OF assms(1,2), of fportno], use assms(3) in simp)+
  then have "udpreceive_inv w" using ur.run_ok [OF assms(4)] by simp
  then show ?thesis by (simp add: udpreceive_inv_def udpreceive_port_def split: if_splits)
qed

theorem udpreceive_port_wf_witness:
  "\<exists>w1 w. udpreceive_new 3000 udpreceive_sample = Inr w1 \<and>
    res_fold (udpreceive_method sample_getint) [UR_port [A_FLOAT 4000], UR_reuseport []] w1 = Inr w \<and>
    (if ur_fd w < 0 then ur_port w = -1 else 0 \<le> ur_port w \<and> ur_port w \<le> 65535)"
proof -
  obtain w1 w where w: "udpreceive_new 3000 udpreceive_sample = Inr w1"
    "res_fold (udpreceive_method sample_getint) [UR_port [A_FLOAT 4000], UR_reuseport []] w1 = Inr w"
    "obj_run udpreceive_safe (udpreceive_method sample_getint) idle w1 w"
    by (rule udpreceive_sample_run)
  have "mem_ok udpreceive_sample" "fd_balance (w_io udpreceive_sample) []" by (simp_all add: udpreceive_sample_def)
  from udpreceive_port_wf [OF this w(1,3), of "''port''"] w(1,2) show ?thesis by blast
qed

text \<open>
  C19. The life of a \<^verbatim>\<open>tcpreceive\<close> object: it handles every message, connection request and callback, and the number of
  connections it reports is the number of sockets in its table and never exceeds 128. In a state in which no connection has
  the port number 0, which marks the free cells of the table, deleting it gives back all its memory and closes every
  socket it opened, once.
\<close>

theorem tcpreceive_life:
  assumes "mem_ok w0" "fd_balance (w_io w0) []" "tcpreceive_new fportno w0 = Inr w1"
    and "obj_run tcpreceive_safe tcpreceive_method idle w1 w"
  shows "(\<forall>m. tcpreceive_safe m w \<longrightarrow> (\<exists>w'. tcpreceive_method m w = Inr w')) \<and>
    tr_nconnections w = int (length (open_sockets (tr_connection w))) \<and> tr_nconnections w \<le> 128 \<and>
    (ports_known w \<longrightarrow> (\<exists>w'. tcpreceive_free w = Inr w' \<and> w_live w' = w_live w0 \<and>
      mset (opened_fds (w_io w')) = mset (closed_fds (w_io w'))))"
proof -
  have w1: "tcpreceive_inv w1" "mem_ok w1" "fd_balance (w_io w1) (tcpreceive_fds w1)" "w_live w1 - tcpreceive_blocks w1 = w_live w0"
    by (rule tcpreceive_new_ok [OF assms(1,2), of fportno], use assms(3) in simp)+
  then have "tcpreceive_inv w" using tr.run_ok [OF assms(4)] by simp
  moreover have "length (open_sockets cs) \<le> length cs" for cs
    by (metis open_sockets_def length_filter_le length_map)
  ultimately have "tr_nconnections w = int (length (open_sockets (tr_connection w)))" "tr_nconnections w \<le> 128"
    by (metis tcpreceive_inv_def, metis tcpreceive_inv_def of_nat_le_iff of_nat_numeral)
  then show ?thesis using tr_life.life [OF assms(4) w1] by simp
qed

section \<open>Connections\<close>

lemma free_connection_iff:
  assumes "tcpreceive_inv w"
  shows "-1 \<in> cn_socket ` set (tr_connection w) \<longleftrightarrow> tr_nconnections w < 128"
proof -
  have n: "length (tr_connection w) = 128" "tr_nconnections w = int (length (open_sockets (tr_connection w)))"
    using assms by (simp_all add: tcpreceive_inv_def)
  show ?thesis
  proof
    assume "-1 \<in> cn_socket ` set (tr_connection w)"
    then show "tr_nconnections w < 128"
      using length_filter_less [of "-1" "map cn_socket (tr_connection w)" "\<lambda>s. s \<noteq> -1"] n by (simp add: open_sockets_def)
  next
    assume "tr_nconnections w < 128"
    then have "open_sockets (tr_connection w) \<noteq> map cn_socket (tr_connection w)" using n by fastforce
    then show "-1 \<in> cn_socket ` set (tr_connection w)" unfolding open_sockets_def filter_id_conv by force
  qed
qed

text \<open>
  A connection request at a \<^verbatim>\<open>tcpreceive\<close> object: while fewer than 128 connections are open, the new socket is
  added to the table and counted, and no other connection is touched; otherwise the new socket is closed at
  once and the table stays as it is.
\<close>

lemma tcpreceive_accepts:
  assumes "tcpreceive_inv w" "mem_ok w" "w_sys w = r # rs" "0 \<le> a_ret r"
  shows "let w' = tcpreceive_connectpoll (tr_connectsocket w) w in
    if tr_nconnections w < 128
    then tr_nconnections w' = tr_nconnections w + 1 \<and> closed_fds (w_io w') = closed_fds (w_io w) \<and>
      mset (open_sockets (tr_connection w')) = mset (open_sockets (tr_connection w)) + {#a_ret r#}
    else tr_nconnections w' = tr_nconnections w \<and> tr_connection w' = tr_connection w \<and>
      closed_fds (w_io w') = closed_fds (w_io w) @ [a_ret r]"
proof -
  obtain w1 where w1: "sys_call ''accept'' [tr_connectsocket w] w = (r, w1)"
    using assms(3) by (simp add: sys_call_def sys_answer_def)
  note s1 = wstep_open [OF _ w1, simplified] note f1 = wstepD [OF s1] note c1 = tr_more_cong [OF f1(1)]
  have ok1: "tcpreceive_inv w1" "mem_ok w1" using assms tr_cong [OF f1(1)] f1 by simp_all
  note free = free_connection_iff [OF ok1(1)]
  let ?addr = "ntohl (sin_addr (a_from r))" and ?port = "ntohs (sin_port (a_from r))"
  note run = tcpreceive_connectpoll_def w1 Let_def
  show ?thesis
  proof (rule addconnection_ok [OF ok1 assms(4), of ?addr ?port])
    fix w2 assume w2: "tcpreceive_addconnection (a_ret r) ?addr ?port w1 = (1, w2)"
      "closed_fds (w_io w2) = closed_fds (w_io w1)" "mset (tcpreceive_fds w2) = mset (tcpreceive_fds w1) + {#a_ret r#}"
      "-1 \<in> cn_socket ` set (tr_connection w1)" "tr_nconnections w2 = tr_nconnections w1" "tr_connectsocket w2 = tr_connectsocket w1"
    define w3 where "w3 = iemnet__addrout (Some Statusout) (Some Addrout) ?addr ?port
      (iemnet__numconnout (Some Statusout) (Some Connectout) (tr_nconnections w2 + 1) (w2\<lparr>tr_nconnections := tr_nconnections w2 + 1\<rparr>))"
    have s3: "wstep (w2\<lparr>tr_nconnections := tr_nconnections w2 + 1\<rparr>) 0 [] [] w3"
      unfolding w3_def by (rule wstep_quiet [OF wstep_outputs(2) wstep_outputs(3)])
    note f3 = wstepD [OF s3] note c3 = tr_more_cong [OF f3(1)]
    have "tcpreceive_connectpoll (tr_connectsocket w) w = w3" using w2(1) assms(4) by (simp add: run w3_def)
    moreover have "mset (open_sockets (tr_connection w2)) = mset (open_sockets (tr_connection w1)) + {#a_ret r#}"
      using w2(3,6) by (simp add: tcpreceive_fds_def split: if_splits)
    ultimately show ?thesis using w2 free f1 c1 f3 c3 by (simp add: Let_def)
  next
    assume full: "tcpreceive_addconnection (a_ret r) ?addr ?port w1 = (0, w1)" "-1 \<notin> cn_socket ` set (tr_connection w1)"
    have "wstep w1 0 [] [] (emit (Iemnet_log IEMNET_ERROR ''too many connections'' []) w1)" by (rule wstep_emit) simp_all
    from wstep_close [OF this assms(4), of True]
    have s2: "wstep w1 0 [] [a_ret r] (tcpreceive_connectpoll (tr_connectsocket w) w)"
      using full(1) assms(4) by (simp add: run)
    note f2 = wstepD [OF s2] note c2 = tr_more_cong [OF f2(1)]
    show ?thesis using full(2) free f1 c1 f2 c2 by (simp add: Let_def)
  qed
qed

text \<open>An object that listens on port 3000 and accepts a connection from port 5000, after which it is deleted.\<close>

definition sample_accept :: sysret where
  "sample_accept = (sys_ret 7)\<lparr>a_from := \<lparr>sin_family = AF_INET, sin_addr = In_addr 127 0 0 1, sin_port = In_port 19 136\<rparr>\<rparr>"

definition tcpreceive_sample :: world where
  "tcpreceive_sample = sample_world
     [sys_ret 5, sys_ret 0, sys_ret 0, sys_ret 0, sys_ret 0, sys_ret 0, sys_ret (-1), sample_accept]"

lemma trport_listens:
  assumes "tr_port w \<noteq> c_int f" "tr_connectsocket w < 0" "w_sys w = s # o1 # o2 # o3 # b # l # g # rs"
    and "0 \<le> a_ret s" "0 \<le> a_ret b" "0 \<le> a_ret l"
  shows "tr_connectsocket (tcpreceive_port f w) = a_ret s \<and> tr_connection (tcpreceive_port f w) = tr_connection w \<and>
    tr_nconnections (tcpreceive_port f w) = tr_nconnections w \<and> w_sys (tcpreceive_port f w) = rs"
  using assms by (simp add: tcpreceive_port_def enable_option_def sys_call_def sys_answer_def emit_def Let_def)

lemma tcpreceive_new_listens:
  assumes "mem_ok w" "w_sys w = s # o1 # o2 # o3 # b # l # g # rs" "0 \<le> a_ret s" "0 \<le> a_ret b" "0 \<le> a_ret l"
    and "tcpreceive_new 3000 w = Inr w'"
  shows "tr_connectsocket w' = a_ret s \<and> tr_connection w' = replicate 128 free_cell \<and> tr_nconnections w' = 0 \<and> w_sys w' = rs"
proof -
  obtain fl w1 where fl: "iemnet__floatlist_create 1024 w = Inr (Some fl, w1)" "mem_step w 2 w1"
    using floatlist_create_result [of 1024 w] assms(1) by auto
  let ?v = "world.extend w1 \<lparr>tr_connectsocket = -1, tr_port = -1, tr_serialize = 1, tr_nconnections = 0,
    tr_connection = replicate MAX_CONNECTIONS free_cell, tr_floatlist = Some fl\<rparr>"
  have "c_int 3000 = 3000" using c_int_of_int [of 3000] by simp
  then have "tcpreceive_new 3000 w = Inr (tcpreceive_port (t_float_of_int 3000) ?v)" "c_int (t_float_of_int 3000) = 3000"
    using fl(1) by (simp_all add: tcpreceive_new_def c_int_of_t_float_of_int)
  with trport_listens [of ?v "t_float_of_int 3000"] assms(2-6) fl(2) show ?thesis by (simp add: world.defs mem_step_def)
qed

lemma connectpoll_ports:
  assumes "ports_known w" "w_sys w = r # rs" "ntohs (sin_port (a_from r)) \<noteq> 0"
  shows "ports_known (tcpreceive_connectpoll fd w)"
proof -
  obtain w1 where w1: "sys_call ''accept'' [fd] w = (r, w1)" "world.more w1 = world.more w"
    using assms(2) by (simp add: sys_call_def sys_answer_def)
  have cong: "ports_known v = ports_known u" if "world.more v = world.more u" for u v
    using tr_more_cong [OF that] by (simp add: ports_known_def)
  have cell: "ports_known (v\<lparr>tr_connection := (tr_connection v)[i := c], tr_nconnections := n\<rparr>)" if "ports_known v" "cn_port c \<noteq> 0" for v c i n
    using that set_update_subset_insert [of "tr_connection v" i c] by (auto simp: ports_known_def list_all_iff)
  let ?port = "ntohs (sin_port (a_from r))" and ?addr = "ntohl (sin_addr (a_from r))"
  let ?v = "\<lambda>i. snd (iemnet__receiver_create (a_ret r) (Some i) False w1)"
  have rc: "world.more (?v i) = world.more w" for i
    unfolding w1(2) [symmetric] by (simp add: iemnet__receiver_create_def Let_def case_prod_beta)
  have v: "ports_known (?v i)" for i using cong [OF rc] assms(1) by simp
  note run = tcpreceive_connectpoll_def tcpreceive_addconnection_def
  consider "fd \<noteq> tr_connectsocket w \<or> a_ret r < 0 \<or> first_cell (-1) (tr_connection w1) = None"
    | i where "fd = tr_connectsocket w" "0 \<le> a_ret r" "first_cell (-1) (tr_connection w1) = Some i" by (meson not_le option.exhaust)
  then show ?thesis
  proof cases
    case 1
    then have "world.more (tcpreceive_connectpoll fd w) = world.more w"
      using w1 by (cases "fd = tr_connectsocket w"; cases "a_ret r < 0") (simp_all add: run)
    then show ?thesis using cong assms(1) by blast
  next
    case (2 i)
    let ?c = "\<lparr>cn_addr = ?addr, cn_port = ?port, cn_socket = a_ret r, cn_owner = True,
      cn_receiver = fst (iemnet__receiver_create (a_ret r) (Some i) False w1)\<rparr>"
    have "world.more (tcpreceive_connectpoll fd w) = world.more ((?v i)\<lparr>tr_connection := (tr_connection (?v i))[i := ?c],
        tr_nconnections := tr_nconnections (?v i) + 1\<rparr>)"
      using 2 w1(1) by (simp add: run Let_def case_prod_beta)
    from cong [OF this] show ?thesis using cell [OF v, of ?c] assms(3) by simp
  qed
qed

theorem tcpreceive_life_witness:
  "\<exists>w1 w w'. tcpreceive_new 3000 tcpreceive_sample = Inr w1 \<and> tcpreceive_method (TR_connectpoll 5) w1 = Inr w \<and>
    tr_nconnections w = 1 \<and> tcpreceive_free w = Inr w' \<and> w_live w' = 0 \<and> mset (opened_fds (w_io w')) = mset (closed_fds (w_io w'))"
proof -
  have w0: "mem_ok tcpreceive_sample" "fd_balance (w_io tcpreceive_sample) []" by (simp_all add: tcpreceive_sample_def)
  obtain w1 where w1: "tcpreceive_new 3000 tcpreceive_sample = Inr w1" "tcpreceive_inv w1" "mem_ok w1"
    by (rule tcpreceive_new_ok [OF w0, of 3000])
  have "w_sys tcpreceive_sample = sys_ret 5 # sys_ret 0 # sys_ret 0 # sys_ret 0 # sys_ret 0 # sys_ret 0 # sys_ret (-1) # [sample_accept]"
    by (simp add: tcpreceive_sample_def sample_world_def)
  from tcpreceive_new_listens [OF w0(1) this _ _ _ w1(1)]
  have l: "tr_connectsocket w1 = 5" "tr_connection w1 = replicate 128 free_cell" "tr_nconnections w1 = 0" "w_sys w1 = [sample_accept]"
    by simp_all
  define w where "w = tcpreceive_connectpoll 5 w1"
  have r: "a_ret sample_accept = 7" "ntohs (sin_port (a_from sample_accept)) \<noteq> 0" by (simp_all add: sample_accept_def)
  have n: "tr_nconnections w = 1" using tcpreceive_accepts [OF w1(2,3) l(4)] l r by (simp add: w_def Let_def)
  have "ports_known w1" by (simp add: ports_known_def l(2) free_cell_def list_all_length)
  then have p: "ports_known w" unfolding w_def using connectpoll_ports [OF _ l(4) r(2)] by blast
  have run: "tcpreceive_method (TR_connectpoll 5) w1 = Inr w" by (simp add: w_def)
  have "obj_run tcpreceive_safe tcpreceive_method idle w1 w" using obj_run.run_message [where m = "TR_connectpoll 5", OF obj_run.run_start [of tcpreceive_safe tcpreceive_method idle w1] _ run] by simp
  from tcpreceive_life [OF w0 w1(1) this] p n run w1(1) show ?thesis by (auto simp: tcpreceive_sample_def)
qed

text \<open>A table without free cells.\<close>

definition tcpreceive_full :: t_tcpreceive where
  "tcpreceive_full = world.extend (sample_world [sys_ret 9]) \<lparr>tr_connectsocket = 5, tr_port = 3000, tr_serialize = 1,
     tr_nconnections = 128,
     tr_connection = replicate 128 \<lparr>cn_addr = 0, cn_port = 1, cn_socket = 7, cn_owner = True, cn_receiver = None\<rparr>,
     tr_floatlist = None\<rparr>"

lemma tcpreceive_full_inv: "tcpreceive_inv tcpreceive_full" "mem_ok tcpreceive_full" "w_sys tcpreceive_full = [sys_ret 9]"
proof -
  have "open_sockets (replicate n \<lparr>cn_addr = 0, cn_port = 1, cn_socket = 7, cn_owner = True, cn_receiver = None\<rparr>) = replicate n 7" for n
    by (induction n) simp_all
  then show "tcpreceive_inv tcpreceive_full" "mem_ok tcpreceive_full" "w_sys tcpreceive_full = [sys_ret 9]"
    by (simp_all add: tcpreceive_full_def tcpreceive_inv_def world.defs list_all_length wf_cell_def sample_world_def world0_def mem_ok_def)
qed

text \<open>
  C25. Asking a \<^verbatim>\<open>tcpclient\<close> for its state after its connection has ended: disconnecting forgets the name of the host but
  not that there is a connection, so that the request that follows reads through a NULL pointer.
\<close>

theorem tcpclient_bang_after_disconnect:
  assumes "tcpclient_inv w" "mem_ok w" "tc_connectstate w \<noteq> 0"
  shows "\<exists>w'. tcpclient_disconnect w = Inr w' \<and> tcpclient_info junk w' = Inl NullDeref"
proof -
  obtain w' where w': "tcpclient_disconnect w = Inr w'" "tc_hostname w' = None" "tc_connectstate w' = tc_connectstate w"
    by (rule tcpclient_disconnect_ok [OF assms(1,2)])
  define v where "v = iemnet__numconnout (Some Statusout) (Some Connectout) (tc_connectstate w')
    (if tc_fd w' \<ge> 0 then iemnet__socket2addressout junk (tc_fd w') Statusout ''local_address'' w' else w')"
  have "world.more v = world.more w'" by (simp add: v_def)
  then have "tc_hostname v = None" using tc_more_cong w'(2) by metis
  then have "tcpclient_info junk w' = Inl NullDeref"
    unfolding tcpclient_info_def Let_def v_def [symmetric] using w'(3) assms(3) by simp
  then show ?thesis using w'(1) by blast
qed

text \<open>A client whose list of floats is not allocated yet, and which connects.\<close>

definition tcpclient_sample :: t_tcpclient where
  "tcpclient_sample = world.extend (sample_world [sample_host, sys_ret 5, sys_ret 0, sys_ret 0])
     \<lparr>tc_sender = None, tc_receiver = None, tc_serialize = 1, tc_fd = -1, tc_hostname = None, tc_connectstate = 0,
      tc_port = 0, tc_addr = 0, tc_timeout = -1, tc_floatlist = None\<rparr>"

lemma tcpclient_sample_connects:
  obtains w where "tcpclient_connect ''?'' ''localhost'' 3000 tcpclient_sample = Inr w" "tcpclient_inv w" "mem_ok w"
    "tc_connectstate w = 1"
proof -
  let ?v = "tcpclient_sample\<lparr>tc_hostname := Some ''localhost'', tc_port := c_int 3000\<rparr>"
  have "tcpclient_inv tcpclient_sample" "mem_ok tcpclient_sample"
    by (simp_all add: tcpclient_sample_def tcpclient_inv_def world.defs mem_ok_def sample_world_def world0_def)
  moreover have "list_all (\<lambda>m. \<forall>w. tcpclient_safe m w) [TC_connect ''localhost'' 3000]" by auto
  ultimately obtain w where w: "tcpclient_connect ''?'' ''localhost'' 3000 tcpclient_sample = Inr w" "tcpclient_inv w" "mem_ok w"
    using tc.messages_ok [of tcpclient_sample "[TC_connect ''localhost'' 3000]" sample_getint "''?''"]
    by (auto simp: res_simps)
  have "ends_with (\<lambda>(n, w). n = 5 \<and> tc_hostname w = Some ''localhost'') (tcpclient_do_connect ''localhost'' (word_of_int (c_int 3000)) ?v)" by code_simp
  then obtain v where v: "tcpclient_do_connect ''localhost'' (word_of_int (c_int 3000)) ?v = Inr (5, v)" "tc_hostname v = Some ''localhost''"
    by (rule ends_withE) auto
  have "tc_hostname tcpclient_sample = None" "tc_port tcpclient_sample = 0" by (simp_all add: tcpclient_sample_def world.defs)
  with v w(1) have "tcpclient_info ''?'' (v\<lparr>tc_connectstate := 1, tc_fd := 5\<rparr>) = Inr w" by (simp add: tcpclient_connect_def)
  moreover obtain w' where "tcpclient_info ''?'' (v\<lparr>tc_connectstate := 1, tc_fd := 5\<rparr>) = Inr w'"
    "wstep (v\<lparr>tc_connectstate := 1, tc_fd := 5\<rparr>) 0 [] [] w'"
    by (rule tcpclient_info_ok [of "v\<lparr>tc_connectstate := 1, tc_fd := 5\<rparr>" "''?''"]) (simp_all add: v(2))
  ultimately have "wstep (v\<lparr>tc_connectstate := 1, tc_fd := 5\<rparr>) 0 [] [] w" by simp
  then have "tc_connectstate w = 1" using tc_more_cong [OF wstepD(1)] by fastforce
  then show thesis by (rule that [OF w])
qed

theorem tcpclient_bang_after_disconnect_witness:
  "\<exists>w w'. tcpclient_connect ''?'' ''localhost'' 3000 tcpclient_sample = Inr w \<and> tcpclient_disconnect w = Inr w' \<and>
    tcpclient_info ''?'' w' = Inl NullDeref"
proof -
  obtain w where w: "tcpclient_connect ''?'' ''localhost'' 3000 tcpclient_sample = Inr w" "tcpclient_inv w" "mem_ok w"
    "tc_connectstate w = 1" by (rule tcpclient_sample_connects)
  then have "tc_connectstate w \<noteq> 0" by simp
  from tcpclient_bang_after_disconnect [OF w(2,3) this, of "''?''"] w(1) show ?thesis by blast
qed

section \<open>The datagram sender\<close>

text \<open>
  C26. An empty message to a connected \<^verbatim>\<open>udpsend\<close> object is the same as a disconnect when nothing is waiting to be
  sent, and does nothing otherwise.
\<close>

theorem udpsend_empty_disconnects:
  assumes "us_sender w = Some s" "s_isrunning s" "s_queue s = Some q"
  shows "udpsend_send gi [] w = (if sint (q_size q) < 1 then udpsend_disconnect w else Inr w)"
proof -
  have same: "w\<lparr>us_sender := Some s\<rparr> = w" using assms(1) by (cases w) simp
  have "udpsend_send gi [] w = (if sint (q_size q) < 1 then udpsend_disconnect (w\<lparr>us_sender := Some s\<rparr>) else Inr (w\<lparr>us_sender := Some s\<rparr>))"
    using assms sender_send_NULL [OF assms(2,3), of w]
    by (simp add: udpsend_send_def empty_chunk iemnet__chunk_destroy_def)
  then show ?thesis unfolding same .
qed

theorem udpsend_empty_disconnects_witness:
  "\<exists>w. udpsend_connected = Inr w \<and> us_fd w = 5 \<and> udpsend_send sample_getint [] w = udpsend_disconnect w"
proof -
  have "ends_with (\<lambda>w. us_fd w = 5 \<and> (case us_sender w of None \<Rightarrow> False | Some s \<Rightarrow> s_isrunning s \<and>
    (case s_queue s of None \<Rightarrow> False | Some q \<Rightarrow> q_size q = 0))) udpsend_connected" by code_simp
  then obtain w s q where "udpsend_connected = Inr w" "us_fd w = 5" "us_sender w = Some s" "s_isrunning s" "s_queue s = Some q"
    "q_size q = 0"
    by (rule ends_withE) (auto split: option.splits)
  with udpsend_empty_disconnects [of w s q sample_getint] show ?thesis by auto
qed

text \<open>
  A \<^verbatim>\<open>udpsend\<close> object can lose a socket: if the send thread cannot be started, the object keeps the socket without
  a sender; the next connect is allowed then and forgets the socket, which is not closed when the object is deleted.
\<close>

lemma udpsend_can_leak_socket:
  "\<exists>w. res_bind (res_fold (udpsend_method gi) [US_connect ''localhost'' 3000, US_connect ''localhost'' 3000]
      (udpsend_new (sample_world [sample_host, sys_ret 5, sys_ret 0, sys_ret 0, sys_ret 11,
        sample_host, sys_ret 6, sys_ret 0, sys_ret 0, sys_ret 0]))) udpsend_free = Inr w \<and>
    opened_fds (w_io w) = [5, 6] \<and> closed_fds (w_io w) = [6]"
proof -
  have same: "res_fold (udpsend_method gi) [US_connect h p, US_connect h p] v = res_fold (udpsend_method sample_getint) [US_connect h p, US_connect h p] v"
    for h p v by (simp add: res_bind_def split: sum.splits)
  have "ends_with (\<lambda>w. opened_fds (w_io w) = [5, 6] \<and> closed_fds (w_io w) = [6])
      (res_bind (res_fold (udpsend_method sample_getint) [US_connect ''localhost'' 3000, US_connect ''localhost'' 3000]
      (udpsend_new (sample_world [sample_host, sys_ret 5, sys_ret 0, sys_ret 0, sys_ret 11,
        sample_host, sys_ret 6, sys_ret 0, sys_ret 0, sys_ret 0]))) udpsend_free)"
    by code_simp
  then show ?thesis unfolding same by (rule ends_withE) blast
qed

end
