(* ===== verification/Iemnet_Setup.thy ===== *)
theory Iemnet_Setup
  imports Iemnet_Core
begin

text \<open>
  Loading the library: the set-up functions of the objects, which register their names and declare their
  classes to Pd, the bootstrap function of \<^verbatim>\<open>iemnet_setup.c\<close>, and the switch for debugging that every class has.
\<close>

unbundle bit_operations_syntax

section \<open>Debugging\<close>

text \<open>
  \<open>have_debug\<close> is the build option \<^verbatim>\<open>IEMNET_HAVE_DEBUG\<close>; the two static variables are the level and the
  flag for the first call.
\<close>

record debug_state = world +
  dbg_level :: int
  dbg_firsttime :: bool

definition iemnet_debuglevel :: "bool \<Rightarrow> t_float \<Rightarrow> 'w debug_state_scheme \<Rightarrow> 'w debug_state_scheme" where
  "iemnet_debuglevel have_debug f w =
     (let w = (if have_debug then
                 let debuglevel = c_int f
                 in emit (Postf ''iemnet: setting debuglevel to %d'' [L_int debuglevel]) (w\<lparr>dbg_level := debuglevel\<rparr>)
               else if dbg_firsttime w then emit (Pd_error ''iemnet compiled without debug!'' []) w else w)
      in w\<lparr>dbg_firsttime := False\<rparr>)"

definition iemnet_debug ::
    "bool \<Rightarrow> int \<Rightarrow> string \<Rightarrow> nat \<Rightarrow> string \<Rightarrow> 'w debug_state_scheme \<Rightarrow> bool \<times> 'w debug_state_scheme" where
  "iemnet_debug have_debug debuglevel file line function w =
     (if have_debug \<and> dbg_level w AND debuglevel \<noteq> 0
      then (True, emit (Startpost ''[%s[%d]:%s#%d] '' [L_str file, L_int (int line), L_str function, L_int debuglevel]) w)
      else (False, w))"

section \<open>Classes\<close>

definition DEBUGMETHOD :: "string \<Rightarrow> event" where
  "DEBUGMETHOD c = Class_addmethod c ''iemnet_debuglevel'' ''debug'' [AT_FLOAT]"

text \<open>
  The common form of the set-up functions: nothing is declared if the registration of the name returns 0.
  \<open>build\<close> holds the build-time macros of \<^verbatim>\<open>iemnet__register\<close>.
\<close>

type_synonym build = "string option \<times> string"

definition class_setup :: "build \<Rightarrow> string \<Rightarrow> event list \<Rightarrow> 'w registry_scheme \<Rightarrow> 'w registry_scheme res" where
  "class_setup build objName decls w =
     res_bind (iemnet__register (fst build) (snd build) objName w) (\<lambda>(ok, w).
       if ok = 0 then Inr w else Inr (fold emit decls w))"

definition tcpclient_decls :: "event list" where
  "tcpclient_decls = (let c = ''tcpclient'' in
     [Class_new c ''tcpclient_new'' ''tcpclient_free'' [AT_DEFFLOAT],
      Class_addmethod c ''tcpclient_connect'' ''connect'' [AT_SYMBOL, AT_FLOAT],
      Class_addmethod c ''tcpclient_disconnect'' ''disconnect'' [],
      Class_addmethod c ''tcpclient_serialize'' ''serialize'' [AT_FLOAT],
      Class_addmethod c ''tcpclient_timeout'' ''timeout'' [AT_FLOAT],
      Class_addmethod c ''tcpclient_send'' ''send'' [AT_GIMME],
      Class_addlist c ''tcpclient_send'',
      Class_addbang c ''tcpclient_info'',
      DEBUGMETHOD c])"

definition tcpclient_setup :: "build \<Rightarrow> 'w registry_scheme \<Rightarrow> 'w registry_scheme res" where
  "tcpclient_setup build w = class_setup build ''tcpclient'' tcpclient_decls w"

definition tcpreceive_decls :: "event list" where
  "tcpreceive_decls = (let c = ''tcpreceive'' in
     [Class_new c ''tcpreceive_new'' ''tcpreceive_free'' [AT_DEFFLOAT],
      Class_addmethod c ''tcpreceive_port'' ''port'' [AT_DEFFLOAT],
      Class_addmethod c ''tcpreceive_serialize'' ''serialize'' [AT_FLOAT],
      DEBUGMETHOD c])"

definition tcpreceive_setup :: "build \<Rightarrow> 'w registry_scheme \<Rightarrow> 'w registry_scheme res" where
  "tcpreceive_setup build w = class_setup build ''tcpreceive'' tcpreceive_decls w"

definition tcpsend_decls :: "event list" where
  "tcpsend_decls = (let c = ''tcpsend'' in
     [Class_new c ''tcpsend_new'' ''tcpsend_free'' [],
      Class_addmethod c ''tcpsend_connect'' ''connect'' [AT_SYMBOL, AT_FLOAT],
      Class_addmethod c ''tcpsend_disconnect'' ''disconnect'' [],
      Class_addmethod c ''tcpsend_send'' ''send'' [AT_GIMME],
      Class_addlist c ''tcpsend_send'',
      Class_addmethod c ''tcpsend_timeout'' ''timeout'' [AT_FLOAT],
      DEBUGMETHOD c])"

definition tcpsend_setup :: "build \<Rightarrow> 'w registry_scheme \<Rightarrow> 'w registry_scheme res" where
  "tcpsend_setup build w = class_setup build ''tcpsend'' tcpsend_decls w"

definition tcpserver_decls :: "event list" where
  "tcpserver_decls = (let c = ''tcpserver'' in
     [Class_new c ''tcpserver_new'' ''tcpserver_free'' [AT_DEFFLOAT],
      Class_addmethod c ''tcpserver_disconnect_client'' ''disconnectclient'' [AT_DEFFLOAT],
      Class_addmethod c ''tcpserver_disconnect_socket'' ''disconnectsocket'' [AT_DEFFLOAT],
      Class_addmethod c ''tcpserver_disconnect_all'' ''disconnect'' [],
      Class_addmethod c ''tcpserver_send_socket'' ''send'' [AT_GIMME],
      Class_addmethod c ''tcpserver_send_client'' ''client'' [AT_GIMME],
      Class_addmethod c ''tcpserver_broadcast'' ''broadcast'' [AT_GIMME],
      Class_addmethod c ''tcpserver_defaulttarget'' ''target'' [AT_DEFFLOAT],
      Class_addmethod c ''tcpserver_targetsocket'' ''targetsocket'' [AT_DEFFLOAT],
      Class_addlist c ''tcpserver_defaultsend'',
      Class_addmethod c ''tcpserver_serialize'' ''serialize'' [AT_FLOAT],
      Class_addmethod c ''tcpserver_accept'' ''accept'' [AT_FLOAT],
      Class_addmethod c ''tcpserver_maxconnections'' ''maxconnections'' [AT_FLOAT],
      Class_addmethod c ''tcpserver_port'' ''port'' [AT_DEFFLOAT],
      Class_addbang c ''tcpserver_info'',
      DEBUGMETHOD c])"

definition tcpserver_setup :: "build \<Rightarrow> 'w registry_scheme \<Rightarrow> 'w registry_scheme res" where
  "tcpserver_setup build w = class_setup build ''tcpserver'' tcpserver_decls w"

definition udpclient_decls :: "event list" where
  "udpclient_decls = (let c = ''udpclient'' in
     [Class_new c ''udpclient_new'' ''udpclient_free'' [AT_DEFFLOAT],
      Class_addmethod c ''udpclient_connect'' ''connect'' [AT_SYMBOL, AT_FLOAT, AT_DEFFLOAT],
      Class_addmethod c ''udpclient_disconnect'' ''disconnect'' [],
      Class_addmethod c ''udpclient_send'' ''send'' [AT_GIMME],
      Class_addlist c ''udpclient_send'',
      Class_addbang c ''udpclient_info'',
      DEBUGMETHOD c])"

definition udpclient_setup :: "build \<Rightarrow> 'w registry_scheme \<Rightarrow> 'w registry_scheme res" where
  "udpclient_setup build w = class_setup build ''udpclient'' udpclient_decls w"

definition udpreceive_decls :: "event list" where
  "udpreceive_decls = (let c = ''udpreceive'' in
     [Class_new c ''udpreceive_new'' ''udpreceive_free'' [AT_DEFFLOAT],
      Class_addmethod c ''udpreceive_port'' ''port'' [AT_GIMME],
      Class_addmethod c ''udpreceive_optionI'' ''reuseaddr'' [AT_GIMME],
      Class_addmethod c ''udpreceive_optionI'' ''reuseport'' [AT_GIMME],
      DEBUGMETHOD c])"

definition udpreceive_setup :: "build \<Rightarrow> 'w registry_scheme \<Rightarrow> 'w registry_scheme res" where
  "udpreceive_setup build w = class_setup build ''udpreceive'' udpreceive_decls w"

definition udpsend_decls :: "event list" where
  "udpsend_decls = (let c = ''udpsend'' in
     [Class_new c ''udpsend_new'' ''udpsend_free'' [],
      Class_addmethod c ''udpsend_connect'' ''connect'' [AT_SYMBOL, AT_FLOAT],
      Class_addmethod c ''udpsend_disconnect'' ''disconnect'' [],
      Class_addmethod c ''udpsend_send'' ''send'' [AT_GIMME],
      Class_addlist c ''udpsend_send'',
      DEBUGMETHOD c])"

definition udpsend_setup :: "build \<Rightarrow> 'w registry_scheme \<Rightarrow> 'w registry_scheme res" where
  "udpsend_setup build w = class_setup build ''udpsend'' udpsend_decls w"

definition udpserver_decls :: "event list" where
  "udpserver_decls = (let c = ''udpserver'' in
     [Class_new c ''udpserver_new'' ''udpserver_free'' [AT_DEFFLOAT],
      Class_addmethod c ''udpserver_disconnect_client'' ''disconnectclient'' [AT_DEFFLOAT],
      Class_addmethod c ''udpserver_disconnect_all'' ''disconnect'' [],
      Class_addmethod c ''udpserver_accept'' ''accept'' [AT_FLOAT],
      Class_addmethod c ''udpserver_maxconnections'' ''maxconnections'' [AT_FLOAT],
      Class_addmethod c ''udpserver_timeout'' ''timeout'' [AT_FLOAT],
      Class_addmethod c ''udpserver_send_client'' ''client'' [AT_GIMME],
      Class_addmethod c ''udpserver_broadcast'' ''broadcast'' [AT_GIMME],
      Class_addmethod c ''udpserver_defaultsend'' ''send'' [AT_GIMME],
      Class_addlist c ''udpserver_defaultsend'',
      Class_addmethod c ''udpserver_defaulttarget'' ''target'' [AT_DEFFLOAT],
      Class_addmethod c ''udpserver_add_client'' ''addclient'' [AT_SYMBOL, AT_FLOAT],
      Class_addmethod c ''udpserver_bind'' ''bind'' [AT_GIMME],
      Class_addmethod c ''udpserver_port'' ''port'' [AT_DEFFLOAT],
      Class_addbang c ''udpserver_info'',
      DEBUGMETHOD c])"

definition udpserver_setup :: "build \<Rightarrow> 'w registry_scheme \<Rightarrow> 'w registry_scheme res" where
  "udpserver_setup build w = class_setup build ''udpserver'' udpserver_decls w"

definition iemnet_setup :: "build \<Rightarrow> 'w registry_scheme \<Rightarrow> 'w registry_scheme res" where
  "iemnet_setup build w =
     res_bind (tcpclient_setup build w) (\<lambda>w.
     res_bind (tcpreceive_setup build w) (\<lambda>w.
     res_bind (tcpsend_setup build w) (\<lambda>w.
     res_bind (tcpserver_setup build w) (\<lambda>w.
     res_bind (udpclient_setup build w) (\<lambda>w.
     res_bind (udpreceive_setup build w) (\<lambda>w.
     res_bind (udpsend_setup build w) (\<lambda>w.
     udpserver_setup build w)))))))"

section \<open>What is declared\<close>

fun is_decl :: "event \<Rightarrow> bool" where
  "is_decl (Class_new _ _ _ _) = True"
| "is_decl (Class_addmethod _ _ _ _) = True"
| "is_decl (Class_addlist _ _) = True"
| "is_decl (Class_addbang _ _) = True"
| "is_decl _ = False"

text \<open>The class that is created, and the selector that gets a function.\<close>

fun created_of :: "event \<Rightarrow> string option" where
  "created_of (Class_new c _ _ _) = Some c"
| "created_of _ = None"

fun selector_of :: "string \<Rightarrow> event \<Rightarrow> string option" where
  "selector_of c (Class_addmethod d f s ts) = (if d = c then Some s else None)"
| "selector_of c (Class_addlist d f) = (if d = c then Some ''list'' else None)"
| "selector_of c (Class_addbang d f) = (if d = c then Some ''bang'' else None)"
| "selector_of c _ = None"

definition object_names :: "string list" where
  "object_names = [''tcpclient'', ''tcpreceive'', ''tcpsend'', ''tcpserver'', ''udpclient'', ''udpreceive'', ''udpsend'', ''udpserver'']"

definition object_classes :: "(string \<times> event list) list" where
  "object_classes = zip object_names
     [tcpclient_decls, tcpreceive_decls, tcpsend_decls, tcpserver_decls,
      udpclient_decls, udpreceive_decls, udpsend_decls, udpserver_decls]"

lemmas decls_defs = tcpclient_decls_def tcpreceive_decls_def tcpsend_decls_def tcpserver_decls_def
  udpclient_decls_def udpreceive_decls_def udpsend_decls_def udpserver_decls_def DEBUGMETHOD_def Let_def

lemma iemnet_setup_fold:
  "iemnet_setup build w = res_fold (\<lambda>(c, decls). class_setup build c decls) object_classes w"
proof -
  have f: "res_fold g [] = Inr" "res_fold g (x # xs) = (\<lambda>v. res_bind (g x v) (res_fold g xs))" for g x xs
    by (rule ext, simp)+
  have u: "res_bind m Inr = m" for m :: "'e + 'b" by (simp add: res_bind_def split: sum.splits)
  show ?thesis
    by (simp add: f u iemnet_setup_def object_classes_def object_names_def tcpclient_setup_def tcpreceive_setup_def
      tcpsend_setup_def tcpserver_setup_def udpclient_setup_def udpreceive_setup_def udpsend_setup_def udpserver_setup_def)
qed

lemma fold_emit_facts:
  "w_io (fold emit es w) = w_io w @ es" "world.more (fold emit es w) = world.more w" "w_malloc (fold emit es w) = w_malloc w"
  by (induction es arbitrary: w) simp_all

lemma registry_more_cong:
  assumes "world.more v = world.more (u :: 'w registry_scheme)"
  shows "namelist v = namelist u" "reg_firsttime v = reg_firsttime u"
  using assms by (cases u; cases v; simp)+

lemma register_declares_nothing:
  assumes "mem_ok w"
  obtains w' where "iemnet__register version build_date name w = Inr (1, w')" "mem_ok w'"
    "set (namelist w') = insert name (set (namelist w))" "filter is_decl (w_io w') = filter is_decl (w_io w)"
proof (cases "name_scan name (namelist w)")
  case True
  then show ?thesis using that [of w] assms
    by (auto simp: iemnet__register_def iemnet__nametaken_def name_scan_iff)
next
  case False
  obtain ok w1 where m: "malloc w = (ok, w1)" by fastforce
  have w1: ok "mem_ok w1" "world.more w1 = world.more w" "w_io w1 = w_io w"
    using mem_ok_malloc [OF assms] malloc_snd [of w] by (simp_all add: m)
  define w2 where "w2 = w1\<lparr>namelist := namelist w1 @ [name]\<rparr>"
  define w3 where "w3 = emit (Logpost PD_DEBUG ''iemnet: loaded [%s]'' [L_str name])
    (if reg_firsttime w2 then fold emit (banner version build_date) w2 else w2)"
  have "world.more w3 = world.more w2" by (simp add: w3_def fold_emit_facts)
  note c3 = registry_more_cong [OF this]
  have "iemnet__register version build_date name w = Inr (1, w3\<lparr>reg_firsttime := False\<rparr>)"
    using False w1(1) by (simp add: iemnet__register_def iemnet__nametaken_def m w3_def w2_def)
  moreover have "filter is_decl (banner version build_date) = []"
    by (simp add: banner_def split: option.splits)
  then have "filter is_decl (w_io w3) = filter is_decl (w_io w)"
    using w1(4) by (simp add: w3_def w2_def fold_emit_facts)
  moreover have "mem_ok (w3\<lparr>reg_firsttime := False\<rparr>)"
    using w1(2) by (simp add: w3_def w2_def mem_ok_def fold_emit_facts)
  ultimately show ?thesis
    using that [of "w3\<lparr>reg_firsttime := False\<rparr>"] c3 registry_more_cong [OF w1(3)] by (simp add: w2_def)
qed

lemma class_setup_fold:
  assumes "mem_ok w" "list_all (\<lambda>(c, decls). list_all is_decl decls) cs"
  shows "\<exists>w'. res_fold (\<lambda>(c, decls). class_setup build c decls) cs w = Inr w' \<and>
    set (namelist w') = set (namelist w) \<union> set (map fst cs) \<and>
    filter is_decl (w_io w') = filter is_decl (w_io w) @ concat (map snd cs)"
  using assms
proof (induction cs arbitrary: w)
  case Nil
  then show ?case by simp
next
  case (Cons cd cs)
  obtain c decls where cd: "cd = (c, decls)" by fastforce
  obtain w1 where w1: "iemnet__register (fst build) (snd build) c w = Inr (1, w1)" "mem_ok w1"
    "set (namelist w1) = insert c (set (namelist w))" "filter is_decl (w_io w1) = filter is_decl (w_io w)"
    by (rule register_declares_nothing [OF Cons.prems(1)])
  define w2 where "w2 = fold emit decls w1"
  have d: "filter is_decl decls = decls" using Cons.prems(2) cd by (simp add: list_all_iff)
  have w2: "mem_ok w2" "set (namelist w2) = insert c (set (namelist w))" "filter is_decl (w_io w2) = filter is_decl (w_io w) @ decls"
    using w1 d registry_more_cong [OF fold_emit_facts(2), of decls w1] by (simp_all add: w2_def fold_emit_facts mem_ok_def)
  have "class_setup build c decls w = Inr w2" using w1(1) by (simp add: class_setup_def w2_def)
  moreover obtain w' where "res_fold (\<lambda>(c, decls). class_setup build c decls) cs w2 = Inr w'"
    "set (namelist w') = set (namelist w2) \<union> set (map fst cs)"
    "filter is_decl (w_io w') = filter is_decl (w_io w2) @ concat (map snd cs)"
    using Cons.IH [OF w2(1)] Cons.prems(2) by auto
  ultimately show ?case using w2 cd by auto
qed

lemma object_decls: "list_all (\<lambda>(c, decls). list_all is_decl decls) object_classes"
  by (simp add: object_classes_def object_names_def decls_defs)

lemma object_created: "List.map_filter created_of (concat (map snd object_classes)) = object_names"
  by (simp add: object_classes_def object_names_def decls_defs map_filter_def)

lemma object_selectors:
  "list_all (\<lambda>c. distinct (List.map_filter (selector_of c) (concat (map snd object_classes)))) object_names"
  by code_simp

section \<open>Loading the library\<close>

text \<open>
  Loading the library, whatever has been loaded before: every object registers its name and declares
  its class, in the order of the bootstrap code, and within a class every selector is given to exactly one
  function. The guard of the set-up functions never prevents a declaration: against what the header says of it,
  loading the library again declares all classes again.
\<close>

lemma setup_declares_classes:
  assumes "mem_ok w"
  shows "\<exists>w' decls. iemnet_setup build w = Inr w' \<and> set (namelist w') = set (namelist w) \<union> set object_names \<and>
    filter is_decl (w_io w') = filter is_decl (w_io w) @ decls \<and> List.map_filter created_of decls = object_names \<and>
    list_all (\<lambda>c. distinct (List.map_filter (selector_of c) decls)) object_names"
proof -
  obtain w' where "iemnet_setup build w = Inr w'" "set (namelist w') = set (namelist w) \<union> set (map fst object_classes)"
    "filter is_decl (w_io w') = filter is_decl (w_io w) @ concat (map snd object_classes)"
    using class_setup_fold [OF assms object_decls, of build] by (auto simp: iemnet_setup_fold)
  moreover have "map fst object_classes = object_names" by (simp add: object_classes_def object_names_def)
  ultimately show ?thesis using object_created object_selectors by auto
qed

end
