(* ===== verification/Spec2Isabelle.thy ===== *)
theory Spec2Isabelle
  imports Sender_Threads Sender_Loop Tcp_Server_Properties Tcp_Server_Reentry Tcp_Server_Life Udp_Server_Properties Object_Properties Iemnet_Setup
begin

text \<open>
  A model of iemnet, a library of networking objects for Pure Data (Pd), written in C.

  \<^bold>\<open>The program.\<close> Every object sends through a \<^emph>\<open>sender\<close> and receives through a \<^emph>\<open>receiver\<close>. A sender
  (\<^verbatim>\<open>src/iemnet_sender.c\<close>) owns a queue of chunks and a thread that transmits them; the main thread only
  queues. A receiver (\<^verbatim>\<open>src/iemnet_receiver.c\<close>) is polled by Pd's scheduler, reads what has arrived
  and calls back its owner with a chunk, or with NULL when the connection is gone. Chunks, lists of
  float atoms and the queue are in \<^verbatim>\<open>src/iemnet_data.c\<close>, helpers for output, addresses and the registry
  of object names in \<^verbatim>\<open>src/iemnet.c\<close>. The objects (\<^verbatim>\<open>src/tcpserver.c\<close> and its siblings) keep the sockets
  and translate Pd messages into calls of senders and receivers.

  \<^bold>\<open>Theories.\<close> Definitions keep the names of the C functions.
    \<^item> \<open>Iemnet_Prelude\<close>: outcomes of C operations (a value or the memory error they run into), loops,
      arrays and heaps with checked access, C integers and Pd floats, byte order.
    \<^item> \<open>Pd_World\<close>: Pd's atoms and outlets, the operating system and the allocator as an explicit world:
      a log of all calls that leave the library, the answers of the system to come, the outcomes of
      the allocations to come, and the number of blocks not freed yet.
    \<^item> \<open>Iemnet_Data\<close>: float lists and chunks. \<open>Iemnet_Queue\<close>: the queue as nodes on a heap with head and tail
      pointers; its contract is the locale \<open>fifo\<close>, interpreted on the pointer structure.
    \<^item> \<open>Iemnet_Core\<close>: \<^verbatim>\<open>src/iemnet.c\<close>. \<open>Iemnet_Sender\<close>: the sender as the main thread sees it, and the
      connect with timeout. \<open>Iemnet_Receiver\<close>: the poll function with its callback as a parameter.
    \<^item> \<open>Sender_Threads\<close>: the send thread and the main thread of one sender as a transition system, one
      step per critical section of the code, built from the critical sections of \<open>Iemnet_Queue\<close>.
      \<open>Sender_Loop\<close>: the loop of the thread with its calls of the system, whose rounds are paths of that
      transition system.
    \<^item> \<open>Iemnet_Setup\<close>: the set-up functions of all classes, \<^verbatim>\<open>src/iemnet_setup.c\<close> and the debug level.
    \<^item> \<open>Object_Common\<close>: code that several objects contain, and the view of senders, receivers and outlets
      from inside an object.
    \<^item> \<open>Client_Table\<close>: the contract of a table of clients, a locale. \<open>Tcp_Server\<close>: all handlers of
      \<^verbatim>\<open>src/tcpserver.c\<close>; \<open>Tcp_Server_Table\<close> (invariant, abstraction to a list of clients, lookup,
      removal, the interpretation of the table contract), \<open>Tcp_Server_Send\<close> and \<open>Tcp_Server_Handlers\<close>
      (the handlers over the invariant), \<open>Tcp_Server_Properties\<close> (what the server guarantees), \<open>Tcp_Server_Reentry\<close>
      (broadcasting with the patch as a parameter, which may send messages back at every outlet call), \<open>Tcp_Server_Life\<close> (its messages and
      its whole life).
    \<^item> \<open>Udp_Server\<close>: all handlers of \<^verbatim>\<open>src/udpserver.c\<close>; \<open>Udp_Server_Table\<close> (invariant and abstraction to a list
      of peers), \<open>Udp_Server_Timeout\<close> (the compaction of the table), \<open>Udp_Server_Receive\<close>, \<open>Udp_Server_Send\<close>,
      \<open>Udp_Server_Remove\<close>, \<open>Udp_Server_Reach\<close> (the states the object can get into),
      \<open>Udp_Server_Properties\<close>.
    \<^item> \<open>Pd_Object\<close>: the life of an object as an inductive relation, and the locales \<open>pd_object\<close>, \<open>pd_socket_object\<close>
      and \<open>pd_mortal_object\<close> with what an object promises for one message, for its sockets and for its deletion.
      Which messages an object handles safely may depend on its state. The locales are interpreted on \<open>Tcp_Send\<close>,
      \<open>Tcp_Client\<close>, \<open>Udp_Send\<close>, \<open>Udp_Client\<close>, \<open>Udp_Receive\<close> and \<open>Tcp_Receive\<close> (all methods and callbacks of the
      C files of these names), and on the TCP server. \<open>Object_Properties\<close>: what follows for these objects.

  \<^bold>\<open>What is shown.\<close> Chunks: packing and unpacking of bytes, safety and freedom from leaks under every
  pattern of failing allocations. Queue: refinement of a plain list, byte count with its wrap-around,
  complete destruction. Threads: in-order delivery under all interleavings, clean shutdown, a bound on late
  transmissions, memory safety, what goes on the wire when the system takes all or only a part of a chunk,
  and that the only deadlock is a lost wake-up, which does occur. Sender and connect: functional behaviour on all branches, the mode in which a connect leaves the socket. TCP server: the invariant of its table and the
  effect of every operation on the list of clients, including the failing ones; a broadcast while the patch reacts. UDP server: the table of peers
  as a list, timeouts as a filter, addressing of broadcasts, safety of the states reachable without disconnections, through
  messages the server can take, and the operations that break the table or lose memory. The other objects: over whole lives they never get stuck and give back
  all memory and all sockets, with the exceptions that are shown. Loading: what is declared to Pd. This theory
  adds what spans components: from the wire to the outlet, replies to the peer of a datagram, and messages and
  streams from one object to another.

  \<^bold>\<open>Conventions and bounds.\<close> A pointer is an optional address; dereferencing NULL or a freed block, leaving an
  array and waiting for ever are the values of \<open>fault\<close>. Pd's floats are rationals; integers converted to
  floats are rounded to 24 significant bits, conversions back follow gcc on x86-64. The arithmetic of
  the connect timeout is exact instead of single precision, and the static counter that numbers the peers of UDP servers
  is not bounded. Symbols are their names. All functions are
  total: loops are folds over ranges fixed in advance or recursions with a measure (the number of nodes in
  the queue, the number of clients). Only the loop of the send thread, which ends when it is told to, takes a
  number of rounds; one more than there are chunks waiting is shown to be enough. In a life, the send threads may
  work between two messages in every way that keeps the invariant of the sender, and the system answers
  arbitrarily; allocations succeed. In the invariant of the TCP server,
  socket numbers and the table size are at most \<open>2 ^ 24\<close>, because the code passes them through floats.
  Handlers run to their end: messages that an outlet call could send back into the same object are not
  interleaved, except in \<open>Tcp_Server_Reentry\<close>, which has the broadcast and the disconnections it leads to, and send threads do not run while a handler of the main thread runs (their effect
  on the flags and queues is arbitrary before it, as the invariants allow; \<open>Sender_Threads\<close> treats the
  interleaving). \<^verbatim>\<open>atom_getint\<close> and the cells that \<^verbatim>\<open>resizebytes\<close> adds are Pd's: parameters.

  \<^bold>\<open>Not modelled.\<close> The expansion of format strings (log messages are events with their arguments), debugging
  output of builds with DEBUG, Windows-specific branches, the initialisation of mutexes, messages that come
  back into an object from its outlets other than during a broadcast of the TCP server, Pd's own functions (symbols, clocks,
  outlets, the dispatch of messages to methods, which the datatypes of messages stand for); the build system and the test patches.
\<close>

section \<open>Properties that span components\<close>

text \<open>
  C11. From the wire to the outlet: when data arrives on the socket of a client of the TCP server, the
  poll function reads it, and the bytes leave the message outlet in order (one message per byte in
  serialising mode, one list otherwise); the clients and the table are unchanged.
\<close>

theorem tcp_data_reaches_outlet:
  assumes "tcp_inv w" "i < x_nconnections w" "sr_receiver (tcp_conns w ! i) = Some rec"
    and "w_sys w = r # rs" "recv_sane r" "0 < a_ret r" "mem_ok w"
  shows "\<exists>w'. pollfun tcpserver_receive_callback rec w = Inr w' \<and> tcp_inv w' \<and> tcp_clients w' = tcp_clients w \<and>
    messages (w_io w') = messages (w_io w) @ stream_messages (x_serialize w \<noteq> 0) (byte_atoms (a_data r))"
proof -
  have u: "r_userdata rec = Some (tcp_addrs w ! i)"
    using tcp_inv_entry(3) [OF assms(1,2)] assms(3) by (simp add: sr_ok_def)
  obtain w1 where p: "pollfun tcpserver_receive_callback rec w =
      res_bind (tcpserver_receive_callback (Some (tcp_addrs w ! i)) (Some (received_chunk r)) w1)
        (\<lambda>w'. Inr (iemnet__chunk_destroy (Some (received_chunk r)) w'))"
    "world.more w1 = world.more w" "mem_ok w1"
    "w_io w1 = w_io w @ [Syscall ''recvfrom'' [r_sockfd rec, 65536, MSG_DONTWAIT] (a_ret r)]"
    using pollfun_result [OF assms(4,5,7), of tcpserver_receive_callback rec, unfolded Let_def] assms(6) u by auto
  note f = world_more_cong [OF p(2)] and g = tcp_more_cong [OF p(2)]
  obtain w2 where w2: "tcpserver_receive_callback (Some (tcp_addrs w1 ! i)) (Some (received_chunk r)) w1 = Inr w2"
    "tcp_inv w2" "tcp_clients w2 = tcp_clients w1"
    "messages (w_io w2) = messages (w_io w1) @
      stream_messages (x_serialize w1 \<noteq> 0) (byte_atoms (chunk_bytes (received_chunk r)))"
    using receive_data_ok [of w1 i "received_chunk r"] assms p(3) wf_received_chunk [OF assms(5,6)]
    by (auto simp: f g)
  have "chunk_bytes (received_chunk r) = a_data r" by (simp add: chunk_bytes_def received_chunk_def)
  with w2 p show ?thesis
    by (simp add: f g tcp_more_cong [OF chunk_destroy_frame(1)])
qed

definition sample_poll :: "sysret \<Rightarrow> t_tcpserver" where
  "sample_poll r = (sample_server 32 True)\<lparr>w_sys := [r]\<rparr>"

lemma sample_poll_facts:
  "tcp_inv (sample_poll r)" "tcp_room (sample_poll r)" "x_nconnections (sample_poll r) = 2"
  "w_sys (sample_poll r) = [r]" "mem_ok (sample_poll r)" "w_io (sample_poll r) = []" "x_serialize (sample_poll r) = 1"
  "tcp_clients (sample_poll r) = map abs_client [sample_sr 1 7 True, sample_sr 2 8 True]"
  "sr_receiver (tcp_conns (sample_poll r) ! 0) = Some \<lparr>r_sockfd = 7, r_userdata = Some 1\<rparr>"
proof -
  have m: "world.more (sample_poll r) = world.more (sample_server 32 True)" by (simp add: sample_poll_def)
  show "tcp_inv (sample_poll r)" "tcp_room (sample_poll r)" "x_nconnections (sample_poll r) = 2"
    "tcp_clients (sample_poll r) = map abs_client [sample_sr 1 7 True, sample_sr 2 8 True]"
    using tcp_more_cong [OF m] world_more_cong [OF m] sample_server_facts [of 32 True]
      sample_server_room [of 32 True] by (simp_all add: tcp_room_def)
  show "w_sys (sample_poll r) = [r]" "mem_ok (sample_poll r)" "w_io (sample_poll r) = []" "x_serialize (sample_poll r) = 1"
    by (simp_all add: sample_poll_def sample_server_def mem_ok_def)
  show "sr_receiver (tcp_conns (sample_poll r) ! 0) = Some \<lparr>r_sockfd = 7, r_userdata = Some 1\<rparr>"
    using tcp_more_cong(4) [OF m]
    by (simp add: tcp_conns_def sample_server_addrs) (simp add: sample_server_def sample_sr_def)
qed

theorem tcp_data_reaches_outlet_witness:
  "\<exists>w'. pollfun tcpserver_receive_callback \<lparr>r_sockfd = 7, r_userdata = Some 1\<rparr> (sample_poll sample_recv) = Inr w' \<and>
    messages (w_io w') = [[A_FLOAT 104], [A_FLOAT 105]]"
  using tcp_data_reaches_outlet [OF sample_poll_facts(1) _ sample_poll_facts(9) sample_poll_facts(4), of sample_recv]
  by (auto simp: sample_poll_facts stream_messages_def byte_atoms_def)

text \<open>
  C17. While at least two cells of its table are free: when a client of the TCP server closes its connection, when reading fails for whatever reason, or when there
  is no memory for the data that has arrived, the poll function removes this client from the table and closes its socket;
  the other clients keep their order and queues.
\<close>

theorem tcp_hangup_removes_client:
  assumes "tcp_room w" "i < x_nconnections w" "sr_receiver (tcp_conns w ! i) = Some rec"
    and "w_sys w = r # rs" "recv_sane r" "a_ret r \<le> 0 \<or> \<not> list_all id (take 2 (w_malloc w))"
  shows "\<exists>w'. pollfun tcpserver_receive_callback rec w = Inr w' \<and> tcp_inv w' \<and>
    tcp_clients w' = take i (tcp_clients w) @ drop (Suc i) (tcp_clients w) \<and>
    closed_fds (w_io w') = closed_fds (w_io w) @ [tcp_fds w ! i]"
proof -
  from assms(1) have inv: "tcp_inv w" by (simp add: tcp_room_def)
  have u: "r_userdata rec = Some (tcp_addrs w ! i)"
    using tcp_inv_entry(3) [OF inv assms(2)] assms(3) by (simp add: sr_ok_def)
  obtain w1 where p: "pollfun tcpserver_receive_callback rec w =
      res_bind (tcpserver_receive_callback (Some (tcp_addrs w ! i)) None w1) (\<lambda>w'. Inr (iemnet__chunk_destroy None w'))"
    "world.more w1 = world.more w"
    "w_io w1 = w_io w @ [Syscall ''recvfrom'' [r_sockfd rec, 65536, MSG_DONTWAIT] (a_ret r)]"
    by (rule pollfun_gone [OF assms(4-6), of tcpserver_receive_callback rec, unfolded u])
  note f = world_more_cong [OF p(2)] and g = tcp_more_cong [OF p(2)]
  have pre: "tcp_room w1" "i < x_nconnections w1" using assms(1,2) by (simp_all add: tcp_room_def f g)
  from receive_close_ok [OF pre] obtain w2 where
    "tcpserver_receive_callback (Some (tcp_addrs w1 ! i)) None w1 = Inr w2" "tcp_room w2"
    "tcp_clients w2 = take i (tcp_clients w1) @ drop (Suc i) (tcp_clients w1)"
    "closed_fds (w_io w2) = closed_fds (w_io w1) @ [tcp_fds w1 ! i]" by blast
  with p show ?thesis by (simp add: f g tcp_room_def iemnet__chunk_destroy_def)
qed

theorem tcp_hangup_removes_client_witness:
  "\<exists>w'. pollfun tcpserver_receive_callback \<lparr>r_sockfd = 7, r_userdata = Some 1\<rparr>
      ((sample_poll sample_recv)\<lparr>w_malloc := [True, False]\<rparr>) = Inr w' \<and>
    map cl_fd (tcp_clients w') = [8]"
proof -
  let ?w = "(sample_poll sample_recv)\<lparr>w_malloc := [True, False]\<rparr>"
  have m: "world.more ?w = world.more (sample_poll sample_recv)" by simp
  note f = world_more_cong [OF m] tcp_more_cong [OF m] sample_poll_facts
  have "tcp_room ?w" "0 < x_nconnections ?w"
    "sr_receiver (tcp_conns ?w ! 0) = Some \<lparr>r_sockfd = 7, r_userdata = Some 1\<rparr>" "w_sys ?w = [sample_recv]"
    using f by (simp_all add: tcp_room_def)
  from tcp_hangup_removes_client [OF this] f show ?thesis by (auto simp: sample_client)
qed

text \<open>
  A datagram can be answered: a received chunk that is handed to a sender is transmitted, byte for
  byte, to exactly the address and port it came from (with the family set to IPv4).
\<close>

lemma reply_goes_to_peer:
  assumes "recv_sane r" "0 < a_ret r" "sin_port (a_from r) \<noteq> In_port 0 0" "mem_ok w"
  shows "\<exists>c w1 n w2. iemnet__chunk_create_chunk (Some (received_chunk r)) w = Inr (Some c, w1) \<and>
    iemnet__sender_defaultsend fd c w1 = Inr (n, w2) \<and>
    (\<exists>ret. w_io w2 = w_io w @ [Sys_send fd MSG_NOSIGNAL (a_data r) (Some ((a_from r)\<lparr>sin_family := AF_INET\<rparr>)) ret])"
proof -
  let ?c = "(received_chunk r)\<lparr>c_family := AF_INET\<rparr>"
  obtain w1 where w1: "iemnet__chunk_create_chunk (Some (received_chunk r)) w = Inr (Some ?c, w1)" "mem_step w 2 w1"
    using chunk_create_chunk_result [OF wf_received_chunk [OF assms(1,2)], of w] assms(4) by auto
  have port: "ntohs (sin_port (a_from r)) \<noteq> 0"
  proof
    assume "ntohs (sin_port (a_from r)) = 0"
    then have "sin_port (a_from r) = htons 0" using htons_ntohs [of "sin_port (a_from r)"] by simp
    then show False using assms(3) by (simp add: htons_def)
  qed
  obtain x w2 where s: "sys_send fd MSG_NOSIGNAL (a_data r) (Some ((a_from r)\<lparr>sin_family := AF_INET\<rparr>)) w1 = (x, w2)"
    by fastforce
  then have io: "w_io w2 = w_io w1 @ [Sys_send fd MSG_NOSIGNAL (a_data r) (Some ((a_from r)\<lparr>sin_family := AF_INET\<rparr>)) (a_ret x)]"
    by (auto simp: sys_send_def sys_answer_def split: list.splits)
  have dest: "\<lparr>sin_family = AF_INET, sin_addr = sin_addr (a_from r), sin_port = sin_port (a_from r)\<rparr> =
      (a_from r)\<lparr>sin_family := AF_INET\<rparr>"
    by (cases "a_from r") simp
  have "iemnet__sender_defaultsend fd ?c w1 = Inr (if a_ret x < 0 then 0 else 1, w2)"
    using port by (simp add: iemnet__sender_defaultsend_def received_chunk_def memcpy_from_def dest s Let_def
        split: option.splits)
  with w1 io show ?thesis by (auto simp: mem_step_def)
qed

text \<open>
  C34. A datagram that arrives at an accepting UDP server: from a known peer it refreshes the time the peer was last
  heard of, from an unknown one it adds the peer at the end of the table if there is room, and in both
  cases its bytes leave the message outlet in order as one list; without room it is dropped without a trace.
\<close>

theorem udp_data_reaches_outlet:
  assumes "udp_inv w" "r_userdata rec = this" "w_sys w = r # rs" "rs \<noteq> []" "recv_sane r" "0 < a_ret r"
    and "mem_ok w" "u_accept w \<noteq> 0"
  shows "\<exists>w'. pollfun udpserver_receive_callback rec w = Inr w' \<and> udp_inv w' \<and>
    (case heard (u_maxconnections w) (ntohl (sin_addr (a_from r)), ntohs (sin_port (a_from r))) (u_logicaltime w)
        (udp_known w) of
       None \<Rightarrow> udp_known w' = udp_known w \<and> messages (w_io w') = messages (w_io w)
     | Some ps \<Rightarrow> udp_known w' = ps \<and> messages (w_io w') = messages (w_io w) @ [byte_atoms (a_data r)])"
proof -
  let ?c = "received_chunk r"
  obtain w1 where p: "pollfun udpserver_receive_callback rec w =
      res_bind (udpserver_receive_callback this (Some ?c) w1) (\<lambda>w'. Inr (iemnet__chunk_destroy (Some ?c) w'))"
    "world.more w1 = world.more w" "w_sys w1 = rs" "mem_ok w1" "messages (w_io w1) = messages (w_io w)"
    using pollfun_result [OF assms(3,5,7), of udpserver_receive_callback rec, unfolded Let_def] assms(2,6) by auto
  note f = udp_more_cong [OF p(2)] and g = udp_inv_cong [OF p(2)]
  have known: "udp_known w1 = udp_known w" by (simp add: udp_known_def g)
  have c: "c_addr ?c = ntohl (sin_addr (a_from r))" "c_port ?c = ntohs (sin_port (a_from r))"
      "chunk_bytes ?c = a_data r"
    by (simp_all add: received_chunk_def chunk_bytes_def)
  have pre: "udp_inv w1" "w_sys w1 \<noteq> []" "this \<noteq> None" using assms(1,4) p(3) by (simp_all add: g this_def)
  obtain w2 where w2: "udpserver_receive_callback this (Some ?c) w1 = Inr w2" "udp_inv w2"
    "case (if u_accept w1 = 0 then None
        else heard (u_maxconnections w1) (c_addr ?c, c_port ?c) (u_logicaltime w1) (udp_known w1)) of
       None \<Rightarrow> w2 = w1
     | Some ps \<Rightarrow> udp_known w2 = ps \<and> messages (w_io w2) = messages (w_io w1) @ [byte_atoms (chunk_bytes ?c)]"
    using receive_refines [OF pre(1) p(4) pre(2) wf_received_chunk [OF assms(5,6)] pre(3)] by blast
  have "world.more (iemnet__chunk_destroy (Some ?c) w2) = world.more w2" by simp
  note g2 = udp_inv_cong [OF this]
  have "pollfun udpserver_receive_callback rec w = Inr (iemnet__chunk_destroy (Some ?c) w2)"
    using p(1) w2(1) by simp
  then show ?thesis
    using w2(2,3) assms(8) p(5) unfolding c f known
    by (auto simp: udp_known_def g g2 split: option.splits)
qed

definition sample_udp_poll :: t_udpserver where
  "sample_udp_poll = (sample_udp 0)\<lparr>w_sys := [sample_recv, sys_ret 0]\<rparr>"

lemma sample_udp_poll_facts:
  "udp_inv sample_udp_poll" "w_sys sample_udp_poll = [sample_recv, sys_ret 0]" "mem_ok sample_udp_poll"
  "u_accept sample_udp_poll = 1" "u_maxconnections sample_udp_poll = 32" "u_logicaltime sample_udp_poll = 5000"
  "w_io sample_udp_poll = []"
  "udp_known sample_udp_poll = [((2130706433, 5000), 100), ((2130706433, 5001), 4500)]"
proof -
  have m: "world.more sample_udp_poll = world.more (sample_udp 0)" by (simp add: sample_udp_poll_def)
  show "udp_inv sample_udp_poll" "udp_known sample_udp_poll = [((2130706433, 5000), 100), ((2130706433, 5001), 4500)]"
    "u_accept sample_udp_poll = 1" "u_maxconnections sample_udp_poll = 32" "u_logicaltime sample_udp_poll = 5000"
    using udp_inv_cong [OF m] udp_more_cong [OF m]
    by (simp_all add: sample_udp_facts udp_known_def abs_peer_def)
qed (simp_all add: sample_udp_poll_def sample_udp_facts mem_ok_def, simp_all add: sample_udp_def)

theorem udp_data_reaches_outlet_witness:
  "\<exists>w'. pollfun udpserver_receive_callback \<lparr>r_sockfd = 3, r_userdata = this\<rparr> sample_udp_poll = Inr w' \<and>
    udp_known w' = [((2130706433, 5000), 100), ((2130706433, 5001), 4500), ((2130706433, 258), 5000)] \<and>
    messages (w_io w') = [[A_FLOAT 104, A_FLOAT 105]]"
  using udp_data_reaches_outlet [OF sample_udp_poll_facts(1) _ sample_udp_poll_facts(2),
      of "\<lparr>r_sockfd = 3, r_userdata = this\<rparr>"]
  by (auto simp: sample_udp_poll_facts heard_def byte_atoms_def)
    (auto simp: sample_recv_def sample_udp_poll_facts byte_atoms_def)

text \<open>
  C18. A message from a \<^verbatim>\<open>udpsend\<close> object to a \<^verbatim>\<open>udpreceive\<close> object: a list of bytes is queued as one chunk behind what is
  waiting; the chunk is transmitted on the connected socket with exactly these bytes; and when the network
  delivers a datagram with these bytes, they leave the message outlet of the receiver as the list that was sent.
\<close>

theorem udp_message_roundtrip:
  assumes "getint_integral gi" "bs \<noteq> []" "length bs \<le> 65536"
    and "udpsend_inv w" "mem_ok w" "us_sender w = Some s" "s_isrunning s" "s_queue s \<noteq> None"
    and "chunks_size (sender_pending s) + length bs < 2147483648"
    and "udpreceive_inv v" "mem_ok v" "w_sys v = r # rs" "a_ret r = int (length bs)" "a_data r = bs"
  shows "\<exists>w' s' c. udpsend_send gi (byte_atoms bs) w = Inr w' \<and> us_sender w' = Some s' \<and>
    sender_pending s' = sender_pending s @ [c] \<and>
    (\<exists>n u' ret. iemnet__sender_defaultsend (us_fd w) c u = Inr (n, u') \<and>
      w_io u' = w_io u @ [Sys_send (us_fd w) MSG_NOSIGNAL bs None ret]) \<and>
    (\<exists>v'. pollfun udpreceive_read_callback rec v = Inr v' \<and> udpreceive_inv v' \<and>
      messages (w_io v') = messages (w_io v) @ [byte_atoms bs])"
proof -
  have "length bs < 2147483648" using assms(3) by simp
  then obtain w' s' c where w': "udpsend_send gi (byte_atoms bs) w = Inr w'" "us_sender w' = Some s'"
    "sender_pending s' = sender_pending s @ [c]" "memcpy_from (c_data c) (c_size c) = Inr bs" "c_port c = 0"
    by (rule udpsend_send_data [OF assms(1,2) _ assms(4-9)])
  obtain x u' where x: "sys_send (us_fd w) MSG_NOSIGNAL bs None u = (x, u')" by fastforce
  then have io: "w_io u' = w_io u @ [Sys_send (us_fd w) MSG_NOSIGNAL bs None (a_ret x)]"
    by (auto simp: sys_send_def sys_answer_def split: list.splits)
  have transmit: "iemnet__sender_defaultsend (us_fd w) c u = Inr (if a_ret x < 0 then 0 else 1, u')"
    using w'(4,5) x by (simp add: iemnet__sender_defaultsend_def)
  have sane: "recv_sane r" "0 < a_ret r" using assms(2,3,13,14) by (simp_all add: recv_sane_def)
  obtain v' where "pollfun udpreceive_read_callback rec v = Inr v'" "udpreceive_inv v'"
    "messages (w_io v') = messages (w_io v) @ [byte_atoms (a_data r)]"
    by (rule udpreceive_poll_data [OF assms(10-12) sane])
  with w' transmit io assms(14) show ?thesis by blast
qed

definition sample_datagram :: t_udpreceive where
  "sample_datagram = world.extend (sample_world [sample_recv]) \<lparr>ur_fd = 7, ur_port = 3000, ur_receiver = None,
     ur_floatlist = None, ur_reuseport = 0, ur_reuseaddr = 1\<rparr>"

theorem udp_message_roundtrip_witness:
  "\<exists>w w' v'. udpsend_connected = Inr w \<and> udpsend_send sample_getint [A_FLOAT 104, A_FLOAT 105] w = Inr w' \<and>
    pollfun udpreceive_read_callback \<lparr>r_sockfd = 7, r_userdata = Some 0\<rparr> sample_datagram = Inr v' \<and>
    messages (w_io v') = [[A_FLOAT 104, A_FLOAT 105]]"
proof -
  have "ends_with (\<lambda>w. us_fd w = 5 \<and> (case us_sender w of None \<Rightarrow> False | Some s \<Rightarrow> s_isrunning s \<and>
    s_queue s = Some queue_empty)) udpsend_connected" by code_simp
  then obtain w s where w: "udpsend_connected = Inr w" "us_sender w = Some s" "s_isrunning s" "s_queue s = Some queue_empty"
    by (rule ends_withE) (auto split: option.splits)
  have "udpsend_inv (udpsend_new u)" "mem_ok (udpsend_new u) = mem_ok u" for u by (simp_all add: udpsend_new_ok)
  then have "udpsend_inv w" "mem_ok w"
    using w(1) udpsend_connect_ok [of "udpsend_new (sample_world [sample_host, sys_ret 5, sys_ret 0, sys_ret 0, sys_ret 0])"
      "''localhost''" 3000] by (auto simp: udpsend_connected_def udpsend_step_def)
  moreover have "udpreceive_inv sample_datagram" "mem_ok sample_datagram" "w_sys sample_datagram = [sample_recv]"
    "messages (w_io sample_datagram) = []"
    by (simp_all add: sample_datagram_def udpreceive_inv_def world.defs mem_ok_def sample_world_def world0_def)
  moreover have "chunks_size (sender_pending s) = 0" using w(4) by (simp add: sender_pending_def chunks_size_def)
  ultimately show ?thesis
    using udp_message_roundtrip [of sample_getint "[104, 105]" w s sample_datagram sample_recv "[]" world0
      "\<lparr>r_sockfd = 7, r_userdata = Some 0\<rparr>"] w getint_integral_sample
    by (auto simp: byte_atoms_def)
qed

lemma all_accepted_bytes:
  "map a_ret (take (length bss) rs) = map (\<lambda>bs. int (length bs)) bss \<Longrightarrow>
   accepts (map byte_chunk bss) rs \<and> all_accepted (map byte_chunk bss) rs"
proof (induction bss arbitrary: rs)
  case (Cons bs bss)
  then obtain r rs' where "rs = r # rs'" by (cases rs) auto
  with Cons.prems Cons.IH [of rs'] show ?case by (simp add: all_accepted_def byte_chunk_def)
qed (simp add: all_accepted_def)

text \<open>
  C6. A stream from a \<^verbatim>\<open>tcpsend\<close> object to a \<^verbatim>\<open>tcpreceive\<close> object. Lists of bytes sent one after the other are queued; when the
  operating system accepts what the send thread gives it, the bytes on the wire are these lists, one after the
  other; and when they arrive, in pieces of any size, the receiver puts out exactly these bytes in order: one
  message per byte in serialising mode, otherwise one list per piece, without regard to the lists that were sent.
\<close>

theorem tcp_stream_roundtrip:
  assumes "getint_integral gi" "\<forall>bs\<in>set bss. bs \<noteq> [] \<and> length bs < 2147483648"
    and "tcpsend_inv w" "mem_ok w" "ts_sender w = Some s" "s_isrunning s" "s_queue s \<noteq> None" "s_sendfun s = None"
    and "sender_pending s = []" "map a_ret (take (length bss) (w_sys w)) = map (\<lambda>bs. int (length bs)) bss" "length bss < n"
    and "tcpreceive_inv v" "mem_ok v" "r_userdata rec = Some i" "i < 128" "cn_owner (tr_connection v ! i)"
    and "w_sys v = rs @ rest" "\<forall>r\<in>set rs. recv_sane r \<and> 0 < a_ret r" "concat (map a_data rs) = concat bss"
  shows "\<exists>w1 s1 s2 w2 v'. res_fold (\<lambda>bs. tcpsend_send gi (byte_atoms bs)) bss w = Inr w1 \<and> ts_sender w1 = Some s1 \<and>
    sendthread sf n s1 w1 = Inr (Parked, s2, w2) \<and> tcpsend_env w1 (w2\<lparr>ts_sender := Some s2\<rparr>) \<and>
    wire (ts_fd w) (w_io w2) = wire (ts_fd w) (w_io w) @ concat bss \<and>
    res_fold (\<lambda>_. pollfun tcpreceive_read_callback rec) rs v = Inr v' \<and> tcpreceive_inv v' \<and>
    messages (w_io v') = messages (w_io v) @
      (if tr_serialize v \<noteq> 0 then map (\<lambda>a. [a]) (byte_atoms (concat bss)) else map (\<lambda>r. byte_atoms (a_data r)) rs)"
proof -
  obtain w1 s1 where w1: "res_fold (\<lambda>bs. tcpsend_send gi (byte_atoms bs)) bss w = Inr w1" "tcpsend_inv w1" "mem_ok w1"
    "ts_sender w1 = Some s1" "s_isrunning s1" "s_queue s1 \<noteq> None" "s_sendfun s1 = None" "s_sockfd s1 = s_sockfd s"
    "sender_pending s1 = map byte_chunk bss" "w_sys w1 = w_sys w" "w_io w1 = w_io w"
    using tcpsend_sends_data [OF assms(1-7)] assms(8,9) by auto
  have fd: "s_sockfd s1 = ts_fd w" using assms(3,5) w1(8) by (simp add: tcpsend_inv_def)
  have s1: "sending s1" using w1 by (simp add: sending_def tcpsend_inv_def)
  have acc: "accepts (sender_pending s1) (w_sys w1)" "all_accepted (sender_pending s1) (w_sys w1)"
    "list_all (\<lambda>c. c_port c = 0) (sender_pending s1)" "length (sender_pending s1) < n"
    using all_accepted_bytes [OF assms(10)] assms(11) w1 by (simp_all add: list_all_iff byte_chunk_def)
  have bytes: "concat (map chunk_bytes (map byte_chunk bss)) = concat bss"
    by (induction bss) (simp_all add: byte_chunk_def chunk_bytes_def)
  obtain es where es: "transmit n (s_sockfd s1) (sender_pending s1) (w_sys w1) = (Parked, es, [])"
    "wire (s_sockfd s1) es = concat (map2 (\<lambda>c r. take (nat (a_ret r)) (chunk_bytes c)) (sender_pending s1) (w_sys w1))"
    using transmit_accepted [OF acc(4,1,3)] by blast
  have "list_all wf_chunk (sender_pending s1)" using s1 by (auto simp: sending_def sender_inv_def sender_pending_def)
  with es(2) concat_take_all [OF acc(1)] acc(2) bytes w1(9) fd have wire: "wire (ts_fd w) es = concat bss" by simp
  obtain s2 w2 where w2: "sendthread sf n s1 w1 = Inr (Parked, s2, w2)" "w_io w2 = w_io w1 @ es" "world.more w2 = world.more w1"
    using sendthread_transmits [OF s1 es(1), of sf] by blast
  have env: "tcpsend_env w1 (w2\<lparr>ts_sender := Some s2\<rparr>)"
    using sendthread_works [OF s1 w1(3) w2(1)] ts_more_cong [OF w2(3)] w1(4)
    by (auto simp: tcpsend_env_def thread_works_def)
  obtain v' where v': "res_fold (\<lambda>_. pollfun tcpreceive_read_callback rec) rs v = Inr v'" "tcpreceive_inv v'"
    "messages (w_io v') = messages (w_io v) @ concat (map (\<lambda>r. stream_messages (tr_serialize v \<noteq> 0) (byte_atoms (a_data r))) rs)"
    using tcpreceive_polls_data [OF assms(12,13,17,18,14,15,16)] by blast
  have ser: "concat (map (\<lambda>r. map (\<lambda>a. [a]) (byte_atoms (a_data r))) rs) = map (\<lambda>a. [a]) (byte_atoms (concat (map a_data rs)))"
    by (induction rs) (simp_all add: byte_atoms_def)
  show ?thesis
    using w1(1,4) w1(11) w2(1,2) env wire v' ser assms(19)
    by (auto simp: stream_messages_def)
qed

definition tcpsend_idle :: t_tcpsend where
  "tcpsend_idle = world.extend (sample_world [sys_ret 1, sys_ret 1]) \<lparr>ts_fd = 5, ts_timeout = -1, ts_sender = Some sample_sender\<rparr>"

theorem tcp_stream_roundtrip_witness:
  "\<exists>w1 v'. res_fold (\<lambda>bs. tcpsend_send sample_getint (byte_atoms bs)) [[104], [105]] tcpsend_idle = Inr w1 \<and>
    res_fold (\<lambda>_. pollfun tcpreceive_read_callback \<lparr>r_sockfd = 7, r_userdata = Some 0\<rparr>) [sample_recv]
      (tcpreceive_full\<lparr>w_sys := [sample_recv]\<rparr>) = Inr v' \<and>
    messages (w_io v') = [[A_FLOAT 104], [A_FLOAT 105]]"
proof -
  let ?v = "tcpreceive_full\<lparr>w_sys := [sample_recv]\<rparr>" and ?rec = "\<lparr>r_sockfd = 7, r_userdata = Some 0\<rparr>"
  have w: "tcpsend_inv tcpsend_idle" "mem_ok tcpsend_idle" "ts_sender tcpsend_idle = Some sample_sender" "w_sys tcpsend_idle = [sys_ret 1, sys_ret 1]"
    using sample_sender_inv by (simp_all add: tcpsend_idle_def tcpsend_inv_def world.defs sample_sender_def sample_world_def world0_def mem_ok_def)
  have v: "tcpreceive_inv ?v" "mem_ok ?v" "tr_serialize ?v = 1" "cn_owner (tr_connection ?v ! 0)" "w_io ?v = []"
    using tcpreceive_full_inv tr_cong(1) [of ?v tcpreceive_full]
    by (simp_all add: tcpreceive_full_def world.defs mem_ok_def sample_world_def world0_def)
  have "s_sendfun sample_sender = None" by (simp add: sample_sender_def)
  then show ?thesis
    using tcp_stream_roundtrip [OF getint_integral_sample _ w(1-3), of "[[104], [105]]" 3 ?v ?rec 0 "[sample_recv]" "[]"
        "\<lambda>_ _ _ _. Inl NullDeref"] w v
    by (auto simp: byte_atoms_def)
qed

end
